(* ===== verification/Prelude.thy ===== *)
theory Prelude
  imports Main "HOL-Library.Word"
begin

text \<open>
  Shared vocabulary of the development: the machine integers of the Rust sources, the ways a
  Rust computation can fail to return a value, sequencing of fallible computations, integer
  arithmetic under both build profiles (with and without overflow checks), little-endian byte
  encodings, and the generic list and word lemmas the components use.
\<close>

unbundle bit_operations_syntax

named_theorems uhyve_consts \<open>defining equations of the constants of the sources\<close>
named_theorems layout \<open>field offsets and sizes of the structures shared with the guest\<close>

subsection \<open>Machine integers\<close>

text \<open>
  A signed integer of the source is the word of its width; \<^const>\<open>sint\<close> reads it. The target is
  x86-64, so \<^verbatim>\<open>usize\<close> and \<^verbatim>\<open>isize\<close> have 64 bits.
\<close>

type_synonym u8 = "8 word"
type_synonym u16 = "16 word"
type_synonym u32 = "32 word"
type_synonym u64 = "64 word"
type_synonym usize = "64 word"
type_synonym i32 = "32 word"
type_synonym i64 = "64 word"
type_synonym isize = "64 word"

subsection \<open>Failures\<close>

text \<open>
  A Rust panic is one of the first eight values; \<open>BadAccess\<close> stands for a raw pointer access
  outside the memory the pointer was made for, which is undefined behaviour in the source and is
  never given a result in the model.
\<close>

datatype fault =
    ArithOverflow
  | DivByZero
  | IndexOutOfBounds
  | UnwrapFailed
  | AssertFailed
  | ExplicitPanic
  | UnreachableCode
  | UnimplementedCode
  | BadAccess

type_synonym 'a res = "fault + 'a"

text \<open>Sequencing: the first failure is the result of the whole computation.\<close>

fun and_then :: "'e + 'a \<Rightarrow> ('a \<Rightarrow> 'e + 'b) \<Rightarrow> 'e + 'b" where
  "and_then (Inl e) f = Inl e"
| "and_then (Inr x) f = f x"

fun map_ok :: "('a \<Rightarrow> 'b) \<Rightarrow> 'e + 'a \<Rightarrow> 'e + 'b" where
  "map_ok f (Inl e) = Inl e"
| "map_ok f (Inr x) = Inr (f x)"

fun unwrap :: "'a option \<Rightarrow> 'a res" where
  "unwrap None = Inl UnwrapFailed"
| "unwrap (Some x) = Inr x"

definition rust_assert :: "bool \<Rightarrow> unit res" where
  "rust_assert b = (if b then Inr () else Inl AssertFailed)"

text \<open>Indexing into a slice or an array of the source panics out of range.\<close>

definition index :: "'a list \<Rightarrow> nat \<Rightarrow> 'a res" where
  "index xs i = (if i < length xs then Inr (xs ! i) else Inl IndexOutOfBounds)"

definition index_set :: "'a list \<Rightarrow> nat \<Rightarrow> 'a \<Rightarrow> 'a list res" where
  "index_set xs i x = (if i < length xs then Inr (xs[i := x]) else Inl IndexOutOfBounds)"

text \<open>
  A function that returns a Rust \<^verbatim>\<open>Result\<close> has two ways not to give a value: a panic, and an
  \<^verbatim>\<open>Err\<close> its caller sees. The \<^verbatim>\<open>?\<close> operator is \<open>and_then\<close> at this type.
\<close>

datatype 'e failure = Panic fault | Err 'e

fun panics :: "'a res \<Rightarrow> 'e failure + 'a" where
  "panics (Inl f) = Inl (Panic f)"
| "panics (Inr x) = Inr x"

text \<open>Errors of input and output: the kind the sources create, and an error number of the host.\<close>

datatype io_error = InvalidData | OsError i32

text \<open>A range \<^verbatim>\<open>[a..b]\<close> of a slice of length \<open>n\<close>.\<close>

definition slice_range :: "nat \<Rightarrow> nat \<Rightarrow> nat \<Rightarrow> unit res" where
  "slice_range a b n = (if a \<le> b \<and> b \<le> n then Inr () else Inl IndexOutOfBounds)"

text \<open>Running a body over the items of an iterator, stopping at the first failure.\<close>

fun for_each :: "('s \<Rightarrow> 'a \<Rightarrow> 'e + 's) \<Rightarrow> 's \<Rightarrow> 'a list \<Rightarrow> 'e + 's" where
  "for_each f s [] = Inr s"
| "for_each f s (x # xs) = and_then (f s x) (\<lambda>s'. for_each f s' xs)"

lemma and_then_cong [fundef_cong]:
  "r = r' \<Longrightarrow> (\<And>x. r' = Inr x \<Longrightarrow> f x = g x) \<Longrightarrow> and_then r f = and_then r' g"
  by (cases r') auto

lemma and_then_eq_Inr:
  "and_then r f = Inr y \<longleftrightarrow> (\<exists>x. r = Inr x \<and> f x = Inr y)"
  by (cases r) auto

lemma and_then_eq_Inl:
  "and_then r f = Inl e \<longleftrightarrow> r = Inl e \<or> (\<exists>x. r = Inr x \<and> f x = Inl e)"
  by (cases r) auto

lemma and_then_assoc: "and_then (and_then r f) g = and_then r (\<lambda>x. and_then (f x) g)"
  by (cases r) auto

lemma and_then_map_ok: "and_then (map_ok g r) f = and_then r (\<lambda>x. f (g x))"
  by (cases r) auto

lemma map_ok_map_ok: "map_ok f (map_ok g r) = map_ok (\<lambda>x. f (g x)) r"
  by (cases r) auto

lemma map_ok_ident [simp]: "map_ok (\<lambda>x. x) r = r"
  by (cases r) auto

lemma and_then_Inr_right [simp]: "and_then r Inr = r"
  by (cases r) auto

lemma map_ok_eq_Inr: "map_ok f r = Inr y \<longleftrightarrow> (\<exists>x. r = Inr x \<and> y = f x)"
  by (cases r) auto

lemma map_ok_eq_Inl: "map_ok f r = Inl e \<longleftrightarrow> r = Inl e"
  by (cases r) auto

lemma index_eq_Inr: "index xs i = Inr x \<longleftrightarrow> i < length xs \<and> x = xs ! i"
  by (auto simp: index_def)

lemma index_set_eq_Inr: "index_set xs i x = Inr ys \<longleftrightarrow> i < length xs \<and> ys = xs[i := x]"
  by (auto simp: index_set_def)

lemma rust_assert_eq_Inr: "rust_assert b = Inr u \<longleftrightarrow> b"
  by (simp add: rust_assert_def)

lemma unwrap_eq_Inr: "unwrap r = Inr x \<longleftrightarrow> r = Some x"
  by (cases r) auto

lemma panics_eq_Inr: "panics r = Inr x \<longleftrightarrow> r = Inr x"
  by (cases r) auto

lemma panics_eq_Inl: "panics r = Inl e \<longleftrightarrow> (\<exists>f. r = Inl f \<and> e = Panic f)"
  by (cases r) auto

lemma slice_range_eq_Inr: "slice_range a b n = Inr u \<longleftrightarrow> a \<le> b \<and> b \<le> n"
  by (simp add: slice_range_def)

lemmas res_iffs =
  and_then_eq_Inr map_ok_eq_Inr index_eq_Inr index_set_eq_Inr rust_assert_eq_Inr unwrap_eq_Inr
  panics_eq_Inr slice_range_eq_Inr

lemma for_each_append:
  "for_each f s (xs @ ys) = and_then (for_each f s xs) (\<lambda>s'. for_each f s' ys)"
  by (induction xs arbitrary: s) (auto simp: and_then_assoc)

text \<open>A loop keeps what its body keeps, and does not fail where its body does not.\<close>

lemma for_each_invariant:
  assumes "\<And>s x s'. x \<in> set xs \<Longrightarrow> I s \<Longrightarrow> f s x = Inr s' \<Longrightarrow> I s'"
    and "I s" and "for_each f s xs = Inr s'"
  shows "I s'"
  using assms by (induction xs arbitrary: s) (auto simp: and_then_eq_Inr)

lemma for_each_total:
  assumes "\<And>s x. x \<in> set xs \<Longrightarrow> I s \<Longrightarrow> \<exists>s'. f s x = Inr s' \<and> I s'"
    and "I s"
  shows "\<exists>s'. for_each f s xs = Inr s' \<and> I s'"
  using assms
proof (induction xs arbitrary: s)
  case (Cons x xs)
  then obtain s1 where "f s x = Inr s1" and "I s1" by (meson list.set_intros(1))
  with Cons show ?case by auto
qed simp

text \<open>Two bodies that agree wherever an invariant of the loop holds give the same loop.\<close>

lemma for_each_cong_invariant:
  assumes "\<And>s x. x \<in> set xs \<Longrightarrow> I s \<Longrightarrow> f s x = g s x"
    and "\<And>s x s'. x \<in> set xs \<Longrightarrow> I s \<Longrightarrow> g s x = Inr s' \<Longrightarrow> I s'"
    and "I s"
  shows "for_each f s xs = for_each g s xs"
  using assms
proof (induction xs arbitrary: s)
  case (Cons x xs)
  show ?case
  proof (cases "g s x")
    case (Inr s')
    with Cons.prems have "I s'" by (meson list.set_intros(1))
    then have "for_each f s' xs = for_each g s' xs"
      by (rule Cons.IH [rotated 2]) (meson Cons.prems(1,2) list.set_intros(2))+
    with Cons.prems Inr show ?thesis by simp
  qed (use Cons.prems in simp)
qed simp

lemma for_each_map: "for_each f s (map h xs) = for_each (\<lambda>s x. f s (h x)) s xs"
  by (induction xs arbitrary: s) simp_all

subsection \<open>Integer arithmetic under both build profiles\<close>

text \<open>
  \<open>oc\<close> is the profile's \<^verbatim>\<open>overflow-checks\<close> switch: on in debug builds, where an overflowing
  operation panics, off in release builds, where it wraps.
\<close>

definition add_oc :: "bool \<Rightarrow> 'a::len word \<Rightarrow> 'a word \<Rightarrow> 'a word res" where
  "add_oc oc a b =
     (if oc \<and> 2 ^ LENGTH('a) \<le> unat a + unat b then Inl ArithOverflow else Inr (a + b))"

definition sub_oc :: "bool \<Rightarrow> 'a::len word \<Rightarrow> 'a word \<Rightarrow> 'a word res" where
  "sub_oc oc a b = (if oc \<and> a < b then Inl ArithOverflow else Inr (a - b))"

definition mul_oc :: "bool \<Rightarrow> 'a::len word \<Rightarrow> 'a word \<Rightarrow> 'a word res" where
  "mul_oc oc a b =
     (if oc \<and> 2 ^ LENGTH('a) \<le> unat a * unat b then Inl ArithOverflow else Inr (a * b))"

definition sadd_oc :: "bool \<Rightarrow> 'a::len word \<Rightarrow> 'a word \<Rightarrow> 'a word res" where
  "sadd_oc oc a b =
     (if oc \<and> sint (a + b) \<noteq> sint a + sint b then Inl ArithOverflow else Inr (a + b))"

definition ssub_oc :: "bool \<Rightarrow> 'a::len word \<Rightarrow> 'a word \<Rightarrow> 'a word res" where
  "ssub_oc oc a b =
     (if oc \<and> sint (a - b) \<noteq> sint a - sint b then Inl ArithOverflow else Inr (a - b))"

text \<open>Division panics on a zero divisor in every profile.\<close>

definition div_oc :: "'a::len word \<Rightarrow> 'a word \<Rightarrow> 'a word res" where
  "div_oc a b = (if b = 0 then Inl DivByZero else Inr (a div b))"

definition rem_oc :: "'a::len word \<Rightarrow> 'a word \<Rightarrow> 'a word res" where
  "rem_oc a b = (if b = 0 then Inl DivByZero else Inr (a mod b))"

lemma add_oc_release [simp]: "add_oc False a b = Inr (a + b)"
  by (simp add: add_oc_def)

lemma sub_oc_release [simp]: "sub_oc False a b = Inr (a - b)"
  by (simp add: sub_oc_def)

lemma mul_oc_release [simp]: "mul_oc False a b = Inr (a * b)"
  by (simp add: mul_oc_def)

lemma add_oc_no_overflow:
  fixes a b :: "'a::len word"
  shows "unat a + unat b < 2 ^ LENGTH('a) \<Longrightarrow> add_oc oc a b = Inr (a + b)"
  by (simp add: add_oc_def)

lemma add_oc_0 [simp]: "add_oc oc (a :: 'a::len word) 0 = Inr a" and sub_oc_0 [simp]: "sub_oc oc (a :: 'a::len word) 0 = Inr a"
  by (simp_all add: add_oc_def sub_oc_def not_le)

lemma sub_oc_no_underflow: "b \<le> a \<Longrightarrow> sub_oc oc a b = Inr (a - b)"
  by (simp add: sub_oc_def not_less)

lemma add_oc_eq_Inr:
  "add_oc oc a b = Inr c \<Longrightarrow> c = a + b"
  by (simp add: add_oc_def split: if_splits)

lemma sub_oc_eq_Inr:
  "sub_oc oc a b = Inr c \<Longrightarrow> c = a - b"
  by (simp add: sub_oc_def split: if_splits)

lemma mul_oc_eq_Inr:
  "mul_oc oc a b = Inr c \<Longrightarrow> c = a * b"
  by (simp add: mul_oc_def split: if_splits)

lemma sadd_oc_eq_Inr:
  "sadd_oc oc a b = Inr c \<Longrightarrow> c = a + b"
  by (simp add: sadd_oc_def split: if_splits)

lemmas oc_results = add_oc_eq_Inr sub_oc_eq_Inr mul_oc_eq_Inr sadd_oc_eq_Inr

lemma unat_add_no_overflow:
  fixes a b :: "'a::len word"
  shows "unat a + unat b < 2 ^ LENGTH('a) \<Longrightarrow> unat (a + b) = unat a + unat b"
  by (simp add: unat_word_ariths)

lemma unat_of_nat_less:
  "n < 2 ^ LENGTH('a) \<Longrightarrow> unat (of_nat n :: 'a::len word) = n"
  by (simp add: unat_of_nat take_bit_nat_eq_self)

lemma unat_ucast_up:
  assumes "LENGTH('a) \<le> LENGTH('b)"
  shows "unat (ucast (w :: 'a::len word) :: 'b::len word) = unat w"
proof -
  have "unat w < 2 ^ LENGTH('b)"
    using unsigned_less [of w, where 'a = nat] power_increasing [OF assms, of "2 :: nat"] by linarith
  then show ?thesis by (simp add: unsigned_ucast_eq take_bit_nat_eq_self_iff)
qed

lemma mul_oc_no_overflow:
  fixes a b :: "'a::len word"
  assumes "unat a * unat b < 2 ^ LENGTH('a)"
  shows "mul_oc oc a b = Inr (a * b)" and "unat (a * b) = unat a * unat b"
  using assms by (simp_all add: mul_oc_def unat_word_ariths)

subsection \<open>Bits of words\<close>

lemma bit_single: "bit (push_bit n 1 :: 'a::len word) k \<longleftrightarrow> k = n \<and> n < LENGTH('a)"
  by (auto simp: bit_push_bit_iff bit_1_iff bit_exp_iff)

lemma and_single_eq_0:
  "n < LENGTH('a) \<Longrightarrow> (w AND push_bit n 1 = 0) = (\<not> bit (w :: 'a::len word) n)"
  by (auto simp: bit_eq_iff [where 'a = "'a word"] bit_and_iff bit_exp_iff)

lemma and_single_eq_single:
  "n < LENGTH('a) \<Longrightarrow> (w AND push_bit n 1 = push_bit n 1) = bit (w :: 'a::len word) n"
  by (auto simp: bit_eq_iff [where 'a = "'a word"] bit_and_iff bit_exp_iff)

lemma take_bit_0_bit: "take_bit n (w :: 'a::len word) = 0 \<Longrightarrow> k < n \<Longrightarrow> \<not> bit w k"
  by (metis bit_0_eq bit_take_bit_iff bot_apply bot_bool_def)

subsection \<open>Little-endian encodings\<close>

text \<open>The \<open>n\<close> low bytes of a word, least significant first, and the word of a byte list.\<close>

definition to_le :: "nat \<Rightarrow> 'a::len word \<Rightarrow> u8 list" where
  "to_le n w = map (\<lambda>i. ucast (drop_bit (8 * i) w)) [0..<n]"

fun from_le :: "u8 list \<Rightarrow> 'a::len word" where
  "from_le [] = 0"
| "from_le (b # bs) = ucast b OR push_bit 8 (from_le bs)"

abbreviation bytes_of :: "'a::len word \<Rightarrow> u8 list" where
  "bytes_of w \<equiv> to_le (LENGTH('a) div 8) w"

lemma length_to_le [simp]: "length (to_le n w) = n"
  by (simp add: to_le_def)

lemma nth_to_le [simp]: "i < n \<Longrightarrow> to_le n w ! i = ucast (drop_bit (8 * i) w)"
  by (simp add: to_le_def)

lemma bit_from_le:
  "bit (from_le bs :: 'a::len word) k \<longleftrightarrow>
     k < LENGTH('a) \<and> k div 8 < length bs \<and> bit (bs ! (k div 8)) (k mod 8)"
proof (induction bs arbitrary: k)
  case (Cons b bs)
  show ?case
  proof (cases "k < 8")
    case True
    then show ?thesis by (auto simp: bit_simps)
  next
    case False
    then have "k div 8 = Suc ((k - 8) div 8)" and "k mod 8 = (k - 8) mod 8"
      by (auto simp: le_div_geq le_mod_geq)
    moreover have "\<not> bit b k"
      using False by (auto dest: bit_imp_le_length)
    ultimately show ?thesis
      using False by (auto simp: bit_simps Cons.IH)
  qed
qed simp

lemma from_le_to_le:
  fixes w :: "'a::len word"
  assumes "LENGTH('a) \<le> 8 * n"
  shows "from_le (to_le n w) = w"
proof (rule bit_word_eqI)
  fix k assume k: "k < LENGTH('a)"
  with assms have "k div 8 < n" by auto
  moreover have "k mod 8 + 8 * (k div 8) = k" by simp
  ultimately show "bit (from_le (to_le n w) :: 'a word) k = bit w k"
    using k by (auto simp: bit_from_le bit_simps add.commute)
qed

lemma to_le_from_le:
  assumes "8 * length bs = LENGTH('a)"
  shows "to_le (length bs) (from_le bs :: 'a::len word) = bs"
proof (rule nth_equalityI)
  fix i assume "i < length (to_le (length bs) (from_le bs :: 'a word))"
  then have i: "i < length bs" by simp
  have "ucast (drop_bit (8 * i) (from_le bs :: 'a word)) = bs ! i"
  proof (rule bit_word_eqI)
    fix k assume "k < LENGTH(8)"
    then have "k < 8" by simp
    then have "(k + 8 * i) div 8 = i" and "(k + 8 * i) mod 8 = k" and "k + 8 * i < LENGTH('a)"
      using i assms by auto
    then show "bit (ucast (drop_bit (8 * i) (from_le bs :: 'a word)) :: u8) k = bit (bs ! i) k"
      using i \<open>k < 8\<close> by (simp add: bit_simps bit_from_le add.commute)
  qed
  with i show "to_le (length bs) (from_le bs :: 'a word) ! i = bs ! i" by simp
qed simp

end
