(* ===== verification/Debug_Registers.thy ===== *)
theory Debug_Registers
  imports Prelude "HOL-Library.Multiset"
begin

text \<open>
  The hardware breakpoints of the debugger (\<^verbatim>\<open>src/arch/x86_64/registers/debug.rs\<close>): the four slots,
  the contents of the debug registers for them, and the reason of a debug exception. The types of
  the debug registers come from a library; its calls are arguments of the model.
\<close>

subsection \<open>Types of the libraries\<close>

datatype HwBreakpointCondition = InstructionExecution | DataWrites | IoReadsWrites | DataReadsWrites

datatype WatchKind = WatchWrite | WatchRead | WatchReadWrite

datatype Signal = SIGINT | OtherSignal u8

datatype StopReason = DoneStep | SignalStop Signal | Exited u8 | SwBreak | HwBreak | Watch WatchKind u64

text \<open>
  Canonical addresses \<open>'a\<close>, sizes of a breakpoint \<open>'s\<close>, numbers of address registers \<open>'n\<close>, values of the
  control register \<open>'d\<close> and flags of the status register \<open>'f\<close>.
\<close>

record ('a, 's, 'n, 'd, 'f) x86_debug =
  VirtAddr_new :: "u64 \<Rightarrow> 'a res"
  VirtAddr_as_u64 :: "'a \<Rightarrow> u64"
  HwBreakpointSize_try_from :: "usize \<Rightarrow> 's option"
  DebugAddressRegisterNumber_new :: "u8 \<Rightarrow> 'n option"
  Dr7Value_from :: "u64 \<Rightarrow> 'd"
  Dr7Value_insert :: "'d \<Rightarrow> u64 \<Rightarrow> 'd"
  Dr7Value_set_condition :: "'d \<Rightarrow> 'n \<Rightarrow> HwBreakpointCondition \<Rightarrow> 'd"
  Dr7Value_set_size :: "'d \<Rightarrow> 'n \<Rightarrow> 's \<Rightarrow> 'd"
  Dr7Value_bits :: "'d \<Rightarrow> u64"
  Dr7_global_breakpoint_enable :: "'n \<Rightarrow> u64"
  Dr7_LOCAL_EXACT_BREAKPOINT_ENABLE :: u64
  Dr7_GLOBAL_EXACT_BREAKPOINT_ENABLE :: u64
  Dr7_GENERAL_DETECT_ENABLE :: u64
  Dr6_from_bits_truncate :: "u64 \<Rightarrow> 'f"
  Dr6_contains :: "'f \<Rightarrow> 'f \<Rightarrow> bool"
  Dr6_STEP :: 'f
  Dr6_trap :: "'n \<Rightarrow> 'f"

subsection \<open>Breakpoints\<close>

record ('a, 's) HwBreakpoint =
  hb_addr :: 'a
  hb_size :: 's
  hb_condition :: HwBreakpointCondition

definition new_breakpoint ::
  "('a, 's, 'n, 'd, 'f) x86_debug \<Rightarrow> u64 \<Rightarrow> usize \<Rightarrow> unit failure + ('a, 's) HwBreakpoint" where
  "new_breakpoint xd addr kind =
     and_then (panics (VirtAddr_new xd addr)) (\<lambda>a.
     case HwBreakpointSize_try_from xd kind of
       None \<Rightarrow> Inl (Err ())
     | Some s \<Rightarrow> Inr \<lparr>hb_addr = a, hb_size = s, hb_condition = InstructionExecution\<rparr>)"

fun watch_condition :: "WatchKind \<Rightarrow> HwBreakpointCondition option" where
  "watch_condition WatchWrite = Some DataWrites"
| "watch_condition WatchRead = None"
| "watch_condition WatchReadWrite = Some DataReadsWrites"

definition new_watchpoint ::
  "('a, 's, 'n, 'd, 'f) x86_debug \<Rightarrow> u64 \<Rightarrow> u64 \<Rightarrow> WatchKind \<Rightarrow> ('a, 's) HwBreakpoint option res" where
  "new_watchpoint xd addr len kind =
     (case watch_condition kind of
        None \<Rightarrow> Inr None
      | Some condition \<Rightarrow>
          and_then (VirtAddr_new xd addr) (\<lambda>a.
          Inr (map_option (\<lambda>s. \<lparr>hb_addr = a, hb_size = s, hb_condition = condition\<rparr>)
            (HwBreakpointSize_try_from xd len))))"

text \<open>The four slots of \<^verbatim>\<open>HwBreakpoints\<close>.\<close>

type_synonym ('a, 's) HwBreakpoints = "('a, 's) HwBreakpoint option list"

definition HwBreakpoints_new :: "('a, 's) HwBreakpoints" where
  "HwBreakpoints_new = replicate 4 None"

fun try_insert :: "'b option list \<Rightarrow> 'b \<Rightarrow> 'b option list option" where
  "try_insert [] b = None"
| "try_insert (None # slots) b = Some (Some b # slots)"
| "try_insert (Some x # slots) b = map_option (Cons (Some x)) (try_insert slots b)"

fun take_slot :: "'b option list \<Rightarrow> 'b \<Rightarrow> 'b option \<times> 'b option list" where
  "take_slot [] b = (None, [])"
| "take_slot (slot # slots) b =
     (if slot = Some b then (slot, None # slots)
      else let (r, slots') = take_slot slots b in (r, slot # slots'))"

subsection \<open>Contents of the debug registers\<close>

definition control_step ::
  "('a, 's, 'n, 'd, 'f) x86_debug \<Rightarrow> 'd \<Rightarrow> nat \<times> ('a, 's) HwBreakpoint \<Rightarrow> 'd res" where
  "control_step xd dr7_value = (\<lambda>(i, bp).
     and_then (unwrap (DebugAddressRegisterNumber_new xd (of_nat i))) (\<lambda>n.
     let dr7_value = Dr7Value_insert xd dr7_value (Dr7_global_breakpoint_enable xd n);
         dr7_value = Dr7Value_set_condition xd dr7_value n (hb_condition bp) in
     Inr (Dr7Value_set_size xd dr7_value n (hb_size bp))))"

definition control_value :: "('a, 's, 'n, 'd, 'f) x86_debug \<Rightarrow> ('a, 's) HwBreakpoints \<Rightarrow> 'd res" where
  "control_value xd slots =
     (let dr7_flags = Dr7_LOCAL_EXACT_BREAKPOINT_ENABLE xd OR Dr7_GLOBAL_EXACT_BREAKPOINT_ENABLE xd
            OR Dr7_GENERAL_DETECT_ENABLE xd;
          dr7_value = Dr7Value_from xd dr7_flags in
      for_each (control_step xd) dr7_value
        (List.map_filter (\<lambda>(i, hw_breakpoint). map_option (Pair i) hw_breakpoint) (enumerate 0 slots)))"

definition slot_address :: "('a, 's, 'n, 'd, 'f) x86_debug \<Rightarrow> ('a, 's) HwBreakpoint option \<Rightarrow> u64" where
  "slot_address xd slot = (case slot of None \<Rightarrow> 0 | Some bp \<Rightarrow> VirtAddr_as_u64 xd (hb_addr bp))"

definition debug_registers :: "('a, 's, 'n, 'd, 'f) x86_debug \<Rightarrow> ('a, 's) HwBreakpoints \<Rightarrow> u64 list res" where
  "debug_registers xd slots =
     and_then (control_value xd slots) (\<lambda>control.
     and_then (index slots 0) (\<lambda>s0.
     and_then (index slots 1) (\<lambda>s1.
     and_then (index slots 2) (\<lambda>s2.
     and_then (index slots 3) (\<lambda>s3.
     Inr [slot_address xd s0, slot_address xd s1, slot_address xd s2, slot_address xd s3, 0, 0, 0,
       Dr7Value_bits xd control])))))"

subsection \<open>Reason of a debug exception\<close>

text \<open>\<^verbatim>\<open>(0..4).find\<close> with a condition that may panic.\<close>

fun find_trap :: "('a, 's, 'n, 'd, 'f) x86_debug \<Rightarrow> 'f \<Rightarrow> nat list \<Rightarrow> nat option res" where
  "find_trap xd dr6 [] = Inr None"
| "find_trap xd dr6 (n # ns) =
     and_then (unwrap (DebugAddressRegisterNumber_new xd (of_nat n))) (\<lambda>k.
     if Dr6_contains xd dr6 (Dr6_trap xd k) then Inr (Some n) else find_trap xd dr6 ns)"

fun condition_reason :: "HwBreakpointCondition \<Rightarrow> u64 \<Rightarrow> StopReason res" where
  "condition_reason InstructionExecution a = Inr HwBreak"
| "condition_reason DataWrites a = Inr (Watch WatchWrite a)"
| "condition_reason DataReadsWrites a = Inr (Watch WatchReadWrite a)"
| "condition_reason IoReadsWrites a = Inl UnreachableCode"

definition stop_reason ::
  "('a, 's, 'n, 'd, 'f) x86_debug \<Rightarrow> ('a, 's) HwBreakpoints \<Rightarrow> 'f \<Rightarrow> StopReason res" where
  "stop_reason xd slots dr6 =
     (if Dr6_contains xd dr6 (Dr6_STEP xd) then Inr DoneStep
      else and_then (find_trap xd dr6 [0, 1, 2, 3]) (\<lambda>r.
        and_then (unwrap r) (\<lambda>n.
        and_then (index slots n) (\<lambda>slot.
        and_then (unwrap slot) (\<lambda>bp.
        condition_reason (hb_condition bp) (VirtAddr_as_u64 xd (hb_addr bp)))))))"

subsection \<open>A bounded bag\<close>

text \<open>
  What the debugger relies on: the slots are a bag of at most four breakpoints, an insertion
  is refused exactly when they are full, and a removal takes out one copy.
\<close>

locale bounded_bag =
  fixes wf :: "'q \<Rightarrow> bool" and bag :: "'q \<Rightarrow> 'b multiset" and capacity :: nat
    and insert_one :: "'q \<Rightarrow> 'b \<Rightarrow> 'q option" and remove_one :: "'q \<Rightarrow> 'b \<Rightarrow> 'b option \<times> 'q"
  assumes bounded: "wf q \<Longrightarrow> size (bag q) \<le> capacity"
    and insert_full: "wf q \<Longrightarrow> insert_one q b = None \<longleftrightarrow> size (bag q) = capacity"
    and insert_bag: "wf q \<Longrightarrow> insert_one q b = Some q' \<Longrightarrow> wf q' \<and> bag q' = add_mset b (bag q)"
    and remove_present: "wf q \<Longrightarrow> b \<in># bag q \<Longrightarrow>
      fst (remove_one q b) = Some b \<and> wf (snd (remove_one q b)) \<and> bag (snd (remove_one q b)) = bag q - {#b#}"
    and remove_absent: "wf q \<Longrightarrow> b \<notin># bag q \<Longrightarrow> remove_one q b = (None, q)"
begin

lemma insert_remove:
  assumes "wf q" and "insert_one q b = Some q'"
  shows "fst (remove_one q' b) = Some b" and "bag (snd (remove_one q' b)) = bag q"
  using assms remove_present [of q' b] insert_bag [of q b q'] by auto

lemma remove_makes_room:
  assumes "wf q" and "b \<in># bag q"
  shows "insert_one (snd (remove_one q b)) c \<noteq> None"
proof -
  have "size (bag q - {#b#}) < size (bag q)" using assms(2) by (rule size_Diff1_less)
  then show ?thesis using remove_present [OF assms] insert_full bounded [OF assms(1)] by fastforce
qed

end

definition slots_bag :: "'b option list \<Rightarrow> 'b multiset" where
  "slots_bag slots = mset (List.map_filter id slots)"

lemma slots_bag_simps [simp]:
  "slots_bag [] = {#}" "slots_bag (None # s) = slots_bag s" "slots_bag (Some b # s) = add_mset b (slots_bag s)"
  by (simp_all add: slots_bag_def List.map_filter_simps)

lemma slots_bag_bound: "size (slots_bag slots) \<le> length slots"
  by (induction slots) (auto split: option.splits simp: slots_bag_def List.map_filter_simps)

lemma try_insert_None: "try_insert slots b = None \<longleftrightarrow> size (slots_bag slots) = length slots"
proof (induction slots b rule: try_insert.induct)
  case (2 slots b)
  then show ?case using slots_bag_bound [of slots] by simp
qed auto

lemma try_insert_Some:
  "try_insert slots b = Some s \<Longrightarrow> length s = length slots \<and> slots_bag s = add_mset b (slots_bag slots)"
  by (induction slots b arbitrary: s rule: try_insert.induct) auto

lemma try_insert_slot:
  "try_insert slots b = Some s \<Longrightarrow> \<exists>n<length slots. slots ! n = None \<and> s = slots[n := Some b]"
proof (induction slots b arbitrary: s rule: try_insert.induct)
  case (3 x slots b)
  then obtain s' where s': "try_insert slots b = Some s'" "s = Some x # s'" by auto
  from "3.IH" [OF this(1)] obtain n where "n < length slots" "slots ! n = None" "s' = slots[n := Some b]" by blast
  then show ?case using s'(2) by (intro exI [of _ "Suc n"]) simp
qed auto

lemma take_slot_present:
  "b \<in># slots_bag slots \<Longrightarrow> fst (take_slot slots b) = Some b \<and>
     length (snd (take_slot slots b)) = length slots \<and> slots_bag (snd (take_slot slots b)) = slots_bag slots - {#b#}"
proof (induction slots)
  case (Cons slot slots)
  then show ?case by (cases slot) (auto simp: case_prod_unfold Let_def)
qed simp

lemma take_slot_absent: "b \<notin># slots_bag slots \<Longrightarrow> take_slot slots b = (None, slots)"
proof (induction slots)
  case (Cons slot slots)
  then show ?case by (cases slot) auto
qed simp

interpretation hb: bounded_bag "\<lambda>slots. length slots = 4" slots_bag 4 try_insert take_slot
proof unfold_locales
  fix slots :: "'b option list"
  show "size (slots_bag slots) \<le> 4" if "length slots = 4" using slots_bag_bound [of slots] that by simp
qed (auto simp: try_insert_None take_slot_absent dest: try_insert_Some take_slot_present)

subsection \<open>The debug registers of the processor\<close>

text \<open>
  The meaning of the control register: two enable bits for each address register, and two fields of
  two bits for its condition and its length. \<open>num\<close> and \<open>len_code\<close> read register numbers and sizes of
  the library.
\<close>

fun cond_code :: "HwBreakpointCondition \<Rightarrow> bool \<times> bool" where
  "cond_code InstructionExecution = (False, False)"
| "cond_code DataWrites = (True, False)"
| "cond_code IoReadsWrites = (False, True)"
| "cond_code DataReadsWrites = (True, True)"

definition size_code :: "nat \<Rightarrow> bool \<times> bool" where
  "size_code n = (n \<in> {2, 4}, n \<in> {4, 8})"

definition set_field :: "nat \<Rightarrow> bool \<times> bool \<Rightarrow> (nat \<Rightarrow> bool) \<Rightarrow> nat \<Rightarrow> bool" where
  "set_field k c f = (\<lambda>j. if j = k then fst c else if j = k + 1 then snd c else f j)"

definition debug_laws :: "('a, 's, 'n, 'd, 'f) x86_debug \<Rightarrow> ('n \<Rightarrow> nat) \<Rightarrow> ('s \<Rightarrow> nat) \<Rightarrow> bool" where
  "debug_laws xd num len \<longleftrightarrow>
     (\<forall>i k. DebugAddressRegisterNumber_new xd i = Some k \<longleftrightarrow> unat i < 4 \<and> num k = unat i) \<and>
     (\<forall>i. unat i < 4 \<longrightarrow> DebugAddressRegisterNumber_new xd i \<noteq> None) \<and>
     (\<forall>s. case HwBreakpointSize_try_from xd s of None \<Rightarrow> unat s \<notin> {1, 2, 4, 8} | Some z \<Rightarrow> unat s \<in> {1, 2, 4, 8} \<and> len z = unat s) \<and>
     (\<forall>f. Dr7Value_bits xd (Dr7Value_from xd f) = f) \<and>
     (\<forall>d f. Dr7Value_bits xd (Dr7Value_insert xd d f) = Dr7Value_bits xd d OR f) \<and>
     (\<forall>d n c. num n < 4 \<longrightarrow> bit (Dr7Value_bits xd (Dr7Value_set_condition xd d n c)) = set_field (16 + 4 * num n) (cond_code c) (bit (Dr7Value_bits xd d))) \<and>
     (\<forall>d n s. num n < 4 \<longrightarrow> bit (Dr7Value_bits xd (Dr7Value_set_size xd d n s)) = set_field (18 + 4 * num n) (size_code (len s)) (bit (Dr7Value_bits xd d))) \<and>
     (\<forall>n. num n < 4 \<longrightarrow> Dr7_global_breakpoint_enable xd n = push_bit (2 * num n + 1) 1) \<and>
     Dr7_LOCAL_EXACT_BREAKPOINT_ENABLE xd = push_bit 8 1 \<and> Dr7_GLOBAL_EXACT_BREAKPOINT_ENABLE xd = push_bit 9 1 \<and>
     Dr7_GENERAL_DETECT_ENABLE xd = push_bit 13 1 \<and>
     (\<forall>a v. VirtAddr_new xd a = Inr v \<longrightarrow> VirtAddr_as_u64 xd v = a) \<and>
     (\<forall>w. Dr6_contains xd (Dr6_from_bits_truncate xd w) (Dr6_STEP xd) \<longleftrightarrow> bit w 14) \<and>
     (\<forall>w n. num n < 4 \<longrightarrow> Dr6_contains xd (Dr6_from_bits_truncate xd w) (Dr6_trap xd n) \<longleftrightarrow> bit w (num n))"

text \<open>How the processor reads register \<open>n\<close>: whether it is armed, its condition and its length.\<close>

definition armed :: "u64 list \<Rightarrow> nat \<Rightarrow> bool" where
  "armed regs n \<longleftrightarrow> bit (regs ! 7) (2 * n) \<or> bit (regs ! 7) (2 * n + 1)"

definition field :: "u64 list \<Rightarrow> nat \<Rightarrow> bool \<times> bool" where
  "field regs k = (bit (regs ! 7) k, bit (regs ! 7) (k + 1))"

lemma debug_lawsD:
  assumes "debug_laws xd num len"
  shows "i < 4 \<Longrightarrow> \<exists>k. DebugAddressRegisterNumber_new xd (of_nat i) = Some k \<and> num k = i"
    and "Dr7Value_bits xd (Dr7Value_from xd f) = f"
    and "Dr7Value_bits xd (Dr7Value_insert xd d f) = Dr7Value_bits xd d OR f"
    and "num n < 4 \<Longrightarrow> bit (Dr7Value_bits xd (Dr7Value_set_condition xd d n c)) = set_field (16 + 4 * num n) (cond_code c) (bit (Dr7Value_bits xd d))"
    and "num n < 4 \<Longrightarrow> bit (Dr7Value_bits xd (Dr7Value_set_size xd d n s)) = set_field (18 + 4 * num n) (size_code (len s)) (bit (Dr7Value_bits xd d))"
    and "num n < 4 \<Longrightarrow> Dr7_global_breakpoint_enable xd n = push_bit (2 * num n + 1) 1"
    and "Dr7_LOCAL_EXACT_BREAKPOINT_ENABLE xd = push_bit 8 1" and "Dr7_GLOBAL_EXACT_BREAKPOINT_ENABLE xd = push_bit 9 1"
    and "Dr7_GENERAL_DETECT_ENABLE xd = push_bit 13 1"
    and "VirtAddr_new xd a = Inr v \<Longrightarrow> VirtAddr_as_u64 xd v = a"
    and "Dr6_contains xd (Dr6_from_bits_truncate xd w) (Dr6_STEP xd) \<longleftrightarrow> bit w 14"
    and "num n < 4 \<Longrightarrow> Dr6_contains xd (Dr6_from_bits_truncate xd w) (Dr6_trap xd n) \<longleftrightarrow> bit w (num n)"
proof -
  assume i: "i < 4"
  then have u: "unat (of_nat i :: u8) = i" by (intro unat_of_nat_less) simp
  have "DebugAddressRegisterNumber_new xd (of_nat i) \<noteq> None" using assms i u unfolding debug_laws_def by metis
  then obtain k where k: "DebugAddressRegisterNumber_new xd (of_nat i) = Some k" by blast
  moreover have "num k = i" using assms k u unfolding debug_laws_def by metis
  ultimately show "\<exists>k. DebugAddressRegisterNumber_new xd (of_nat i) = Some k \<and> num k = i" by blast
qed (use assms in \<open>simp_all only: debug_laws_def\<close>)

lemma debug_laws_size: "debug_laws xd num len \<Longrightarrow> HwBreakpointSize_try_from xd s = Some z \<Longrightarrow> len z = unat s"
proof -
  assume "debug_laws xd num len" and z: "HwBreakpointSize_try_from xd s = Some z"
  then have "\<forall>s. case HwBreakpointSize_try_from xd s of None \<Rightarrow> unat s \<notin> {1, 2, 4, 8} | Some z \<Rightarrow> unat s \<in> {1, 2, 4, 8} \<and> len z = unat s"
    unfolding debug_laws_def by (elim conjE)
  from spec [OF this, of s] z show "len z = unat s" by simp
qed

text \<open>The control register after slot \<open>i\<close> was entered into it.\<close>

definition arm :: "('s \<Rightarrow> nat) \<Rightarrow> nat \<times> ('a, 's) HwBreakpoint option \<Rightarrow> (nat \<Rightarrow> bool) \<Rightarrow> nat \<Rightarrow> bool" where
  "arm len = (\<lambda>(i, slot) f. case slot of None \<Rightarrow> f
     | Some bp \<Rightarrow> set_field (18 + 4 * i) (size_code (len (hb_size bp)))
         (set_field (16 + 4 * i) (cond_code (hb_condition bp)) (\<lambda>j. j = 2 * i + 1 \<or> f j)))"

lemma control_step_bits:
  assumes "debug_laws xd num len" and "i < 4"
  shows "\<exists>d'. control_step xd d (i, bp) = Inr d' \<and> bit (Dr7Value_bits xd d') = arm len (i, Some bp) (bit (Dr7Value_bits xd d))"
proof -
  note laws = debug_lawsD [OF assms(1)]
  obtain k where k: "DebugAddressRegisterNumber_new xd (of_nat i) = Some k" "num k = i" using laws(1) [OF assms(2)] by blast
  have single: "bit (push_bit (2 * i + 1) (1 :: u64)) = (\<lambda>j. j = 2 * i + 1)"
    using assms(2) by (auto simp only: bit_single fun_eq_iff len_bit0 len_num1)
  have "bit (Dr7Value_bits xd d OR push_bit (2 * i + 1) 1) = (\<lambda>j. j = 2 * i + 1 \<or> bit (Dr7Value_bits xd d) j)"
    unfolding bit_or_iff fun_eq_iff single by blast
  then have "bit (Dr7Value_bits xd (Dr7Value_set_size xd (Dr7Value_set_condition xd
      (Dr7Value_insert xd d (Dr7_global_breakpoint_enable xd k)) k (hb_condition bp)) k (hb_size bp))) =
      arm len (i, Some bp) (bit (Dr7Value_bits xd d))"
    using assms(2) by (simp only: laws k(2) arm_def split_conv option.case)
  then show ?thesis using k(1) by (auto simp: control_step_def Let_def)
qed

lemma control_bits:
  assumes "debug_laws xd num len" and "i + length slots \<le> 4"
  shows "\<exists>d'. for_each (control_step xd) d (List.map_filter (\<lambda>(i, bp). map_option (Pair i) bp) (enumerate i slots)) = Inr d' \<and>
    bit (Dr7Value_bits xd d') = fold (arm len) (enumerate i slots) (bit (Dr7Value_bits xd d))"
  using assms(2)
proof (induction slots arbitrary: i d)
  case Nil
  then show ?case by (simp add: List.map_filter_simps)
next
  case (Cons slot slots)
  show ?case
  proof (cases slot)
    case None
    then show ?thesis using Cons.IH [of "Suc i" d] Cons.prems by (simp add: List.map_filter_simps arm_def)
  next
    case (Some bp)
    obtain d1 where "control_step xd d (i, bp) = Inr d1" "bit (Dr7Value_bits xd d1) = arm len (i, Some bp) (bit (Dr7Value_bits xd d))"
      using control_step_bits [OF assms(1), of i d bp] Cons.prems by auto
    then show ?thesis using Cons.IH [of "Suc i" d1] Cons.prems Some by (simp add: List.map_filter_simps)
  qed
qed

lemma length_4: "length xs = 4 \<Longrightarrow> \<exists>a b c d. xs = [a, b, c, d]"
  by (simp add: eval_nat_numeral length_Suc_conv) blast

lemma less_4: "(\<forall>n<4. P n) \<longleftrightarrow> P 0 \<and> P 1 \<and> P 2 \<and> P (3::nat)"
  by (auto simp: eval_nat_numeral less_Suc_eq)

text \<open>
  The debug registers describe exactly the breakpoints in the slots: an address register is armed
  if and only if its slot is taken, and then it holds the address, the condition and the length of
  the breakpoint in it. Computing them never panics.
\<close>

lemma debug_registers_arm:
  assumes "debug_laws xd num len" and "length slots = 4"
  shows "\<exists>regs. debug_registers xd slots = Inr regs \<and> length regs = 8 \<and>
    (\<forall>n<4. case slots ! n of
        None \<Rightarrow> \<not> armed regs n
      | Some bp \<Rightarrow> armed regs n \<and> regs ! n = VirtAddr_as_u64 xd (hb_addr bp) \<and>
          field regs (16 + 4 * n) = cond_code (hb_condition bp) \<and>
          field regs (18 + 4 * n) = size_code (len (hb_size bp)))"
proof -
  obtain s0 s1 s2 s3 where slots: "slots = [s0, s1, s2, s3]" using length_4 [OF assms(2)] by blast
  define start where "start = Dr7Value_from xd (Dr7_LOCAL_EXACT_BREAKPOINT_ENABLE xd OR Dr7_GLOBAL_EXACT_BREAKPOINT_ENABLE xd
            OR Dr7_GENERAL_DETECT_ENABLE xd)"
  have start: "bit (Dr7Value_bits xd start) = (\<lambda>j. j \<in> {8, 9, 13})"
    unfolding start_def debug_lawsD [OF assms(1)] fun_eq_iff bit_or_iff bit_single by auto
  obtain v where v: "control_value xd slots = Inr v"
    "bit (Dr7Value_bits xd v) = fold (arm len) (enumerate 0 slots) (\<lambda>j. j \<in> {8, 9, 13})"
    using control_bits [OF assms(1), of 0 slots start] assms(2) start by (auto simp: control_value_def Let_def start_def)
  have bits: "bit (Dr7Value_bits xd v) = arm len (3, s3) (arm len (2, s2) (arm len (1, s1) (arm len (0, s0) (\<lambda>j. j \<in> {8, 9, 13}))))"
    using v(2) by (simp add: slots eval_nat_numeral)
  have regs: "debug_registers xd slots = Inr [slot_address xd s0, slot_address xd s1, slot_address xd s2, slot_address xd s3, 0, 0, 0,
       Dr7Value_bits xd v]"
    using v(1) by (simp add: debug_registers_def index_def slots)
  show ?thesis unfolding regs less_4
    by (cases s0; cases s1; cases s2; cases s3)
      (simp_all add: slots armed_def field_def bits arm_def set_field_def slot_address_def)
qed

text \<open>The library as its documentation describes it.\<close>

definition put_field :: "nat \<Rightarrow> bool \<times> bool \<Rightarrow> u64 \<Rightarrow> u64" where
  "put_field k c d = (if fst c then set_bit k else unset_bit k) ((if snd c then set_bit (k + 1) else unset_bit (k + 1)) d)"

definition sample_debug :: "(u64, nat, nat, u64, u64) x86_debug" where
  "sample_debug = \<lparr>
     VirtAddr_new = (\<lambda>a. if drop_bit 47 a = 0 \<or> drop_bit 47 a = 0x1ffff then Inr a else Inl ExplicitPanic),
     VirtAddr_as_u64 = (\<lambda>a. a),
     HwBreakpointSize_try_from = (\<lambda>s. if unat s \<in> {1, 2, 4, 8} then Some (unat s) else None),
     DebugAddressRegisterNumber_new = (\<lambda>i. if unat i < 4 then Some (unat i) else None),
     Dr7Value_from = (\<lambda>f. f), Dr7Value_insert = (OR),
     Dr7Value_set_condition = (\<lambda>d n c. put_field (16 + 4 * n) (cond_code c) d),
     Dr7Value_set_size = (\<lambda>d n s. put_field (18 + 4 * n) (size_code s) d),
     Dr7Value_bits = (\<lambda>d. d),
     Dr7_global_breakpoint_enable = (\<lambda>n. push_bit (2 * n + 1) 1),
     Dr7_LOCAL_EXACT_BREAKPOINT_ENABLE = push_bit 8 1, Dr7_GLOBAL_EXACT_BREAKPOINT_ENABLE = push_bit 9 1,
     Dr7_GENERAL_DETECT_ENABLE = push_bit 13 1,
     Dr6_from_bits_truncate = (\<lambda>w. w AND 0xE00F), Dr6_contains = (\<lambda>f g. f AND g = g),
     Dr6_STEP = push_bit 14 1, Dr6_trap = (\<lambda>n. push_bit n 1)\<rparr>"

lemma bit_put_field: "k + 1 < 64 \<Longrightarrow> bit (put_field k c d) = set_field k c (bit d)"
  by (auto simp: put_field_def set_field_def fun_eq_iff bit_set_bit_iff bit_unset_bit_iff)

lemma sample_debug_laws: "debug_laws sample_debug id id"
proof -
  have f: "bit (w AND (0xE00F :: u64)) n \<longleftrightarrow> bit w n" if "n \<in> {0, 1, 2, 3, 14}" for w n
    using that by (elim insertE emptyE; simp add: bit_and_iff)
  have dr6: "(w AND 0xE00F) AND push_bit n 1 = push_bit n (1 :: u64) \<longleftrightarrow> bit w n" if "n \<in> {0, 1, 2, 3, 14}" for w n
    using and_single_eq_single [of n "w AND (0xE00F :: u64)"] f [OF that, of w] that by (auto simp del: push_bit_of_1)
  have small: "n < 4 \<Longrightarrow> n \<in> {0, 1, 2, 3, 14}" for n :: nat by auto
  show ?thesis
    unfolding debug_laws_def sample_debug_def x86_debug.simps id_apply
  proof (intro conjI allI impI, goal_cases)
    case (7 d n c) then show ?case by (intro bit_put_field) simp
  next case (6 d n c) then show ?case by (intro bit_put_field) simp
  next case (13 w) show ?case by (rule dr6) simp
  next case (14 w n) then show ?case by (intro dr6 small)
  next case (1 i k) show ?case by auto
  qed (simp_all split: if_splits)
qed

text \<open>
  C32. The slots are a bag of at most four breakpoints: a breakpoint is refused exactly when four are
  set, an accepted one is added and can be removed again, and removing a breakpoint that is not set
  changes nothing.
\<close>

theorem slots_refine_bag:
  assumes "length slots = 4"
  shows "size (slots_bag slots) \<le> 4 \<and>
    (case try_insert slots b of
       None \<Rightarrow> size (slots_bag slots) = 4
     | Some s \<Rightarrow> length s = 4 \<and> slots_bag s = add_mset b (slots_bag slots) \<and>
         fst (take_slot s b) = Some b \<and> slots_bag (snd (take_slot s b)) = slots_bag slots) \<and>
    (if b \<in># slots_bag slots then fst (take_slot slots b) = Some b \<and> slots_bag (snd (take_slot slots b)) = slots_bag slots - {#b#}
       \<and> try_insert (snd (take_slot slots b)) c \<noteq> None
     else take_slot slots b = (None, slots))"
  using hb.bounded [OF assms] hb.insert_full [OF assms, of b] hb.insert_bag [OF assms, of b] hb.insert_remove [OF assms, of b]
    hb.remove_present [OF assms, of b] hb.remove_absent [OF assms, of b] hb.remove_makes_room [OF assms, of b c]
  by (auto split: option.split)

theorem slots_refine_bag_witness:
  "try_insert [Some 1, Some 2, Some 3, Some 4] (5 :: nat) = None \<and> slots_bag [Some 1, Some 2, Some 3, Some (4 :: nat)] = {#1, 2, 3, 4#}"
  using slots_refine_bag [of "[Some 1, Some 2, Some 3, Some 4]" "5 :: nat"] by simp

subsection \<open>Stopping\<close>

lemma find_trap_first:
  assumes "debug_laws xd num len" and "\<forall>i\<in>set ns. i < 4"
  shows "find_trap xd (Dr6_from_bits_truncate xd w) ns = Inr (List.find (bit w) ns)"
  using assms(2)
proof (induction ns)
  case (Cons n ns)
  then obtain k where k: "DebugAddressRegisterNumber_new xd (of_nat n) = Some k" "num k = n"
    using debug_lawsD(1) [OF assms(1), of n] by auto
  then show ?case using Cons debug_lawsD(12) [OF assms(1), of k w] by simp
qed simp

text \<open>
  What the debugger learns about a debug exception with status \<open>w\<close>: a completed step if the step
  bit is set; otherwise the breakpoint in the slot of the lowest reported address register, as it was
  requested. If that slot is empty, which the processor does not exclude, or no register is
  reported, the hypervisor stops.
\<close>

lemma stop_reason_correct:
  assumes "debug_laws xd num len" and "length slots = 4"
  shows "stop_reason xd slots (Dr6_from_bits_truncate xd w) =
    (if bit w 14 then Inr DoneStep
     else case List.find (bit w) [0, 1, 2, 3] of
         None \<Rightarrow> Inl UnwrapFailed
       | Some n \<Rightarrow> (case slots ! n of
           None \<Rightarrow> Inl UnwrapFailed
         | Some bp \<Rightarrow> condition_reason (hb_condition bp) (VirtAddr_as_u64 xd (hb_addr bp)))) \<and>
    (new_breakpoint xd a k = Inr bp \<longrightarrow> condition_reason (hb_condition bp) (VirtAddr_as_u64 xd (hb_addr bp)) = Inr HwBreak) \<and>
    (new_watchpoint xd a l kind = Inr (Some bp) \<longrightarrow>
       condition_reason (hb_condition bp) (VirtAddr_as_u64 xd (hb_addr bp)) = Inr (Watch kind a))"
proof (intro conjI impI)
  have "\<forall>i\<in>set [0, 1, 2, 3 :: nat]. i < 4" by simp
  from find_trap_first [OF assms(1) this, of w]
  show "stop_reason xd slots (Dr6_from_bits_truncate xd w) =
    (if bit w 14 then Inr DoneStep
     else case List.find (bit w) [0, 1, 2, 3] of
         None \<Rightarrow> Inl UnwrapFailed
       | Some n \<Rightarrow> (case slots ! n of
           None \<Rightarrow> Inl UnwrapFailed
         | Some bp \<Rightarrow> condition_reason (hb_condition bp) (VirtAddr_as_u64 xd (hb_addr bp))))"
    using assms(2) debug_lawsD(11) [OF assms(1)]
    by (auto simp: stop_reason_def index_def find_Some_iff less_Suc_eq numeral_eq_Suc split: option.split)
next
  assume "new_breakpoint xd a k = Inr bp"
  then show "condition_reason (hb_condition bp) (VirtAddr_as_u64 xd (hb_addr bp)) = Inr HwBreak"
    by (auto simp: new_breakpoint_def res_iffs split: option.splits)
next
  assume "new_watchpoint xd a l kind = Inr (Some bp)"
  then show "condition_reason (hb_condition bp) (VirtAddr_as_u64 xd (hb_addr bp)) = Inr (Watch kind a)"
    using debug_lawsD(10) [OF assms(1)] by (cases kind) (auto simp: new_watchpoint_def res_iffs)
qed

end
