(* ===== verification/Consts.thy ===== *)
theory Consts
  imports Prelude
begin

text \<open>
  The constants of \<^verbatim>\<open>src/consts.rs\<close>: the boot memory layout, the model-specific register
  bits and the I/O ports of the hypercall interface, and the address arithmetic of
  \<^verbatim>\<open>src/macros.rs\<close>.
\<close>

definition PAGE_SIZE :: usize where [uhyve_consts]: "PAGE_SIZE = 0x1000"

definition GDT_KERNEL_CODE :: u16 where [uhyve_consts]: "GDT_KERNEL_CODE = 1"

definition GDT_KERNEL_DATA :: u16 where [uhyve_consts]: "GDT_KERNEL_DATA = 2"

definition APIC_DEFAULT_BASE :: u64 where [uhyve_consts]: "APIC_DEFAULT_BASE = 0xfee00000"

definition BOOT_GDT :: u64 where [uhyve_consts]: "BOOT_GDT = 0x1000"

definition BOOT_GDT_NULL :: u64 where [uhyve_consts]: "BOOT_GDT_NULL = 0"

definition BOOT_GDT_CODE :: u64 where [uhyve_consts]: "BOOT_GDT_CODE = 1"

definition BOOT_GDT_DATA :: u64 where [uhyve_consts]: "BOOT_GDT_DATA = 2"

definition BOOT_GDT_MAX :: u64 where [uhyve_consts]: "BOOT_GDT_MAX = 3"

definition BOOT_PML4 :: u64 where [uhyve_consts]: "BOOT_PML4 = 0x10000"

definition BOOT_PDPTE :: u64 where [uhyve_consts]: "BOOT_PDPTE = 0x11000"

definition BOOT_PDE :: u64 where [uhyve_consts]: "BOOT_PDE = 0x12000"

definition BOOT_INFO_ADDR :: u64 where [uhyve_consts]: "BOOT_INFO_ADDR = 0x9000"

definition EFER_SCE :: u64 where [uhyve_consts]: "EFER_SCE = 1"

definition EFER_LME :: u64 where [uhyve_consts]: "EFER_LME = push_bit 8 1"

definition EFER_LMA :: u64 where [uhyve_consts]: "EFER_LMA = push_bit 10 1"

definition EFER_NXE :: u64 where [uhyve_consts]: "EFER_NXE = push_bit 11 1"

definition IOAPIC_BASE :: u64 where [uhyve_consts]: "IOAPIC_BASE = 0xfec00000"

definition IOAPIC_SIZE :: u64 where [uhyve_consts]: "IOAPIC_SIZE = 0x1000"

definition KERNEL_STACK_SIZE :: u64 where [uhyve_consts]: "KERNEL_STACK_SIZE = 32768"

definition SHUTDOWN_PORT :: u16 where [uhyve_consts]: "SHUTDOWN_PORT = 0xf4"

definition SHAREDQUEUE_START :: usize where [uhyve_consts]: "SHAREDQUEUE_START = 0x80000"

definition UHYVE_NET_MTU :: usize where [uhyve_consts]: "UHYVE_NET_MTU = 1500"

definition UHYVE_QUEUE_SIZE :: usize where [uhyve_consts]: "UHYVE_QUEUE_SIZE = 8"

definition UHYVE_IRQ_NET :: u32 where [uhyve_consts]: "UHYVE_IRQ_NET = 11"

definition GUEST_PAGE_SIZE :: u64 where [uhyve_consts]: "GUEST_PAGE_SIZE = 0x200000"

definition UHYVE_PORT_WRITE :: u16 where [uhyve_consts]: "UHYVE_PORT_WRITE = 0x400"

definition UHYVE_PORT_OPEN :: u16 where [uhyve_consts]: "UHYVE_PORT_OPEN = 0x440"

definition UHYVE_PORT_CLOSE :: u16 where [uhyve_consts]: "UHYVE_PORT_CLOSE = 0x480"

definition UHYVE_PORT_READ :: u16 where [uhyve_consts]: "UHYVE_PORT_READ = 0x500"

definition UHYVE_PORT_EXIT :: u16 where [uhyve_consts]: "UHYVE_PORT_EXIT = 0x540"

definition UHYVE_PORT_LSEEK :: u16 where [uhyve_consts]: "UHYVE_PORT_LSEEK = 0x580"

definition UHYVE_PORT_NETWRITE :: u16 where [uhyve_consts]: "UHYVE_PORT_NETWRITE = 0x640"

definition UHYVE_PORT_NETREAD :: u16 where [uhyve_consts]: "UHYVE_PORT_NETREAD = 0x680"

definition UHYVE_PORT_NETSTAT :: u16 where [uhyve_consts]: "UHYVE_PORT_NETSTAT = 0x700"

definition UHYVE_PORT_CMDSIZE :: u16 where [uhyve_consts]: "UHYVE_PORT_CMDSIZE = 0x740"

definition UHYVE_PORT_CMDVAL :: u16 where [uhyve_consts]: "UHYVE_PORT_CMDVAL = 0x780"

definition UHYVE_UART_PORT :: u16 where [uhyve_consts]: "UHYVE_UART_PORT = 0x800"

definition UHYVE_PORT_UNLINK :: u16 where [uhyve_consts]: "UHYVE_PORT_UNLINK = 0x840"

subsection \<open>The alignment macros\<close>

definition align_down :: "bool \<Rightarrow> 'a::len word \<Rightarrow> 'a word \<Rightarrow> 'a word res" where
  "align_down oc value alignment =
     map_ok (\<lambda>m. value AND NOT m) (sub_oc oc alignment 1)"

definition align_up :: "bool \<Rightarrow> 'a::len word \<Rightarrow> 'a word \<Rightarrow> 'a word res" where
  "align_up oc value alignment =
     and_then (sub_oc oc alignment 1) (\<lambda>m.
     and_then (add_oc oc value m) (\<lambda>s. align_down oc s alignment))"

lemma align_down_pow2:
  fixes v :: "'a::len word"
  assumes "k < LENGTH('a)"
  shows "align_down oc v (2 ^ k) = Inr (v - v mod 2 ^ k)"
proof -
  have "(0 :: 'a word) < 2 ^ k"
    using assms by (simp add: word_gt_0)
  then have "(1 :: 'a word) \<le> 2 ^ k"
    by (simp add: word_le_nat_alt word_less_nat_alt)
  moreover have "(2 :: 'a word) ^ k - 1 = mask k"
    by (simp add: mask_eq_decr_exp)
  moreover have "v AND NOT (mask k) = v - take_bit k v"
    by (subst disjunctive_diff_eq_and_not) (auto simp: bit_eq_iff bit_simps)
  ultimately show ?thesis
    by (simp add: align_down_def sub_oc_no_underflow take_bit_eq_mod)
qed

text \<open>
  For a power of two, \<^verbatim>\<open>align_up!\<close> is the least multiple of the alignment that is not below the
  value, as long as that multiple fits.
\<close>

lemma align_up_pow2:
  fixes v :: "'a::len word"
  assumes k: "k < LENGTH('a)" and fits: "unat v + (2 ^ k - 1) < 2 ^ LENGTH('a)"
  shows "\<exists>r. align_up oc v (2 ^ k) = Inr r \<and> unat r = (unat v + (2 ^ k - 1)) div 2 ^ k * 2 ^ k"
proof -
  have p: "unat ((2 :: 'a word) ^ k) = 2 ^ k"
    using k unat_of_nat_less [of "2 ^ k", where 'a = 'a] by simp
  then have one: "(1 :: 'a word) \<le> 2 ^ k"
    by (simp add: word_le_nat_alt)
  have m: "unat ((2 :: 'a word) ^ k - 1) = 2 ^ k - 1"
    using one p by (simp add: unat_sub)
  let ?s = "v + (2 ^ k - 1)"
  have s: "unat ?s = unat v + (2 ^ k - 1)"
    using fits m by (simp add: unat_word_ariths)
  have "align_up oc v (2 ^ k) = Inr (?s - ?s mod 2 ^ k)"
    using one fits m by (simp add: align_up_def sub_oc_no_underflow add_oc_no_overflow
      align_down_pow2 [OF k])
  moreover have "unat (?s - ?s mod 2 ^ k) = unat ?s div 2 ^ k * 2 ^ k"
  proof -
    have "?s mod 2 ^ k \<le> ?s"
      by (simp add: word_le_nat_alt unat_mod_distrib)
    then have "unat (?s - ?s mod 2 ^ k) = unat ?s - unat ?s mod 2 ^ k"
      by (simp only: unat_sub unat_mod_distrib p)
    then show ?thesis
      by (simp only: minus_mod_eq_div_mult)
  qed
  ultimately show ?thesis using s by simp
qed

end
