(* ===== verification/GuestMemory.thy ===== *)
theory GuestMemory
  imports Prelude
begin

text \<open>
  The guest's physical memory as the hypervisor sees it: one anonymous mapping of the host
  address space, accessed through raw pointers. The interface the other components rely on is the
  locale \<open>byte_memory\<close>; it is interpreted on the model's \<open>load_bytes\<close> and \<open>store_bytes\<close>.
\<close>

subsection \<open>The mapping and its accesses\<close>

text \<open>
  \<open>mem_base\<close> is the host address the mapping starts at, \<open>mem_size\<close> its length in bytes,
  \<open>mem_bytes\<close> the byte at each host address. An access that is not inside the mapping is a
  \<^const>\<open>BadAccess\<close>: the sources do not check raw pointers.
\<close>

record hmem =
  mem_base :: u64
  mem_size :: usize
  mem_bytes :: "u64 \<Rightarrow> u8"

definition mem_wf :: "hmem \<Rightarrow> bool" where
  "mem_wf m \<longleftrightarrow> unat (mem_base m) + unat (mem_size m) < 2 ^ 64"

definition in_mem :: "hmem \<Rightarrow> u64 \<Rightarrow> nat \<Rightarrow> bool" where
  "in_mem m a n \<longleftrightarrow>
     unat (mem_base m) \<le> unat a \<and> unat a + n \<le> unat (mem_base m) + unat (mem_size m)"

definition read_bytes :: "hmem \<Rightarrow> u64 \<Rightarrow> nat \<Rightarrow> u8 list" where
  "read_bytes m a n = map (\<lambda>i. mem_bytes m (a + of_nat i)) [0..<n]"

definition write_bytes :: "hmem \<Rightarrow> u64 \<Rightarrow> u8 list \<Rightarrow> hmem" where
  "write_bytes m a bs = m\<lparr>mem_bytes := (\<lambda>x.
     if unat a \<le> unat x \<and> unat x < unat a + length bs then bs ! (unat x - unat a)
     else mem_bytes m x)\<rparr>"

definition load_bytes :: "hmem \<Rightarrow> u64 \<Rightarrow> nat \<Rightarrow> u8 list res" where
  "load_bytes m a n = (if in_mem m a n then Inr (read_bytes m a n) else Inl BadAccess)"

definition store_bytes :: "hmem \<Rightarrow> u64 \<Rightarrow> u8 list \<Rightarrow> hmem res" where
  "store_bytes m a bs =
     (if in_mem m a (length bs) then Inr (write_bytes m a bs) else Inl BadAccess)"

text \<open>Reading and writing one integer through a pointer to it.\<close>

definition load :: "hmem \<Rightarrow> u64 \<Rightarrow> 'a::len word res" where
  "load m a = map_ok from_le (load_bytes m a (LENGTH('a) div 8))"

definition store :: "hmem \<Rightarrow> u64 \<Rightarrow> 'a::len word \<Rightarrow> hmem res" where
  "store m a w = store_bytes m a (to_le (LENGTH('a) div 8) w)"

text \<open>Two address ranges do not overlap.\<close>

definition apart :: "u64 \<Rightarrow> nat \<Rightarrow> u64 \<Rightarrow> nat \<Rightarrow> bool" where
  "apart a n b k \<longleftrightarrow> unat a + n \<le> unat b \<or> unat b + k \<le> unat a"

subsection \<open>The interface\<close>

text \<open>
  What a client of a byte-addressed memory relies on: an access succeeds exactly inside the
  valid ranges, a write changes the written range and nothing else, and never the validity of
  a range.
\<close>

locale byte_memory =
  fixes wf :: "'m \<Rightarrow> bool"
    and valid :: "'m \<Rightarrow> u64 \<Rightarrow> nat \<Rightarrow> bool"
    and rd :: "'m \<Rightarrow> u64 \<Rightarrow> nat \<Rightarrow> u8 list res"
    and wr :: "'m \<Rightarrow> u64 \<Rightarrow> u8 list \<Rightarrow> 'm res"
  assumes rd_ok_iff: "(\<exists>bs. rd m a n = Inr bs) \<longleftrightarrow> valid m a n"
    and rd_length: "rd m a n = Inr bs \<Longrightarrow> length bs = n"
    and rd_fault: "\<not> valid m a n \<Longrightarrow> rd m a n = Inl BadAccess"
    and wr_ok_iff: "(\<exists>m'. wr m a bs = Inr m') \<longleftrightarrow> valid m a (length bs)"
    and wr_fault: "\<not> valid m a (length bs) \<Longrightarrow> wr m a bs = Inl BadAccess"
    and wr_valid: "wr m a bs = Inr m' \<Longrightarrow> valid m' b n = valid m b n"
    and wr_wf: "wf m \<Longrightarrow> wr m a bs = Inr m' \<Longrightarrow> wf m'"
    and rd_wr_same: "wf m \<Longrightarrow> wr m a bs = Inr m' \<Longrightarrow> rd m' a (length bs) = Inr bs"
    and rd_wr_apart:
      "wf m \<Longrightarrow> wr m a bs = Inr m' \<Longrightarrow> apart a (length bs) b n \<Longrightarrow> rd m' b n = rd m b n"
begin

lemma rd_word_wr:
  assumes "wf m" and "wr m a (to_le n (w :: 'w::len word)) = Inr m'" and "LENGTH('w) \<le> 8 * n"
  shows "map_ok from_le (rd m' a n) = Inr w"
  using rd_wr_same [OF assms(1,2)] assms(3) by (simp add: from_le_to_le)

text \<open>A sequence of writes, given as a list of addresses and contents.\<close>

lemma writes_total:
  assumes "\<And>a bs. (a, bs) \<in> set ws \<Longrightarrow> valid m a (length bs)"
  shows "\<exists>m'. for_each (\<lambda>m (a, bs). wr m a bs) m ws = Inr m'"
  using assms
proof (induction ws arbitrary: m)
  case (Cons w ws)
  obtain a bs where w: "w = (a, bs)" by (cases w)
  with Cons.prems obtain m1 where m1: "wr m a bs = Inr m1"
    using wr_ok_iff by (meson list.set_intros(1))
  then have "\<And>b cs. (b, cs) \<in> set ws \<Longrightarrow> valid m1 b (length cs)"
    using Cons.prems wr_valid by auto
  from Cons.IH [OF this] obtain m2 where
    "for_each (\<lambda>m (a, bs). wr m a bs) m1 ws = Inr m2" by blast
  with w m1 show ?case by simp
qed simp

lemma writes_wf:
  "wf m \<Longrightarrow> for_each (\<lambda>m (a, bs). wr m a bs) m ws = Inr m' \<Longrightarrow> wf m'"
  by (induction ws arbitrary: m) (auto simp: and_then_eq_Inr split: prod.splits dest: wr_wf)

lemma writes_valid:
  "for_each (\<lambda>m (a, bs). wr m a bs) m ws = Inr m' \<Longrightarrow> valid m' b n = valid m b n"
  by (induction ws arbitrary: m) (auto simp: and_then_eq_Inr split: prod.splits dest: wr_valid)

lemma writes_apart:
  assumes "wf m" and "for_each (\<lambda>m (a, bs). wr m a bs) m ws = Inr m'"
    and "\<And>a bs. (a, bs) \<in> set ws \<Longrightarrow> apart a (length bs) b n"
  shows "rd m' b n = rd m b n"
  using assms
proof (induction ws arbitrary: m)
  case (Cons w ws)
  obtain a bs where w: "w = (a, bs)" by (cases w)
  with Cons.prems(2) obtain m1 where m1: "wr m a bs = Inr m1"
    and rest: "for_each (\<lambda>m (a, bs). wr m a bs) m1 ws = Inr m'"
    by (auto simp: and_then_eq_Inr)
  have "rd m' b n = rd m1 b n"
    using Cons.IH rest wr_wf [OF Cons.prems(1) m1] Cons.prems(3) by auto
  moreover have "rd m1 b n = rd m b n"
    using rd_wr_apart [OF Cons.prems(1) m1] Cons.prems(3) w by auto
  ultimately show ?case by simp
qed simp

text \<open>The last write to a range decides what is read from it.\<close>

lemma writes_read:
  assumes "wf m" and "for_each (\<lambda>m (a, bs). wr m a bs) m (xs @ (b, cs) # ys) = Inr m'"
    and "\<And>a bs. (a, bs) \<in> set ys \<Longrightarrow> apart a (length bs) b (length cs)"
  shows "rd m' b (length cs) = Inr cs"
proof -
  from assms(2) obtain m1 m2 where
    1: "for_each (\<lambda>m (a, bs). wr m a bs) m xs = Inr m1" and 2: "wr m1 b cs = Inr m2"
    and 3: "for_each (\<lambda>m (a, bs). wr m a bs) m2 ys = Inr m'"
    by (auto simp: for_each_append and_then_eq_Inr)
  have "wf m1" using assms(1) 1 by (rule writes_wf)
  then have "wf m2" and "rd m2 b (length cs) = Inr cs"
    using 2 wr_wf rd_wr_same by blast+
  then show ?thesis using writes_apart [OF _ 3 assms(3)] by simp
qed

end

subsection \<open>The model implements the interface\<close>

lemma write_bytes_sel [simp]:
  "mem_base (write_bytes m a bs) = mem_base m"
  "mem_size (write_bytes m a bs) = mem_size m"
  by (simp_all add: write_bytes_def)

lemma in_mem_write_bytes [simp]: "in_mem (write_bytes m a bs) b n = in_mem m b n"
  by (simp add: in_mem_def)

lemma mem_wf_write_bytes [simp]: "mem_wf (write_bytes m a bs) = mem_wf m"
  by (simp add: mem_wf_def)

lemma length_read_bytes [simp]: "length (read_bytes m a n) = n"
  by (simp add: read_bytes_def)

lemma in_mem_offset:
  assumes "mem_wf m" and "in_mem m a n" and "i \<le> n"
  shows "unat (a + of_nat i) = unat a + i"
proof -
  have "unat a + i < 2 ^ 64"
    using assms by (auto simp: mem_wf_def in_mem_def)
  moreover from this have "unat (of_nat i :: u64) = i"
    by (simp add: unat_of_nat take_bit_nat_eq_self)
  ultimately show ?thesis by (simp add: unat_word_ariths)
qed

lemma read_write_same:
  assumes "mem_wf m" and "in_mem m a (length bs)"
  shows "read_bytes (write_bytes m a bs) a (length bs) = bs"
  by (rule nth_equalityI) (auto simp: read_bytes_def write_bytes_def in_mem_offset [OF assms])

lemma read_write_apart:
  assumes "mem_wf m" and "in_mem m b n" and "apart a (length bs) b n"
  shows "read_bytes (write_bytes m a bs) b n = read_bytes m b n"
  using assms(3) by (auto simp: read_bytes_def write_bytes_def apart_def in_mem_offset [OF assms(1,2)])

interpretation gm: byte_memory mem_wf in_mem load_bytes store_bytes
proof unfold_locales
  fix m :: hmem and a b :: u64 and bs :: "u8 list" and n :: nat and m' :: hmem
  show "mem_wf m \<Longrightarrow> store_bytes m a bs = Inr m' \<Longrightarrow> load_bytes m' a (length bs) = Inr bs"
    by (auto simp: store_bytes_def load_bytes_def read_write_same split: if_splits)
  show "mem_wf m \<Longrightarrow> store_bytes m a bs = Inr m' \<Longrightarrow> apart a (length bs) b n \<Longrightarrow>
      load_bytes m' b n = load_bytes m b n"
    by (auto simp: store_bytes_def load_bytes_def read_write_apart split: if_splits)
qed (auto simp: store_bytes_def load_bytes_def split: if_splits)

subsection \<open>Integers in memory\<close>

lemma load_ok_iff: "(\<exists>w. load m a = Inr (w :: 'a::len word)) \<longleftrightarrow> in_mem m a (LENGTH('a) div 8)"
  by (simp add: load_def load_bytes_def)

lemma load_in_mem:
  "in_mem m a (LENGTH('a) div 8) \<Longrightarrow>
     load m a = Inr (from_le (read_bytes m a (LENGTH('a) div 8)) :: 'a::len word)"
  by (simp add: load_def load_bytes_def)

lemma load_fault:
  "\<not> in_mem m a (LENGTH('a) div 8) \<Longrightarrow> (load m a :: 'a::len word res) = Inl BadAccess"
  by (simp add: load_def load_bytes_def)

lemma store_ok_iff: "(\<exists>m'. store m a (w :: 'a::len word) = Inr m') \<longleftrightarrow> in_mem m a (LENGTH('a) div 8)"
  by (simp add: store_def store_bytes_def)

lemma store_wf: "mem_wf m \<Longrightarrow> store m a w = Inr m' \<Longrightarrow> mem_wf m'"
  unfolding store_def by (rule gm.wr_wf)

lemma store_in_mem: "store m a w = Inr m' \<Longrightarrow> in_mem m' b n = in_mem m b n"
  unfolding store_def by (rule gm.wr_valid)

lemma store_base:
  "store m a w = Inr m' \<Longrightarrow> mem_base m' = mem_base m"
  "store m a w = Inr m' \<Longrightarrow> mem_size m' = mem_size m"
  by (auto simp: store_def store_bytes_def split: if_splits)

lemma load_store_same:
  assumes "mem_wf m" and "store m a (w :: 'a::len word) = Inr m'" and "LENGTH('a) = 8 * (LENGTH('a) div 8)"
  shows "load m' a = Inr w"
  using gm.rd_word_wr [OF assms(1) assms(2) [unfolded store_def]] assms(3)
  by (simp add: load_def)

lemma load_store_apart:
  assumes "mem_wf m" and "store m a (w :: 'a::len word) = Inr m'"
    and "apart a (LENGTH('a) div 8) b (LENGTH('b) div 8)"
  shows "load m' b = (load m b :: 'b::len word res)"
  using gm.rd_wr_apart [OF assms(1) assms(2) [unfolded store_def]] assms(3)
  by (simp add: load_def)

text \<open>The round trip of the interface law at the width every pointer and counter has.\<close>

lemma load_store_u64:
  "mem_wf m \<Longrightarrow> store m a (w :: u64) = Inr m' \<Longrightarrow> load m' a = Inr w"
  by (rule load_store_same) simp_all

lemma load_store_u32:
  "mem_wf m \<Longrightarrow> store m a (w :: u32) = Inr m' \<Longrightarrow> load m' a = Inr w"
  by (rule load_store_same) simp_all

lemma load_store_u16:
  "mem_wf m \<Longrightarrow> store m a (w :: u16) = Inr m' \<Longrightarrow> load m' a = Inr w"
  by (rule load_store_same) simp_all

text \<open>Sequences of 64-bit stores, from the laws on sequences of byte writes.\<close>

definition stores :: "hmem \<Rightarrow> (u64 \<times> u64) list \<Rightarrow> hmem res" where
  "stores m ws = for_each (\<lambda>m (a, w). store m a w) m ws"

lemma stores_bytes:
  "stores m ws = for_each (\<lambda>m (a, bs). store_bytes m a bs) m (map (\<lambda>(a, w). (a, to_le 8 w)) ws)"
  unfolding stores_def for_each_map by (simp add: store_def case_prod_unfold)

lemma stores_total:
  assumes "\<And>a w. (a, w) \<in> set ws \<Longrightarrow> in_mem m a 8"
  shows "\<exists>m'. stores m ws = Inr m'"
  unfolding stores_bytes by (rule gm.writes_total) (use assms in auto)

lemma stores_wf: "mem_wf m \<Longrightarrow> stores m ws = Inr m' \<Longrightarrow> mem_wf m'"
  unfolding stores_bytes by (rule gm.writes_wf)

lemma stores_in_mem: "stores m ws = Inr m' \<Longrightarrow> in_mem m' a n = in_mem m a n"
  unfolding stores_bytes by (rule gm.writes_valid)

lemma stores_base:
  "stores m ws = Inr m' \<Longrightarrow> mem_base m' = mem_base m \<and> mem_size m' = mem_size m"
  unfolding stores_def
  by (induction ws arbitrary: m) (auto simp: and_then_eq_Inr dest: store_base split: prod.splits)

lemma stores_apart:
  assumes "mem_wf m" and "stores m ws = Inr m'" and "\<And>a w. (a, w) \<in> set ws \<Longrightarrow> apart a 8 b n"
  shows "load_bytes m' b n = load_bytes m b n"
  by (rule gm.writes_apart [OF assms(1) assms(2) [unfolded stores_bytes]]) (use assms(3) in auto)

lemma stores_read:
  assumes "mem_wf m" and "stores m (xs @ (b, w) # ys) = Inr m'"
    and "\<And>a v. (a, v) \<in> set ys \<Longrightarrow> apart a 8 b 8"
  shows "load m' b = Inr w"
proof -
  have "load_bytes m' b (length (to_le 8 w)) = Inr (to_le 8 w)"
    by (rule gm.writes_read [OF assms(1), of "map (\<lambda>(a, w). (a, to_le 8 w)) xs" _ _
        "map (\<lambda>(a, w). (a, to_le 8 w)) ys"]) (use assms(2,3) in \<open>auto simp: stores_bytes\<close>)
  then show ?thesis by (simp add: load_def from_le_to_le)
qed

text \<open>
  Guest-physical address \<open>c\<close> is the host address \<open>mem_base m + c\<close>; inside the mapping this
  addition does not wrap, under either profile.
\<close>

lemma phys_in_mem:
  assumes "mem_wf m" and "unat c + n \<le> unat (mem_size m)"
  shows "unat (mem_base m + c) = unat (mem_base m) + unat c" and "in_mem m (mem_base m + c) n"
proof -
  have "unat (mem_base m) + unat c < 2 ^ 64"
    using assms by (simp add: mem_wf_def)
  then show u: "unat (mem_base m + c) = unat (mem_base m) + unat c"
    by (simp add: unat_word_ariths)
  show "in_mem m (mem_base m + c) n"
    using assms by (simp add: in_mem_def u)
qed

lemma phys_add_oc:
  assumes "mem_wf m" and "unat c < unat (mem_size m)"
  shows "add_oc oc (mem_base m) c = Inr (mem_base m + c)"
    and "add_oc oc c (mem_base m) = Inr (mem_base m + c)"
proof -
  have "unat (mem_base m) + unat c < 2 ^ LENGTH(64)"
    using assms by (simp add: mem_wf_def)
  then show "add_oc oc (mem_base m) c = Inr (mem_base m + c)"
    and "add_oc oc c (mem_base m) = Inr (mem_base m + c)"
    by (simp_all only: add_oc_no_overflow add.commute [of c] add.commute [of "unat c"])
qed

lemma phys_apart:
  assumes "mem_wf m" and "unat c + n \<le> unat (mem_size m)"
    and "unat d + k \<le> unat (mem_size m)"
    and "unat c + n \<le> unat d \<or> unat d + k \<le> unat c"
  shows "apart (mem_base m + c) n (mem_base m + d) k"
  using assms(4) by (auto simp: apart_def phys_in_mem(1) [OF assms(1,2)] phys_in_mem(1) [OF assms(1,3)])

text \<open>
  A sequence of 64-bit stores to ascending guest-physical addresses inside the mapping succeeds,
  every stored value can be read back, and everything below and above is unchanged.
\<close>

lemma phys_stores:
  assumes wf: "mem_wf m"
    and asc: "sorted_wrt (\<lambda>(c, v) (d, w). unat c + 8 \<le> unat d) ws"
    and inside: "\<And>c w. (c, w) \<in> set ws \<Longrightarrow> unat c + 8 \<le> unat (mem_size m)"
  shows "\<exists>m'. stores m (map (\<lambda>(c, w). (mem_base m + c, w)) ws) = Inr m' \<and> mem_wf m' \<and>
    mem_base m' = mem_base m \<and> mem_size m' = mem_size m \<and>
    (\<forall>(c, w) \<in> set ws. load m' (mem_base m + c) = Inr w) \<and>
    (\<forall>b n. (\<forall>(c, w) \<in> set ws. apart (mem_base m + c) 8 b n) \<longrightarrow> load_bytes m' b n = load_bytes m b n)"
proof -
  let ?ws = "map (\<lambda>(c, w). (mem_base m + c, w)) ws"
  obtain m' where m': "stores m ?ws = Inr m'"
    using stores_total [of ?ws m] phys_in_mem(2) [OF wf] inside by fastforce
  have "load m' (mem_base m + c) = Inr w" if cw: "(c, w) \<in> set ws" for c w
  proof -
    obtain xs ys where ws: "ws = xs @ (c, w) # ys"
      using split_list [OF cw] by blast
    have later: "unat c + 8 \<le> unat d" if "(d, v) \<in> set ys" for d v
      using asc that by (auto simp: ws sorted_wrt_append)
    show ?thesis
    proof (rule stores_read [OF wf])
      show "stores m (map (\<lambda>(c, w). (mem_base m + c, w)) xs @
          (mem_base m + c, w) # map (\<lambda>(c, w). (mem_base m + c, w)) ys) = Inr m'"
        using m' by (simp add: ws)
      fix a v assume "(a, v) \<in> set (map (\<lambda>(c, w). (mem_base m + c, w)) ys)"
      then obtain d where d: "(d, v) \<in> set ys" and [simp]: "a = mem_base m + d" by auto
      show "apart a 8 (mem_base m + c) 8"
        using phys_apart [OF wf, of d 8 c 8] inside [OF cw] inside [of d v] d later [OF d]
        by (simp add: ws)
    qed
  qed
  moreover have "load_bytes m' b n = load_bytes m b n"
    if "\<forall>(c, w) \<in> set ws. apart (mem_base m + c) 8 b n" for b n
    by (rule stores_apart [OF wf m']) (use that in auto)
  ultimately show ?thesis
    using m' stores_wf [OF wf m'] stores_base [OF m'] by (intro exI [of _ m']) auto
qed

lemmas store_facts = store_wf store_in_mem store_base

subsection \<open>Structures in memory\<close>

text \<open>Memory \<open>m'\<close> is \<open>m\<close> with changes in the \<open>n\<close> bytes at \<open>a\<close> only.\<close>

definition same_outside :: "u64 \<Rightarrow> nat \<Rightarrow> hmem \<Rightarrow> hmem \<Rightarrow> bool" where
  "same_outside a n m m' \<longleftrightarrow>
     mem_wf m' = mem_wf m \<and> mem_base m' = mem_base m \<and> mem_size m' = mem_size m \<and>
     (\<forall>b k. apart a n b k \<longrightarrow> load_bytes m' b k = load_bytes m b k)"

lemma same_outside_refl [simp]: "same_outside a n m m"
  by (simp add: same_outside_def)

lemma same_outside_trans: "same_outside a n m1 m2 \<Longrightarrow> same_outside a n m2 m3 \<Longrightarrow> same_outside a n m1 m3"
  by (simp add: same_outside_def)

lemma same_outside_mono:
  "same_outside a n m m' \<Longrightarrow> unat b \<le> unat a \<Longrightarrow> unat a + n \<le> unat b + k \<Longrightarrow> same_outside b k m m'"
  by (auto simp: same_outside_def apart_def)

lemma same_outsideD:
  assumes "same_outside a n m m'"
  shows "mem_wf m' = mem_wf m" and "mem_base m' = mem_base m" and "mem_size m' = mem_size m"
    and "in_mem m' b k = in_mem m b k"
    and "apart a n b k \<Longrightarrow> load_bytes m' b k = load_bytes m b k"
  using assms by (auto simp: same_outside_def in_mem_def)

lemma store_bytes_same_outside:
  assumes "mem_wf m" and "store_bytes m a bs = Inr m'"
  shows "same_outside a (length bs) m m'"
  using assms gm.rd_wr_apart [OF assms] gm.wr_wf [OF assms]
  by (auto simp: same_outside_def store_bytes_def split: if_splits)

text \<open>Stores to fields of a structure: offsets from its start, all inside a range of \<open>n\<close> bytes.\<close>

lemma within_apart:
  assumes "mem_wf m" and "in_mem m a n" and "i + k \<le> n" and "j + l \<le> n" and "i + k \<le> j \<or> j + l \<le> i"
  shows "apart (a + of_nat i) k (a + of_nat j) l"
  using assms in_mem_offset [OF assms(1,2), of i] in_mem_offset [OF assms(1,2), of j] by (auto simp: apart_def)

lemma within_in_mem:
  "mem_wf m \<Longrightarrow> in_mem m a n \<Longrightarrow> i + k \<le> n \<Longrightarrow> in_mem m (a + of_nat i) k"
  using in_mem_offset [of m a n i] by (simp add: in_mem_def)

lemma store_within:
  fixes x :: "'w::len word"
  assumes "mem_wf m" and "in_mem m a n" and "i + LENGTH('w) div 8 \<le> n"
  shows "\<exists>m'. store m (a + of_nat i) x = Inr m' \<and> mem_wf m' \<and> in_mem m' a n \<and>
    same_outside (a + of_nat i) (LENGTH('w) div 8) m m' \<and> same_outside a n m m'"
proof -
  obtain m' where m': "store m (a + of_nat i) x = Inr m'"
    using store_ok_iff [of m "a + of_nat i" x] within_in_mem [OF assms] by blast
  have so: "same_outside (a + of_nat i) (LENGTH('w) div 8) m m'"
    using store_bytes_same_outside [OF assms(1) m' [unfolded store_def]] by simp
  have "same_outside a n m m'"
    by (rule same_outside_mono [OF so]) (use in_mem_offset [OF assms(1,2), of i] assms(3) in simp_all)
  with m' so store_wf [OF assms(1) m'] assms(2) show ?thesis
    by (auto simp: same_outsideD(4))
qed

lemma same_outside_load:
  "same_outside a n m m' \<Longrightarrow> apart a n b (LENGTH('w) div 8) \<Longrightarrow> load m' b = (load m b :: 'w::len word res)"
  by (simp add: load_def same_outsideD(5))

text \<open>Overwriting part of a byte range: the rest of the range stays.\<close>

definition splice :: "nat \<Rightarrow> u8 list \<Rightarrow> u8 list \<Rightarrow> u8 list" where
  "splice k bs old = take k old @ bs @ drop (k + length bs) old"

lemma length_splice [simp]: "k + length bs \<le> length old \<Longrightarrow> length (splice k bs old) = length old"
  by (simp add: splice_def)

lemma nth_splice:
  "k + length bs \<le> length old \<Longrightarrow> i < length old \<Longrightarrow>
     splice k bs old ! i = (if k \<le> i \<and> i < k + length bs then bs ! (i - k) else old ! i)"
  by (auto simp: splice_def nth_append min_def)

lemma store_bytes_splice:
  assumes wf: "mem_wf m" and old: "load_bytes m a n = Inr old" and fits: "k + length bs \<le> n"
  shows "\<exists>m'. store_bytes m (a + of_nat k) bs = Inr m' \<and> load_bytes m' a n = Inr (splice k bs old) \<and>
    same_outside a n m m'"
proof -
  have in_a: "in_mem m a n" and old_eq: "old = read_bytes m a n"
    using old by (auto simp: load_bytes_def split: if_splits)
  have k: "k \<le> n" using fits by simp
  have u: "unat (a + of_nat k) = unat a + k" by (rule in_mem_offset [OF wf in_a k])
  have st: "store_bytes m (a + of_nat k) bs = Inr (write_bytes m (a + of_nat k) bs)"
    using in_a fits by (simp add: store_bytes_def in_mem_def u)
  have "read_bytes (write_bytes m (a + of_nat k) bs) a n = splice k bs old"
  proof (rule nth_equalityI)
    fix i assume "i < length (read_bytes (write_bytes m (a + of_nat k) bs) a n)"
    then show "read_bytes (write_bytes m (a + of_nat k) bs) a n ! i = splice k bs old ! i"
      using fits by (auto simp: nth_splice old_eq read_bytes_def write_bytes_def u in_mem_offset [OF wf in_a])
  qed (use fits old_eq in simp)
  then have "load_bytes (write_bytes m (a + of_nat k) bs) a n = Inr (splice k bs old)"
    using in_a by (simp add: load_bytes_def)
  moreover have "same_outside a n m (write_bytes m (a + of_nat k) bs)"
    by (rule same_outside_mono [OF store_bytes_same_outside [OF wf st]]) (use fits in \<open>simp_all add: u\<close>)
  ultimately show ?thesis using st by blast
qed

lemma load_bytes_nth:
  assumes "mem_wf m" and "load_bytes m a n = Inr bs" and "i < n"
  shows "load_bytes m (a + of_nat i) 1 = Inr [bs ! i]"
proof -
  have in_a: "in_mem m a n" and bs: "bs = read_bytes m a n"
    using assms(2) by (auto simp: load_bytes_def split: if_splits)
  have "unat (a + of_nat i) = unat a + i" using assms(1,3) in_a by (simp add: in_mem_offset)
  then show ?thesis
    using in_a assms(3) by (simp add: load_bytes_def in_mem_def bs read_bytes_def)
qed

text \<open>A sequence of writes into one structure.\<close>

definition write_fields :: "hmem \<Rightarrow> u64 \<Rightarrow> (nat \<times> u8 list) list \<Rightarrow> hmem res" where
  "write_fields m a ws = for_each (\<lambda>m (k, bs). store_bytes m (a + of_nat k) bs) m ws"

lemma write_fields_splices:
  assumes "mem_wf m" and "load_bytes m a n = Inr old"
    and "\<And>k bs. (k, bs) \<in> set ws \<Longrightarrow> k + length bs \<le> n"
  shows "\<exists>m'. write_fields m a ws = Inr m' \<and>
    load_bytes m' a n = Inr (fold (\<lambda>(k, bs). splice k bs) ws old) \<and> same_outside a n m m'"
  using assms
proof (induction ws arbitrary: m old)
  case (Cons w ws)
  obtain k bs where w: "w = (k, bs)" by (cases w)
  obtain m1 where m1: "store_bytes m (a + of_nat k) bs = Inr m1"
    and l1: "load_bytes m1 a n = Inr (splice k bs old)" and s1: "same_outside a n m m1"
    using store_bytes_splice [OF Cons.prems(1,2), of k bs] Cons.prems(3) w by auto
  have "mem_wf m1" using same_outsideD(1) [OF s1] Cons.prems(1) by simp
  from Cons.IH [OF this l1] Cons.prems(3) obtain m' where
    "write_fields m1 a ws = Inr m'" "load_bytes m' a n = Inr (fold (\<lambda>(k, bs). splice k bs) ws (splice k bs old))"
    "same_outside a n m1 m'" by auto
  then show ?case using w m1 same_outside_trans [OF s1] by (auto simp: write_fields_def)
qed (simp add: write_fields_def)

lemma write_fields_append: "write_fields m a (xs @ ys) = and_then (write_fields m a xs) (\<lambda>m. write_fields m a ys)"
  by (simp add: write_fields_def for_each_append)

lemma write_fields_Cons:
  "write_fields m a ((k, bs) # ys) = and_then (store_bytes m (a + of_nat k) bs) (\<lambda>m. write_fields m a ys)"
  by (simp add: write_fields_def)

lemma write_fields_Nil [simp]: "write_fields m a [] = Inr m"
  by (simp add: write_fields_def)

text \<open>A field no later write overlaps can be read back.\<close>

lemma write_fields_read:
  assumes wf: "mem_wf m" and in_a: "in_mem m a n"
    and ws: "\<And>k bs. (k, bs) \<in> set (xs @ (k0, bs0) # ys) \<Longrightarrow> k + length bs \<le> n"
    and run: "write_fields m a (xs @ (k0, bs0) # ys) = Inr m'"
    and later: "\<And>k bs. (k, bs) \<in> set ys \<Longrightarrow> k + length bs \<le> k0 \<or> k0 + length bs0 \<le> k"
  shows "load_bytes m' (a + of_nat k0) (length bs0) = Inr bs0"
proof (rule gm.writes_read [OF wf])
  let ?f = "map (\<lambda>(k, bs). (a + of_nat k, bs))"
  show "for_each (\<lambda>m (a, bs). store_bytes m a bs) m (?f xs @ (a + of_nat k0, bs0) # ?f ys) = Inr m'"
  proof -
    have "?f xs @ (a + of_nat k0, bs0) # ?f ys = ?f (xs @ (k0, bs0) # ys)" by simp
    then show ?thesis
      using run unfolding write_fields_def by (simp only: for_each_map) (simp add: case_prod_unfold)
  qed
  fix b bs assume "(b, bs) \<in> set (?f ys)"
  then obtain k where k: "(k, bs) \<in> set ys" and b: "b = a + of_nat k" by auto
  have "unat (a + of_nat k) = unat a + k" "unat (a + of_nat k0) = unat a + k0"
    using ws [of k bs] ws [of k0 bs0] k by (auto intro!: in_mem_offset [OF wf in_a])
  then show "apart b (length bs) (a + of_nat k0) (length bs0)"
    using later [OF k] by (auto simp: b apart_def)
qed

end
