(* ===== verification/Paging.thy ===== *)
theory Paging
  imports Consts GuestMemory
begin

text \<open>
  Page table entries and the two page sizes of \<^verbatim>\<open>src/paging.rs\<close>. An entry is one 64-bit word:
  a physical address with flag bits in the low twelve bits and in bit 63.
\<close>

subsection \<open>Flags and page sizes\<close>

definition PAGE_BITS :: nat where "PAGE_BITS = 12"

definition PAGE_MAP_BITS :: nat where "PAGE_MAP_BITS = 9"

definition PRESENT :: usize where "PRESENT = 1"

definition WRITABLE :: usize where "WRITABLE = push_bit 1 1"

definition USER_ACCESSIBLE :: usize where "USER_ACCESSIBLE = push_bit 2 1"

definition WRITE_THROUGH :: usize where "WRITE_THROUGH = push_bit 3 1"

definition CACHE_DISABLE :: usize where "CACHE_DISABLE = push_bit 4 1"

definition ACCESSED :: usize where "ACCESSED = push_bit 5 1"

definition DIRTY :: usize where "DIRTY = push_bit 6 1"

definition HUGE_PAGE :: usize where "HUGE_PAGE = push_bit 7 1"

definition GLOBAL_PAGE :: usize where "GLOBAL_PAGE = push_bit 8 1"

definition EXECUTE_DISABLE :: usize where "EXECUTE_DISABLE = push_bit 63 1"

definition BLANK :: usize where "BLANK = 0"

definition BasePageSize_SIZE :: usize where "BasePageSize_SIZE = 4096"

definition BasePageSize_MAP_LEVEL :: usize where "BasePageSize_MAP_LEVEL = 0"

definition BasePageSize_MAP_EXTRA_FLAG :: usize where "BasePageSize_MAP_EXTRA_FLAG = BLANK"

definition LargePageSize_SIZE :: usize where "LargePageSize_SIZE = 2 * 1024 * 1024"

definition LargePageSize_MAP_LEVEL :: usize where "LargePageSize_MAP_LEVEL = 1"

definition LargePageSize_MAP_EXTRA_FLAG :: usize where "LargePageSize_MAP_EXTRA_FLAG = HUGE_PAGE"

lemmas flag_defs = PRESENT_def WRITABLE_def USER_ACCESSIBLE_def WRITE_THROUGH_def
  CACHE_DISABLE_def ACCESSED_def DIRTY_def HUGE_PAGE_def GLOBAL_PAGE_def EXECUTE_DISABLE_def BLANK_def

subsection \<open>Operations on an entry\<close>

record PageTableEntry =
  physical_address_and_flags :: usize

definition pte_check_flags :: "PageTableEntry \<Rightarrow> usize \<Rightarrow> bool" where
  "pte_check_flags e flags \<longleftrightarrow> physical_address_and_flags e AND flags = flags"

definition pte_is_present :: "PageTableEntry \<Rightarrow> bool" where
  "pte_is_present e = pte_check_flags e PRESENT"

definition pte_is_hugepage :: "PageTableEntry \<Rightarrow> bool" where
  "pte_is_hugepage e = pte_check_flags e HUGE_PAGE"

definition pte_address :: "PageTableEntry \<Rightarrow> usize" where
  "pte_address e =
     (let msk = (if pte_is_hugepage e then LargePageSize_SIZE - 1 else BasePageSize_SIZE - 1)
      in physical_address_and_flags e AND NOT msk AND NOT EXECUTE_DISABLE)"

definition pte_set :: "PageTableEntry \<Rightarrow> usize \<Rightarrow> usize \<Rightarrow> PageTableEntry res" where
  "pte_set e physical_address flags =
     and_then
       (if flags AND HUGE_PAGE = HUGE_PAGE
        then rust_assert (physical_address mod LargePageSize_SIZE = 0)
        else rust_assert (physical_address mod BasePageSize_SIZE = 0))
       (\<lambda>_. Inr (e\<lparr>physical_address_and_flags := physical_address OR (PRESENT OR flags)\<rparr>))"

definition pte_flags_mask :: usize where
  "pte_flags_mask = (BasePageSize_SIZE - 1) OR EXECUTE_DISABLE"

definition pte_set_flags :: "PageTableEntry \<Rightarrow> usize \<Rightarrow> PageTableEntry" where
  "pte_set_flags e flags =
     (let kept = physical_address_and_flags e AND NOT pte_flags_mask
      in e\<lparr>physical_address_and_flags := kept OR (flags AND pte_flags_mask)\<rparr>)"

definition pte_flags :: "PageTableEntry \<Rightarrow> usize" where
  "pte_flags e = physical_address_and_flags e AND pte_flags_mask"

text \<open>
  A page table in guest memory is 512 entries; writing entry \<open>i\<close> of the table at host address
  \<open>table\<close> is a bounds-checked index into that array, then the entry's own operation.
\<close>

definition table_entries :: nat where "table_entries = 2 ^ PAGE_MAP_BITS"

definition table_set :: "hmem \<Rightarrow> u64 \<Rightarrow> nat \<Rightarrow> usize \<Rightarrow> usize \<Rightarrow> hmem res" where
  "table_set m table i physical_address flags =
     (if i < table_entries then
        and_then (load m (table + 8 * of_nat i)) (\<lambda>raw.
        and_then (pte_set \<lparr>physical_address_and_flags = raw\<rparr> physical_address flags) (\<lambda>e.
        store m (table + 8 * of_nat i) (physical_address_and_flags e)))
      else Inl IndexOutOfBounds)"

subsection \<open>Bits of an entry\<close>

lemma size_masks:
  "LargePageSize_SIZE - 1 = mask 21" "BasePageSize_SIZE - 1 = mask 12"
  by (simp_all add: LargePageSize_SIZE_def BasePageSize_SIZE_def mask_eq_decr_exp)

lemma aligned_iff_take_bit:
  "(pa mod LargePageSize_SIZE = 0) = (take_bit 21 pa = 0)"
  "(pa mod BasePageSize_SIZE = 0) = (take_bit 12 pa = 0)"
  by (simp_all add: LargePageSize_SIZE_def BasePageSize_SIZE_def take_bit_eq_mod)

lemma bit_flags [simp]:
  "bit PRESENT k \<longleftrightarrow> k = 0" "bit ACCESSED k \<longleftrightarrow> k = 5" "bit HUGE_PAGE k \<longleftrightarrow> k = 7"
  "bit EXECUTE_DISABLE k \<longleftrightarrow> k = 63" "bit WRITABLE k \<longleftrightarrow> k = 1"
  by (simp_all only: flag_defs bit_single bit_1_iff) auto

lemma bit_pte_flags_mask: "bit pte_flags_mask k \<longleftrightarrow> k < 12 \<or> k = 63"
  by (auto simp: pte_flags_mask_def size_masks bit_or_iff bit_mask_iff)

lemma pte_is_present_bit: "pte_is_present e = bit (physical_address_and_flags e) 0"
  using and_single_eq_single [of 0 "physical_address_and_flags e"]
  by (simp add: pte_is_present_def pte_check_flags_def PRESENT_def)

lemma contains_huge_bit: "(flags AND HUGE_PAGE = HUGE_PAGE) = bit flags 7"
  unfolding HUGE_PAGE_def by (rule and_single_eq_single) simp

lemma pte_is_hugepage_bit: "pte_is_hugepage e = bit (physical_address_and_flags e) 7"
  by (simp only: pte_is_hugepage_def pte_check_flags_def contains_huge_bit)

lemma check_accessed_bit: "pte_check_flags e ACCESSED = bit (physical_address_and_flags e) 5"
  unfolding pte_check_flags_def ACCESSED_def by (rule and_single_eq_single) simp

lemma bit_pte_address:
  "bit (pte_address e) k \<longleftrightarrow>
     k < 63 \<and> (if bit (physical_address_and_flags e) 7 then 21 else 12) \<le> k
       \<and> bit (physical_address_and_flags e) k"
  by (auto simp: pte_address_def Let_def size_masks pte_is_hugepage_bit bit_and_iff bit_not_iff
      bit_mask_iff dest: bit_imp_le_length split: if_splits)

lemma bit_pte_flags:
  "bit (pte_flags e) k \<longleftrightarrow> (k < 12 \<or> k = 63) \<and> bit (physical_address_and_flags e) k"
  by (auto simp: pte_flags_def bit_pte_flags_mask bit_and_iff)

lemma pte_set_raw:
  assumes "pte_set e pa fl = Inr e'"
  shows "physical_address_and_flags e' = pa OR (PRESENT OR fl)"
    and "bit pa k \<Longrightarrow> 12 \<le> k"
    and "bit pa k \<Longrightarrow> bit fl 7 \<Longrightarrow> 21 \<le> k"
proof -
  have al: "bit fl 7 \<Longrightarrow> take_bit 21 pa = 0" "\<not> bit fl 7 \<Longrightarrow> take_bit 12 pa = 0"
    and raw: "physical_address_and_flags e' = pa OR (PRESENT OR fl)"
    using assms by (auto simp: pte_set_def and_then_eq_Inr rust_assert_eq_Inr
        aligned_iff_take_bit contains_huge_bit split: if_splits)
  show "physical_address_and_flags e' = pa OR (PRESENT OR fl)" by (rule raw)
  show large: "21 \<le> k" if "bit pa k" and "bit fl 7"
    using take_bit_0_bit [OF al(1), of k] that by (cases "k < 21") auto
  show "12 \<le> k" if "bit pa k"
    using take_bit_0_bit [OF al(2), of k] large that by (cases "bit fl 7"; cases "k < 12") auto
qed

subsection \<open>Properties\<close>

text \<open>
  Setting a page table entry and reading it back: whenever the alignment assertions of
  \<^verbatim>\<open>set\<close> hold, the address passes bit 63 by and only flag bits are requested, \<^verbatim>\<open>address\<close>
  returns exactly the address that was set, \<^verbatim>\<open>flags\<close> returns the requested flags with
  \<open>PRESENT\<close> added, and the entry is present.
\<close>

theorem pte_set_roundtrip:
  assumes set: "pte_set e pa fl = Inr e'"
    and flag_bits: "fl AND NOT pte_flags_mask = 0"
    and addr_bits: "pa AND EXECUTE_DISABLE = 0"
  shows "pte_address e' = pa \<and> pte_flags e' = PRESENT OR fl \<and> pte_is_present e'"
proof -
  note raw = pte_set_raw(1) [OF set] and low = pte_set_raw(2,3) [OF set]
  have fl: "bit fl k \<Longrightarrow> k < 12 \<or> k = 63" for k
    using arg_cong [OF flag_bits, of "\<lambda>w. bit w k"] bit_imp_le_length [of fl k]
    by (auto simp: bit_and_iff bit_not_iff bit_pte_flags_mask)
  have hi: "\<not> bit pa 63"
    using addr_bits and_single_eq_0 [of 63 pa] by (simp only: EXECUTE_DISABLE_def) simp
  have b7: "bit (physical_address_and_flags e') 7 = bit fl 7"
    using low(1) [of 7] by (auto simp: raw bit_or_iff)
  have "pte_address e' = pa"
  proof (rule bit_word_eqI)
    fix k assume "k < LENGTH(64)"
    then have "k < 63 \<or> k = 63" by auto
    then show "bit (pte_address e') k = bit pa k"
      using low(1) [of k] low(2) [of k] fl [of k] hi unfolding bit_pte_address b7
      by (auto simp: raw bit_or_iff split: if_splits)
  qed
  moreover have "pte_flags e' = PRESENT OR fl"
  proof (rule bit_word_eqI)
    fix k assume "k < LENGTH(64)"
    then show "bit (pte_flags e') k = bit (PRESENT OR fl) k"
      using low(1) [of k] low(2) [of k] fl [of k] hi by (auto simp: bit_pte_flags raw bit_or_iff)
  qed
  moreover have "pte_is_present e'"
    by (simp add: pte_is_present_bit raw bit_or_iff)
  ultimately show ?thesis by blast
qed

theorem pte_set_roundtrip_witness:
  "pte_address \<lparr>physical_address_and_flags = 0x600083\<rparr> = 0x600000 \<and>
   pte_flags \<lparr>physical_address_and_flags = 0x600083\<rparr> = PRESENT OR 0x82 \<and>
   pte_is_present \<lparr>physical_address_and_flags = 0x600083\<rparr>"
  by (rule pte_set_roundtrip [of "\<lparr>physical_address_and_flags = 0\<rparr>"])
    (simp_all add: pte_set_def flag_defs LargePageSize_SIZE_def BasePageSize_SIZE_def
      rust_assert_def pte_flags_mask_def)

text \<open>
  \<^verbatim>\<open>set\<close> adds the \<open>PRESENT\<close> flag and no other one: an entry set without \<open>ACCESSED\<close> does
  not carry \<open>ACCESSED\<close>, although the comment of \<^verbatim>\<open>set\<close> says that flag is set automatically.
\<close>

theorem pte_set_not_accessed:
  assumes "pte_set e pa fl = Inr e'" and "fl AND ACCESSED = 0"
  shows "\<not> pte_check_flags e' ACCESSED"
proof -
  have "\<not> bit pa 5"
    using pte_set_raw(2) [OF assms(1), of 5] by auto
  moreover have "\<not> bit fl 5"
    using assms(2) and_single_eq_0 [of 5 fl] by (simp only: ACCESSED_def) simp
  ultimately show ?thesis
    by (simp add: check_accessed_bit pte_set_raw(1) [OF assms(1)] bit_or_iff)
qed

theorem pte_set_not_accessed_witness:
  "\<not> pte_check_flags \<lparr>physical_address_and_flags = 0x11003\<rparr> ACCESSED"
  by (rule pte_set_not_accessed [where e = "\<lparr>physical_address_and_flags = 0\<rparr>" and pa = "0x11000" and fl = 3])
    (simp_all add: pte_set_def flag_defs BasePageSize_SIZE_def rust_assert_def)

end
