(* ===== verification/Boot_Tables.thy ===== *)
theory Boot_Tables
  imports Paging
begin

text \<open>
  The boot structures \<^verbatim>\<open>Vm::init_guest_mem\<close> of \<^verbatim>\<open>src/vm.rs\<close> puts into guest memory before the
  kernel starts: a three-entry global descriptor table and page tables that map the first
  gigabyte one to one with 2 MiB pages.
\<close>

subsection \<open>Definitions\<close>

definition create_gdt_entry :: "u64 \<Rightarrow> u64 \<Rightarrow> u64 \<Rightarrow> u64" where
  "create_gdt_entry flags base limit =
     push_bit (56 - 24) (base AND 0xff000000)
     OR push_bit 40 (flags AND 0x0000f0ff)
     OR push_bit (48 - 16) (limit AND 0x000f0000)
     OR push_bit 16 (base AND 0x00ffffff)
     OR (limit AND 0x0000ffff)"

text \<open>The loop over the 512 entries of the page directory.\<close>

definition init_pde :: "bool \<Rightarrow> u64 \<Rightarrow> hmem \<Rightarrow> hmem res" where
  "init_pde oc pde m =
     for_each (\<lambda>m i.
       and_then (mul_oc oc (of_nat i) LargePageSize_SIZE) (\<lambda>pa.
       table_set m pde i pa (PRESENT OR WRITABLE OR HUGE_PAGE))) m [0..<512]"

definition init_guest_mem :: "bool \<Rightarrow> hmem \<Rightarrow> hmem res" where
  "init_guest_mem oc m =
     (let mem_addr = mem_base m in
      and_then (add_oc oc mem_addr BOOT_PML4) (\<lambda>pml4.
      and_then (add_oc oc mem_addr BOOT_PDPTE) (\<lambda>pdpte.
      and_then (add_oc oc mem_addr BOOT_PDE) (\<lambda>pde.
      and_then (add_oc oc mem_addr BOOT_GDT) (\<lambda>gdt_entry.
      and_then (store m gdt_entry (create_gdt_entry 0 0 0)) (\<lambda>m.
      and_then (add_oc oc gdt_entry 8) (\<lambda>code.
      and_then (store m code (create_gdt_entry 0xA09B 0 0xFFFFF)) (\<lambda>m.
      and_then (add_oc oc gdt_entry (2 * 8)) (\<lambda>data.
      and_then (store m data (create_gdt_entry 0xC093 0 0xFFFFF)) (\<lambda>m.
      and_then (table_set m pml4 0 BOOT_PDPTE (PRESENT OR WRITABLE)) (\<lambda>m.
      and_then (table_set m pml4 511 BOOT_PML4 (PRESENT OR WRITABLE)) (\<lambda>m.
      and_then (table_set m pdpte 0 BOOT_PDE (PRESENT OR WRITABLE)) (\<lambda>m.
      init_pde oc pde m)))))))))))))"

text \<open>What the function writes, in order: guest-physical address and value.\<close>

definition pde_entry :: "nat \<Rightarrow> u64" where
  "pde_entry i = (of_nat i * LargePageSize_SIZE) OR (PRESENT OR (PRESENT OR WRITABLE OR HUGE_PAGE))"

definition boot_writes :: "(u64 \<times> u64) list" where
  "boot_writes =
    [(BOOT_GDT, create_gdt_entry 0 0 0),
     (BOOT_GDT + 8, create_gdt_entry 0xA09B 0 0xFFFFF),
     (BOOT_GDT + 16, create_gdt_entry 0xC093 0 0xFFFFF),
     (BOOT_PML4, BOOT_PDPTE OR (PRESENT OR (PRESENT OR WRITABLE))),
     (BOOT_PML4 + 8 * 511, BOOT_PML4 OR (PRESENT OR (PRESENT OR WRITABLE))),
     (BOOT_PDPTE, BOOT_PDE OR (PRESENT OR (PRESENT OR WRITABLE)))]
    @ map (\<lambda>i. (BOOT_PDE + 8 * of_nat i, pde_entry i)) [0..<512]"

subsection \<open>The boot structures as a sequence of writes\<close>

lemma table_set_store:
  assumes "i < 512" and "in_mem m (table + 8 * of_nat i) 8"
    and "take_bit (if bit flags 7 then 21 else 12) pa = 0"
  shows "table_set m table i pa flags = store m (table + 8 * of_nat i) (pa OR (PRESENT OR flags))"
proof -
  obtain raw :: u64 where "load m (table + 8 * of_nat i) = Inr raw"
    using assms(2) load_ok_iff [where 'a = 64, of m "table + 8 * of_nat i"] by auto
  with assms(1,3) show ?thesis
    by (simp add: table_set_def table_entries_def PAGE_MAP_BITS_def pte_set_def
      contains_huge_bit aligned_iff_take_bit rust_assert_def split: if_splits)
qed

text \<open>The entries the function sets, as table, index, address and flags.\<close>

definition boot_entries :: "u64 \<Rightarrow> (u64 \<times> nat \<times> u64 \<times> u64) list" where
  "boot_entries b =
    [(b + BOOT_PML4, 0, BOOT_PDPTE, PRESENT OR WRITABLE),
     (b + BOOT_PML4, 511, BOOT_PML4, PRESENT OR WRITABLE),
     (b + BOOT_PDPTE, 0, BOOT_PDE, PRESENT OR WRITABLE)]
    @ map (\<lambda>i. (b + BOOT_PDE, i, of_nat i * LargePageSize_SIZE, PRESENT OR WRITABLE OR HUGE_PAGE)) [0..<512]"

lemma take_bit_large_multiple: "take_bit 21 (of_nat i * LargePageSize_SIZE) = 0"
proof -
  have "of_nat i * LargePageSize_SIZE = push_bit 21 (of_nat i)"
    by (simp add: LargePageSize_SIZE_def push_bit_eq_mult)
  then show ?thesis by (simp add: take_bit_push_bit)
qed

lemma boot_entries_aligned:
  "(t, i, pa, fl) \<in> set (boot_entries b) \<Longrightarrow>
     i < 512 \<and> take_bit (if bit fl 7 then 21 else 12) pa = 0"
  by (auto simp: boot_entries_def bit_or_iff take_bit_large_multiple uhyve_consts)

lemma large_page_mul_oc:
  assumes "i < 512"
  shows "mul_oc oc (of_nat i) LargePageSize_SIZE = Inr (of_nat i * LargePageSize_SIZE)"
proof -
  have "unat (of_nat i :: u64) = i"
    using assms by (simp add: unat_of_nat_less)
  with assms show ?thesis
    by (simp add: mul_oc_def LargePageSize_SIZE_def)
qed

lemma init_pde_sets:
  "init_pde oc pde m =
     for_each (\<lambda>m (t, i, pa, fl). table_set m t i pa fl) m
       (map (\<lambda>i. (pde, i, of_nat i * LargePageSize_SIZE, PRESENT OR WRITABLE OR HUGE_PAGE)) [0..<512])"
  unfolding init_pde_def for_each_map
  by (rule for_each_cong_invariant [where I = "\<lambda>_. True"]) (auto simp: large_page_mul_oc)

lemma boot_entries_stores:
  assumes "\<And>t i pa fl. (t, i, pa, fl) \<in> set (boot_entries b) \<Longrightarrow> in_mem m (t + 8 * of_nat i) 8"
  shows "for_each (\<lambda>m (t, i, pa, fl). table_set m t i pa fl) m (boot_entries b) =
    stores m (map (\<lambda>(t, i, pa, fl). (t + 8 * of_nat i, pa OR (PRESENT OR fl))) (boot_entries b))"
  unfolding stores_def for_each_map
proof (rule for_each_cong_invariant [where I = "\<lambda>m'. in_mem m' = in_mem m"])
  fix m' :: hmem and x :: "u64 \<times> nat \<times> u64 \<times> u64"
  assume x: "x \<in> set (boot_entries b)" and inv: "in_mem m' = in_mem m"
  obtain t i pa fl where [simp]: "x = (t, i, pa, fl)" by (cases x) auto
  show "(case x of (t, i, pa, fl) \<Rightarrow> table_set m' t i pa fl) =
      (case (case x of (t, i, pa, fl) \<Rightarrow> (t + 8 * of_nat i, pa OR (PRESENT OR fl))) of
        (a, w) \<Rightarrow> store m' a w)"
    using boot_entries_aligned [of t i pa fl b] assms x by (simp add: table_set_store inv)
qed (auto simp: fun_eq_iff store_in_mem split: prod.splits)

lemma boot_writes_eq:
  "map (\<lambda>(c, w). (b + c, w)) boot_writes =
     [(b + BOOT_GDT, create_gdt_entry 0 0 0),
      (b + BOOT_GDT + 8, create_gdt_entry 0xA09B 0 0xFFFFF),
      (b + BOOT_GDT + 16, create_gdt_entry 0xC093 0 0xFFFFF)] @
     map (\<lambda>(t, i, pa, fl). (t + 8 * of_nat i, pa OR (PRESENT OR fl))) (boot_entries b)"
  by (simp add: boot_writes_def boot_entries_def pde_entry_def add.assoc)

lemma init_guest_mem_stages:
  assumes "mem_wf m" and "0x13000 \<le> unat (mem_size m)"
  shows "init_guest_mem oc m =
    and_then (stores m [(mem_base m + BOOT_GDT, create_gdt_entry 0 0 0),
        (mem_base m + BOOT_GDT + 8, create_gdt_entry 0xA09B 0 0xFFFFF),
        (mem_base m + BOOT_GDT + 16, create_gdt_entry 0xC093 0 0xFFFFF)])
      (\<lambda>m'. for_each (\<lambda>m (t, i, pa, fl). table_set m t i pa fl) m' (boot_entries (mem_base m)))"
proof -
  note add = phys_add_oc(1) [OF assms(1)]
  have "add_oc oc (mem_base m + BOOT_GDT) 8 = Inr (mem_base m + BOOT_GDT + 8)"
    and "add_oc oc (mem_base m + BOOT_GDT) (2 * 8) = Inr (mem_base m + BOOT_GDT + 16)"
    using add [of "BOOT_GDT" oc] add [of "BOOT_GDT + 8" oc] add [of "BOOT_GDT + 16" oc] assms
      phys_in_mem(1) [OF assms(1), of BOOT_GDT 24]
    by (simp_all add: add_oc_def mem_wf_def uhyve_consts)
  moreover have "add_oc oc (mem_base m) c = Inr (mem_base m + c)"
    if "c \<in> {BOOT_PML4, BOOT_PDPTE, BOOT_PDE, BOOT_GDT}" for c
    using add [of c oc] that assms(2) by (auto simp: uhyve_consts)
  ultimately show ?thesis
    by (simp add: init_guest_mem_def Let_def stores_def boot_entries_def and_then_assoc
        for_each_append init_pde_sets)
qed

lemma unat_pde_offset: "i < 512 \<Longrightarrow> unat (BOOT_PDE + 8 * of_nat i) = 0x12000 + 8 * i"
proof -
  assume i: "i < 512"
  then have "unat (of_nat i :: u64) = i" by (simp add: unat_of_nat_less)
  then show "unat (BOOT_PDE + 8 * of_nat i) = 0x12000 + 8 * i"
    using i by (simp add: uhyve_consts unat_word_ariths)
qed

lemma boot_writes_ascending: "sorted_wrt (\<lambda>(c, v) (d, w). unat c + 8 \<le> unat d) boot_writes"
proof -
  have "sorted_wrt (\<lambda>(c, v) (d, w). unat c + 8 \<le> unat d)
      (map (\<lambda>i. (BOOT_PDE + 8 * of_nat i, pde_entry i)) [0..<512])"
    unfolding sorted_wrt_map
    by (rule sorted_wrt_mono_rel [OF _ sorted_wrt_upt]) (auto simp: unat_pde_offset)
  then show ?thesis
    by (auto simp: boot_writes_def unat_pde_offset) (auto simp: uhyve_consts)
qed

lemma boot_writes_inside: "(c, w) \<in> set boot_writes \<Longrightarrow> 0x1000 \<le> unat c \<and> unat c + 8 \<le> 0x13000"
  by (auto simp: boot_writes_def unat_pde_offset) (auto simp: uhyve_consts)

lemma init_guest_mem_stores:
  assumes wf: "mem_wf m" and size: "0x13000 \<le> unat (mem_size m)"
  shows "init_guest_mem oc m = stores m (map (\<lambda>(c, w). (mem_base m + c, w)) boot_writes)"
proof -
  let ?b = "mem_base m"
  have inside: "in_mem m (t + 8 * of_nat i) 8" if "(t, i, pa, fl) \<in> set (boot_entries ?b)" for t i pa fl
  proof -
    have "(t + 8 * of_nat i, pa OR (PRESENT OR fl)) \<in> set (map (\<lambda>(c, w). (?b + c, w)) boot_writes)"
      unfolding boot_writes_eq using that by force
    then obtain c w where "(c, w) \<in> set boot_writes" and "t + 8 * of_nat i = ?b + c" by auto
    then show ?thesis
      using boot_writes_inside [of c w] phys_in_mem(2) [OF wf, of c 8] size by simp
  qed
  have "for_each (\<lambda>m (t, i, pa, fl). table_set m t i pa fl) m' (boot_entries ?b) =
      stores m' (map (\<lambda>(t, i, pa, fl). (t + 8 * of_nat i, pa OR (PRESENT OR fl))) (boot_entries ?b))"
    if "stores m ws = Inr m'" for m' ws
    by (rule boot_entries_stores) (use inside that in \<open>auto simp: stores_in_mem\<close>)
  then have "init_guest_mem oc m = and_then (stores m (take 3 (map (\<lambda>(c, w). (?b + c, w)) boot_writes)))
      (\<lambda>m'. stores m' (drop 3 (map (\<lambda>(c, w). (?b + c, w)) boot_writes)))"
    unfolding init_guest_mem_stages [OF wf size] boot_writes_eq
    by (intro and_then_cong) (simp_all add: numeral_3_eq_3)
  also have "\<dots> = stores m (map (\<lambda>(c, w). (?b + c, w)) boot_writes)"
    by (simp only: stores_def for_each_append [symmetric] append_take_drop_id)
  finally show ?thesis .
qed

subsection \<open>What the guest finds in memory\<close>

definition boot_memory :: "hmem \<Rightarrow> hmem \<Rightarrow> bool" where
  "boot_memory m m' \<longleftrightarrow>
    mem_wf m' \<and> mem_base m' = mem_base m \<and> mem_size m' = mem_size m \<and>
    load m' (mem_base m + BOOT_GDT) = Inr (create_gdt_entry 0 0 0) \<and>
    load m' (mem_base m + BOOT_GDT + 8) = Inr (create_gdt_entry 0xA09B 0 0xFFFFF) \<and>
    load m' (mem_base m + BOOT_GDT + 16) = Inr (create_gdt_entry 0xC093 0 0xFFFFF) \<and>
    load m' (mem_base m + BOOT_PML4) = Inr (BOOT_PDPTE OR PRESENT OR WRITABLE) \<and>
    load m' (mem_base m + BOOT_PML4 + 8 * 511) = Inr (BOOT_PML4 OR PRESENT OR WRITABLE) \<and>
    load m' (mem_base m + BOOT_PDPTE) = Inr (BOOT_PDE OR PRESENT OR WRITABLE) \<and>
    (\<forall>i < 512. load m' (mem_base m + BOOT_PDE + 8 * of_nat i) =
       Inr (of_nat i * LargePageSize_SIZE OR PRESENT OR WRITABLE OR HUGE_PAGE)) \<and>
    (\<forall>c n. 0 < n \<longrightarrow> c + n \<le> unat (mem_size m) \<longrightarrow> c + n \<le> 0x1000 \<or> 0x13000 \<le> c \<longrightarrow>
       load_bytes m' (mem_base m + of_nat c) n = load_bytes m (mem_base m + of_nat c) n)"

lemma init_guest_mem_boot_memory:
  assumes "mem_wf m" and "0x13000 \<le> unat (mem_size m)"
  shows "\<exists>m'. init_guest_mem oc m = Inr m' \<and> boot_memory m m'"
proof -
  obtain m' where init: "init_guest_mem oc m = Inr m'"
    and maps: "mem_wf m'" "mem_base m' = mem_base m" "mem_size m' = mem_size m"
    and all: "\<And>c w. (c, w) \<in> set boot_writes \<Longrightarrow> load m' (mem_base m + c) = Inr w"
    and frame: "\<And>b n. (\<forall>(c, w) \<in> set boot_writes. apart (mem_base m + c) 8 b n) \<Longrightarrow>
      load_bytes m' b n = load_bytes m b n"
    using phys_stores [OF assms(1) boot_writes_ascending] boot_writes_inside assms(2)
    unfolding init_guest_mem_stores [OF assms] by force
  have "load_bytes m' (mem_base m + of_nat c) n = load_bytes m (mem_base m + of_nat c) n"
    if "0 < n" and "c + n \<le> unat (mem_size m)" and "c + n \<le> 0x1000 \<or> 0x13000 \<le> c" for c n
  proof (rule frame, clarify)
    fix d w assume d: "(d, w) \<in> set boot_writes"
    have "c < 2 ^ 64" using that assms(1) unsigned_less [of "mem_size m", where 'a = nat] by simp
    then have "unat (of_nat c :: u64) = c" by (simp add: unat_of_nat_less)
    then show "apart (mem_base m + d) 8 (mem_base m + of_nat c) n"
      using boot_writes_inside [OF d] that assms(2)
      by (intro phys_apart [OF assms(1)]) auto
  qed
  moreover have "load m' (mem_base m + (BOOT_PDE + 8 * of_nat i)) =
       Inr (of_nat i * LargePageSize_SIZE OR PRESENT OR WRITABLE OR HUGE_PAGE)" if "i < 512" for i
    using all [of "BOOT_PDE + 8 * of_nat i" "pde_entry i"] that
    by (simp add: boot_writes_def pde_entry_def or.assoc or.left_commute)
  ultimately show ?thesis
    using init maps all [of BOOT_GDT] all [of "BOOT_GDT + 8"] all [of "BOOT_GDT + 16"] all [of BOOT_PML4]
      all [of "BOOT_PML4 + 8 * 511"] all [of BOOT_PDPTE]
    by (intro exI [of _ m']) (simp add: boot_memory_def boot_writes_def add.assoc)
qed



subsection \<open>Segment descriptors\<close>

text \<open>The fields of a segment descriptor, where the processor reads them.\<close>

definition gdt_limit :: "u64 \<Rightarrow> u64" where
  "gdt_limit d = take_bit 16 d OR push_bit 16 (take_bit 4 (drop_bit 48 d))"

definition gdt_base :: "u64 \<Rightarrow> u64" where
  "gdt_base d = take_bit 24 (drop_bit 16 d) OR push_bit 24 (take_bit 8 (drop_bit 56 d))"

definition gdt_flags :: "u64 \<Rightarrow> u64" where
  "gdt_flags d = take_bit 8 (drop_bit 40 d) OR push_bit 12 (take_bit 4 (drop_bit 52 d))"

lemma gdt_masks:
  "(0xff000000 :: u64) = push_bit 24 (mask 8)" "(0x0000f0ff :: u64) = mask 8 OR push_bit 12 (mask 4)"
  "(0x000f0000 :: u64) = push_bit 16 (mask 4)" "(0x00ffffff :: u64) = mask 24"
  "(0x0000ffff :: u64) = mask 16"
  by (simp_all add: mask_eq_decr_exp)

lemma bit_gdt_masks:
  "bit (0xff000000 :: u64) k \<longleftrightarrow> 24 \<le> k \<and> k < 32"
  "bit (0x0000f0ff :: u64) k \<longleftrightarrow> k < 8 \<or> 12 \<le> k \<and> k < 16"
  "bit (0x000f0000 :: u64) k \<longleftrightarrow> 16 \<le> k \<and> k < 20"
  "bit (0x00ffffff :: u64) k \<longleftrightarrow> k < 24"
  "bit (0x0000ffff :: u64) k \<longleftrightarrow> k < 16"
  unfolding gdt_masks
  by (auto simp only: bit_or_iff bit_push_bit_iff bit_mask_iff possible_bit_word) simp_all

lemma bit_create_gdt_entry:
  "bit (create_gdt_entry f b l) k \<longleftrightarrow> k < 64 \<and>
     (k < 16 \<and> bit l k \<or> 16 \<le> k \<and> k < 40 \<and> bit b (k - 16) \<or> 40 \<le> k \<and> k < 48 \<and> bit f (k - 40)
      \<or> 48 \<le> k \<and> k < 52 \<and> bit l (k - 32) \<or> 52 \<le> k \<and> k < 56 \<and> bit f (k - 40)
      \<or> 56 \<le> k \<and> bit b (k - 32))"
proof -
  have split: "bit (create_gdt_entry f b l) k \<longleftrightarrow> k < 64 \<and>
     (32 \<le> k \<and> (24 \<le> k - 32 \<and> k - 32 < 32) \<and> bit b (k - 32)
      \<or> 40 \<le> k \<and> (k - 40 < 8 \<or> 12 \<le> k - 40 \<and> k - 40 < 16) \<and> bit f (k - 40)
      \<or> 32 \<le> k \<and> (16 \<le> k - 32 \<and> k - 32 < 20) \<and> bit l (k - 32)
      \<or> 16 \<le> k \<and> k - 16 < 24 \<and> bit b (k - 16)
      \<or> k < 16 \<and> bit l k)"
    unfolding create_gdt_entry_def bit_or_iff bit_push_bit_iff bit_and_iff bit_gdt_masks
    by auto
  consider "k < 16" | "16 \<le> k" "k < 40" | "40 \<le> k" "k < 48" | "48 \<le> k" "k < 52" | "52 \<le> k" "k < 56"
    | "56 \<le> k" "k < 64" | "64 \<le> k" by linarith
  then show ?thesis unfolding split by cases (simp_all add: less_diff_conv2 le_diff_conv2, auto)
qed

text \<open>
  A descriptor made by \<^verbatim>\<open>create_gdt_entry\<close> holds what it was made from: for a 32-bit base,
  a 20-bit limit and flags in the access byte and the upper nibble, the processor's view of the
  descriptor gives back base, limit and flags.
\<close>

theorem create_gdt_entry_fields:
  assumes "take_bit 32 base = base" and "take_bit 20 limit = limit" and "flags AND 0xf0ff = flags"
  shows "gdt_base (create_gdt_entry flags base limit) = base \<and>
    gdt_limit (create_gdt_entry flags base limit) = limit \<and>
    gdt_flags (create_gdt_entry flags base limit) = flags"
proof (intro conjI)
  have b: "bit base k \<Longrightarrow> k < 32" for k
    using arg_cong [OF assms(1), of "\<lambda>w. bit w k"] by (simp add: bit_take_bit_iff)
  have l: "bit limit k \<Longrightarrow> k < 20" for k
    using arg_cong [OF assms(2), of "\<lambda>w. bit w k"] by (simp add: bit_take_bit_iff)
  have f: "bit flags k \<Longrightarrow> k < 8 \<or> 12 \<le> k \<and> k < 16" for k
    using arg_cong [OF assms(3), of "\<lambda>w. bit w k"] by (auto simp only: bit_and_iff bit_gdt_masks)
  note bits = bit_or_iff bit_take_bit_iff bit_drop_bit_eq bit_push_bit_iff bit_create_gdt_entry
  show "gdt_base (create_gdt_entry flags base limit) = base"
  proof (rule bit_word_eqI)
    fix k assume "k < LENGTH(64)"
    then consider "k < 24" | "24 \<le> k" "k < 32" | "32 \<le> k" "k < 64" by fastforce
    then show "bit (gdt_base (create_gdt_entry flags base limit)) k = bit base k"
      using b [of k] by cases (auto simp: gdt_base_def bits)
  qed
  show "gdt_limit (create_gdt_entry flags base limit) = limit"
  proof (rule bit_word_eqI)
    fix k assume "k < LENGTH(64)"
    then consider "k < 16" | "16 \<le> k" "k < 20" | "20 \<le> k" "k < 64" by fastforce
    then show "bit (gdt_limit (create_gdt_entry flags base limit)) k = bit limit k"
      using l [of k] by cases (auto simp: gdt_limit_def bits)
  qed
  show "gdt_flags (create_gdt_entry flags base limit) = flags"
  proof (rule bit_word_eqI)
    fix k assume "k < LENGTH(64)"
    then consider "k < 8" | "8 \<le> k" "k < 12" | "12 \<le> k" "k < 16" | "16 \<le> k" "k < 64" by fastforce
    then show "bit (gdt_flags (create_gdt_entry flags base limit)) k = bit flags k"
      using f [of k] by cases (auto simp: gdt_flags_def bits)
  qed
qed

theorem create_gdt_entry_fields_witness:
  "gdt_base (create_gdt_entry 0xA09B 0 0xFFFFF) = 0 \<and>
   gdt_limit (create_gdt_entry 0xA09B 0 0xFFFFF) = 0xFFFFF \<and>
   gdt_flags (create_gdt_entry 0xA09B 0 0xFFFFF) = 0xA09B"
  by (rule create_gdt_entry_fields) simp_all

end
