(* ===== verification/Translation.thy ===== *)
theory Translation
  imports Boot_Tables
begin

text \<open>
  Address translation by the hypervisor: \<^verbatim>\<open>host_address\<close> and \<^verbatim>\<open>virt_to_phys\<close> of
  \<^verbatim>\<open>src/linux/vcpu.rs\<close>, which walk the guest's page tables in software, compared with the walk the
  processor does.
\<close>

subsection \<open>The code\<close>

definition host_address :: "bool \<Rightarrow> usize \<Rightarrow> usize \<Rightarrow> usize res" where
  "host_address oc vm_start addr = add_oc oc addr vm_start"

text \<open>
  The loop of \<^verbatim>\<open>virt_to_phys\<close> with its remaining rounds and its variables \<^verbatim>\<open>page_table\<close>,
  \<^verbatim>\<open>page_bits\<close> and \<^verbatim>\<open>entry\<close>.
\<close>

fun walk_tables :: "bool \<Rightarrow> usize \<Rightarrow> hmem \<Rightarrow> usize \<Rightarrow> nat \<Rightarrow> usize \<Rightarrow> nat \<Rightarrow> usize \<Rightarrow> usize res" where
  "walk_tables oc vm_start m addr 0 page_table page_bits entry =
     Inr ((entry AND push_bit PAGE_BITS (NOT 0)) OR (addr AND NOT (push_bit PAGE_BITS (NOT 0))))"
| "walk_tables oc vm_start m addr (Suc i) page_table page_bits entry =
     (let index = drop_bit page_bits addr AND (2 ^ PAGE_MAP_BITS - 1) in
      and_then (load m (page_table + 8 * index)) (\<lambda>raw.
      let entry = raw AND NOT EXECUTE_DISABLE in
      if entry AND HUGE_PAGE \<noteq> 0 then
        Inr ((entry AND push_bit page_bits (NOT 0)) OR (addr AND NOT (push_bit page_bits (NOT 0))))
      else
        and_then (host_address oc vm_start (entry AND NOT (2 ^ PAGE_BITS - 1))) (\<lambda>page_table.
        walk_tables oc vm_start m addr i page_table (page_bits - PAGE_MAP_BITS) entry)))"

definition virt_to_phys :: "bool \<Rightarrow> usize \<Rightarrow> hmem \<Rightarrow> usize \<Rightarrow> usize res" where
  "virt_to_phys oc vm_start m addr =
     and_then (host_address oc vm_start BOOT_PML4) (\<lambda>page_table.
     walk_tables oc vm_start m addr 4 page_table 39 0)"

lemma host_address_in_mem:
  assumes "in_mem m (mem_base m + p) n"
  shows "host_address oc (mem_base m) p = Inr (mem_base m + p)"
proof -
  have "mem_base m \<le> mem_base m + p" using assms by (simp add: in_mem_def word_le_nat_alt)
  then have "unat p + unat (mem_base m) < 2 ^ LENGTH(64)" by (simp only: no_olen_add_nat add.commute [of "unat p"])
  then show ?thesis unfolding host_address_def by (simp only: add_oc_no_overflow add.commute [of p])
qed

subsection \<open>The processor's walk\<close>

text \<open>
  Four-level translation as the processor does it, over guest-physical addresses: level 3 is the
  root table, level 0 the last one. A non-present entry or a page size bit in the root gives no
  translation. Entries whose bits 52 to 62 (left to software and protection keys) are in use are
  outside this specification, and so are tables outside guest memory.
\<close>

definition page_frame :: "nat \<Rightarrow> u64 \<Rightarrow> u64" where
  "page_frame n e = push_bit n (drop_bit n (take_bit 52 e))"

definition plain_entry :: "u64 \<Rightarrow> bool" where
  "plain_entry e \<longleftrightarrow> take_bit 11 (drop_bit 52 e) = 0"

definition phys_entry :: "hmem \<Rightarrow> u64 \<Rightarrow> u64 option" where
  "phys_entry m c =
     (if unat c + 8 \<le> unat (mem_size m) then
        case load m (mem_base m + c) of Inr e \<Rightarrow> Some e | Inl _ \<Rightarrow> None
      else None)"

fun mmu_walk :: "hmem \<Rightarrow> u64 \<Rightarrow> nat \<Rightarrow> u64 \<Rightarrow> u64 option" where
  "mmu_walk m va l table =
     (case phys_entry m (table + 8 * take_bit 9 (drop_bit (12 + 9 * l) va)) of
        None \<Rightarrow> None
      | Some e \<Rightarrow>
          if \<not> bit e 0 \<or> \<not> plain_entry e then None
          else if l = 0 then Some (page_frame 12 e OR take_bit 12 va)
          else if bit e 7 then
            (if l \<le> 2 then Some (page_frame (12 + 9 * l) e OR take_bit (12 + 9 * l) va) else None)
          else mmu_walk m va (l - 1) (page_frame 12 e))"

declare mmu_walk.simps [simp del]

subsection \<open>Bits of the walk\<close>

lemma bit_page_frame: "bit (page_frame n e) k \<longleftrightarrow> n \<le> k \<and> k < 52 \<and> bit e k"
  by (auto simp: page_frame_def bit_push_bit_iff bit_drop_bit_eq bit_take_bit_iff dest: bit_imp_le_length)

lemma plain_entry_bit: "plain_entry e \<Longrightarrow> 52 \<le> k \<Longrightarrow> k < 63 \<Longrightarrow> \<not> bit e k"
  using take_bit_0_bit [of 11 "drop_bit 52 e" "k - 52"]
  by (auto simp: plain_entry_def bit_drop_bit_eq)

lemma bit_high_mask: "bit (push_bit n (NOT 0) :: u64) k \<longleftrightarrow> n \<le> k \<and> k < 64"
  by (auto simp: bit_push_bit_iff bit_not_iff bit_mask_iff)

lemma page_part:
  assumes "plain_entry e" and "n < 52"
  shows "(e AND NOT EXECUTE_DISABLE) AND push_bit n (NOT 0) = page_frame n e"
proof (rule bit_word_eqI)
  fix k assume "k < LENGTH(64)"
  then consider "k < 52" | "52 \<le> k" "k < 63" | "k = 63" by fastforce
  then show "bit ((e AND NOT EXECUTE_DISABLE) AND push_bit n (NOT 0)) k = bit (page_frame n e) k"
    using plain_entry_bit [OF assms(1), of k]
    by cases (auto simp only: bit_page_frame bit_high_mask bit_and_iff bit_not_iff bit_flags; simp)+
qed

lemma offset_part: "n < 64 \<Longrightarrow> va AND NOT (push_bit n (NOT 0)) = take_bit n (va :: u64)"
  by (rule bit_word_eqI) (auto simp only: bit_high_mask bit_and_iff bit_not_iff bit_take_bit_iff; simp)

lemma table_part:
  assumes "plain_entry e"
  shows "(e AND NOT EXECUTE_DISABLE) AND NOT (2 ^ PAGE_BITS - 1) = page_frame 12 e"
proof -
  have "(2 :: u64) ^ PAGE_BITS - 1 = mask 12"
    by (simp add: PAGE_BITS_def mask_eq_decr_exp)
  moreover have "NOT (mask 12 :: u64) = push_bit 12 (NOT 0)"
    by (rule bit_word_eqI) (auto simp only: bit_high_mask bit_not_iff bit_mask_iff; simp)
  ultimately show ?thesis using page_part [OF assms, of 12] by simp
qed

lemma index_part: "drop_bit n va AND (2 ^ PAGE_MAP_BITS - 1) = take_bit 9 (drop_bit n (va :: u64))"
  by (simp add: PAGE_MAP_BITS_def take_bit_eq_mask mask_eq_decr_exp)

lemma huge_part: "(e AND NOT EXECUTE_DISABLE) AND HUGE_PAGE \<noteq> 0 \<longleftrightarrow> bit e 7"
  using and_single_eq_0 [of 7 "e AND NOT EXECUTE_DISABLE"]
  by (simp only: HUGE_PAGE_def) (simp add: bit_and_iff bit_not_iff)


lemma page_frame_less: "unat (page_frame n e) < 2 ^ 52"
proof -
  have "page_frame n e = take_bit 52 (page_frame n e)"
    by (rule bit_word_eqI) (auto simp: bit_take_bit_iff bit_page_frame)
  then have "unat (page_frame n e) = take_bit 52 (unat (page_frame n e))"
    by (simp only: unsigned_take_bit_eq [symmetric])
  then show ?thesis using take_bit_nat_less_exp [of 52 "unat (page_frame n e)"] by simp
qed

lemma phys_entry_SomeD: "phys_entry m c = Some e \<Longrightarrow> load m (mem_base m + c) = Inr e"
  by (auto simp: phys_entry_def split: if_splits sum.splits)

lemma host_address_frame:
  assumes "unat vm_start + 2 ^ 52 \<le> 2 ^ 64"
  shows "host_address oc vm_start (page_frame n e) = Inr (vm_start + page_frame n e)"
proof -
  have "unat (page_frame n e) + unat vm_start < 2 ^ LENGTH(64)"
    using assms page_frame_less [of n e] by simp
  then show ?thesis
    unfolding host_address_def by (simp only: add_oc_no_overflow add.commute [of vm_start])
qed

subsection \<open>The software walk refines the processor's\<close>

lemma walk_tables_mmu:
  assumes "unat (mem_base m) + 2 ^ 52 \<le> 2 ^ 64" and "l \<le> 3" and "mmu_walk m va l table = Some pa"
  shows "walk_tables oc (mem_base m) m va (Suc l) (mem_base m + table) (12 + 9 * l) e0 = Inr pa"
  using assms(2,3)
proof (induction l arbitrary: table e0)
  case 0
  then obtain e where e: "phys_entry m (table + 8 * take_bit 9 (drop_bit 12 va)) = Some e"
    and plain: "plain_entry e" and pa: "pa = page_frame 12 e OR take_bit 12 va"
    by (auto simp: mmu_walk.simps [of m va 0] split: option.splits if_splits)
  have load: "load m (mem_base m + table + 8 * take_bit 9 (drop_bit (12 + 9 * 0) va)) = Inr e"
    using phys_entry_SomeD [OF e] by (simp add: add.assoc)
  show ?case
    unfolding walk_tables.simps Let_def index_part load and_then.simps huge_part table_part [OF plain]
      host_address_frame [OF assms(1)]
    by (simp only: PAGE_BITS_def page_part [OF plain] offset_part pa) simp
next
  case (Suc l)
  then obtain e where e: "phys_entry m (table + 8 * take_bit 9 (drop_bit (12 + 9 * Suc l) va)) = Some e"
    and plain: "plain_entry e"
    and pa: "if bit e 7 then pa = page_frame (12 + 9 * Suc l) e OR take_bit (12 + 9 * Suc l) va
      else mmu_walk m va l (page_frame 12 e) = Some pa"
    by (auto simp: mmu_walk.simps [of m va "Suc l"] split: option.splits if_splits)
  note load = phys_entry_SomeD [OF e]
  note step = walk_tables.simps(2) [of oc "mem_base m" m va "Suc l" "mem_base m + table" "12 + 9 * Suc l" e0]
  have load': "load m (mem_base m + table + 8 * take_bit 9 (drop_bit (12 + 9 * Suc l) va)) = Inr e"
    using load by (simp add: add.assoc)
  show ?case
  proof (cases "bit e 7")
    case True
    have "12 + 9 * Suc l < 52" using Suc.prems by simp
    with True pa show ?thesis
      unfolding step Let_def index_part load' and_then.simps huge_part
      by (simp only: page_part [OF plain] offset_part) simp
  next
    case False
    have "12 + 9 * Suc l - PAGE_MAP_BITS = 12 + 9 * l" by (simp add: PAGE_MAP_BITS_def)
    with False pa Suc.IH [of "page_frame 12 e" "e AND NOT EXECUTE_DISABLE"] Suc.prems show ?thesis
      unfolding step Let_def index_part load' and_then.simps huge_part table_part [OF plain]
        host_address_frame [OF assms(1)]
      by simp
  qed
qed

lemma virt_to_phys_mmu:
  assumes "unat (mem_base m) + 2 ^ 52 \<le> 2 ^ 64" and "mmu_walk m va 3 BOOT_PML4 = Some pa"
  shows "virt_to_phys oc (mem_base m) m va = Inr pa"
proof -
  have "host_address oc (mem_base m) BOOT_PML4 = Inr (mem_base m + BOOT_PML4)"
  proof -
    have "unat BOOT_PML4 + unat (mem_base m) < 2 ^ LENGTH(64)"
      using assms(1) by (simp add: BOOT_PML4_def)
    then show ?thesis
      unfolding host_address_def by (simp only: add_oc_no_overflow add.commute [of "mem_base m"])
  qed
  then show ?thesis
    using walk_tables_mmu [OF assms(1) _ assms(2), of oc 0]
    by (simp add: virt_to_phys_def del: walk_tables.simps)
qed

subsection \<open>The boot tables map the first gigabyte to itself\<close>

lemma boot_memoryD:
  assumes "boot_memory m m'"
  shows "mem_base m' = mem_base m" and "mem_size m' = mem_size m" and "mem_wf m'"
    and "load m' (mem_base m' + BOOT_PML4) = Inr (BOOT_PDPTE OR PRESENT OR WRITABLE)"
    and "load m' (mem_base m' + BOOT_PDPTE) = Inr (BOOT_PDE OR PRESENT OR WRITABLE)"
    and "i < 512 \<Longrightarrow> load m' (mem_base m' + (BOOT_PDE + 8 * of_nat i)) =
       Inr (of_nat i * LargePageSize_SIZE OR PRESENT OR WRITABLE OR HUGE_PAGE)"
proof -
  show *: "mem_base m' = mem_base m" "mem_size m' = mem_size m" "mem_wf m'"
    using assms unfolding boot_memory_def by blast+
  show "load m' (mem_base m' + BOOT_PML4) = Inr (BOOT_PDPTE OR PRESENT OR WRITABLE)"
    "load m' (mem_base m' + BOOT_PDPTE) = Inr (BOOT_PDE OR PRESENT OR WRITABLE)"
    "i < 512 \<Longrightarrow> load m' (mem_base m' + (BOOT_PDE + 8 * of_nat i)) =
       Inr (of_nat i * LargePageSize_SIZE OR PRESENT OR WRITABLE OR HUGE_PAGE)"
    using assms unfolding boot_memory_def * add.assoc by blast+
qed

lemma mmu_walk_step:
  assumes "phys_entry m (table + 8 * take_bit 9 (drop_bit (12 + 9 * l) va)) = Some e"
    and "bit e 0" and "plain_entry e" and "0 < l"
  shows "\<not> bit e 7 \<Longrightarrow> mmu_walk m va l table = mmu_walk m va (l - 1) (page_frame 12 e)"
    and "bit e 7 \<Longrightarrow> l \<le> 2 \<Longrightarrow> mmu_walk m va l table =
      Some (page_frame (12 + 9 * l) e OR take_bit (12 + 9 * l) va)"
  unfolding mmu_walk.simps [of m va l] assms(1) using assms(2-4) by simp_all

lemma table_entry:
  "plain_entry 0x11003" "page_frame 12 0x11003 = BOOT_PDPTE"
  "plain_entry 0x12003" "page_frame 12 0x12003 = BOOT_PDE"
  by (simp_all add: plain_entry_def page_frame_def uhyve_consts)

text \<open>An entry of the page directory, as the processor reads it.\<close>

lemma large_entry:
  assumes "i < 512" and "e = of_nat i * LargePageSize_SIZE OR PRESENT OR WRITABLE OR HUGE_PAGE"
  shows "bit e 0" and "bit e 7" and "plain_entry e" and "page_frame 21 e = push_bit 21 (of_nat i)"
proof -
  have mul: "of_nat i * LargePageSize_SIZE = push_bit 21 (of_nat i)"
    by (simp add: LargePageSize_SIZE_def push_bit_eq_mult)
  have i: "bit (of_nat i :: u64) k \<Longrightarrow> k < 9" for k
  proof -
    have "take_bit 9 (of_nat i :: u64) = of_nat i"
      using assms(1) by (simp add: word_unat_eq_iff unsigned_take_bit_eq unat_of_nat_less take_bit_nat_eq_self)
    then show "bit (of_nat i :: u64) k \<Longrightarrow> k < 9" by (metis bit_take_bit_iff)
  qed
  have bit: "bit e k \<longleftrightarrow> k \<in> {0, 1, 7} \<or> 21 \<le> k \<and> bit (of_nat i :: u64) (k - 21)" for k
    unfolding assms(2) mul using i [of "k - 21"]
    by (auto simp: bit_or_iff bit_push_bit_iff)
  show "bit e 0" "bit e 7" by (simp_all add: bit)
  show "plain_entry e" unfolding plain_entry_def
    by (rule bit_word_eqI) (use i in \<open>fastforce simp: bit_take_bit_iff bit_drop_bit_eq bit\<close>)
  show "page_frame 21 e = push_bit 21 (of_nat i)"
    by (rule bit_word_eqI) (use i in \<open>fastforce simp: bit_page_frame bit bit_push_bit_iff\<close>)
qed

lemma boot_walk:
  assumes boot: "boot_memory m m'" and size: "0x13000 \<le> unat (mem_size m)" and va: "va < 2 ^ 30"
  shows "mmu_walk m' va 3 BOOT_PML4 = Some va"
proof -
  note facts = boot_memoryD [OF boot]
  have "drop_bit 30 va = 0"
    using va by (simp add: word_unat_eq_iff unat_drop_bit_eq drop_bit_eq_div [where 'a = nat] word_less_nat_alt)
  then have small: "drop_bit 39 va = 0" "drop_bit 30 va = 0"
    using drop_bit_drop_bit [of 9 30 va] by simp_all
  define i where "i = unat (drop_bit 21 va)"
  have i: "i < 512"
    using va by (simp add: i_def unat_drop_bit_eq drop_bit_eq_div [where 'a = nat] word_less_nat_alt)
  define e where "e = of_nat i * LargePageSize_SIZE OR PRESENT OR WRITABLE OR HUGE_PAGE"
  have 1: "phys_entry m' BOOT_PML4 = Some 0x11003"
    unfolding phys_entry_def facts(4) using size by (simp add: facts(2) uhyve_consts flag_defs)
  have 2: "phys_entry m' BOOT_PDPTE = Some 0x12003"
    unfolding phys_entry_def facts(5) using size by (simp add: facts(2) uhyve_consts flag_defs)
  have 3: "phys_entry m' (BOOT_PDE + 8 * of_nat i) = Some e"
    unfolding phys_entry_def facts(6) [OF i] using size i by (simp add: facts(2) unat_pde_offset e_def)
  note large = large_entry [OF i e_def]
  have "mmu_walk m' va 3 BOOT_PML4 = mmu_walk m' va 2 BOOT_PDPTE"
    using mmu_walk_step(1) [of m' BOOT_PML4 3 va "0x11003"] 1 small table_entry by simp
  also have "\<dots> = mmu_walk m' va 1 BOOT_PDE"
    using mmu_walk_step(1) [of m' BOOT_PDPTE 2 va "0x12003"] 2 small table_entry by simp
  also have "\<dots> = Some (page_frame 21 e OR take_bit 21 va)"
  proof -
    have "take_bit 9 (drop_bit 21 va) = of_nat i"
      using i by (simp add: word_unat_eq_iff unsigned_take_bit_eq take_bit_nat_eq_self i_def)
    with 3 large show ?thesis
      using mmu_walk_step(2) [of m' BOOT_PDE 1 va e] by simp
  qed
  also have "page_frame 21 e OR take_bit 21 va = va"
    unfolding large(4) i_def
    by (rule bit_word_eqI) (auto simp: bit_or_iff bit_push_bit_iff bit_drop_bit_eq bit_take_bit_iff)
  finally show ?thesis .
qed

text \<open>
  C3. The translation the hypervisor does in software refines the processor's: whenever the
  four-level walk from the boot page table yields a physical address (through tables inside guest
  memory whose entries leave bits 52 to 62 clear), \<^verbatim>\<open>virt_to_phys\<close> returns that address, without
  an overflow panic and without leaving guest memory. The mapping lies below the top of the host
  address space, as every user-space mapping does.
\<close>

theorem virt_to_phys_refines_mmu:
  assumes "unat (mem_base m) + 2 ^ 52 \<le> 2 ^ 64" and "mmu_walk m va 3 BOOT_PML4 = Some pa"
  shows "virt_to_phys oc (mem_base m) m va = Inr pa"
  using assms by (rule virt_to_phys_mmu)

theorem virt_to_phys_refines_mmu_witness:
  "\<exists>m'. init_guest_mem True \<lparr>mem_base = 0x7f0000000000, mem_size = 0x1000000, mem_bytes = (\<lambda>_. 0)\<rparr> = Inr m' \<and>
     mmu_walk m' 0x2345678 3 BOOT_PML4 = Some 0x2345678 \<and>
     virt_to_phys True (mem_base m') m' 0x2345678 = Inr 0x2345678"
proof -
  let ?m = "\<lparr>mem_base = 0x7f0000000000, mem_size = 0x1000000, mem_bytes = (\<lambda>_. 0)\<rparr>"
  obtain m' where m': "init_guest_mem True ?m = Inr m'" and boot: "boot_memory ?m m'"
    using init_guest_mem_boot_memory [of ?m True] by (auto simp: mem_wf_def)
  have walk: "mmu_walk m' 0x2345678 3 BOOT_PML4 = Some 0x2345678"
    by (rule boot_walk [OF boot]) simp_all
  have "virt_to_phys True (mem_base m') m' 0x2345678 = Inr 0x2345678"
    by (rule virt_to_phys_refines_mmu [OF _ walk]) (simp add: boot_memoryD(1) [OF boot])
  with m' walk show ?thesis by blast
qed

text \<open>
  C4. After \<^verbatim>\<open>init_guest_mem\<close> the boot page tables map the first gigabyte to itself, for the
  processor and for the hypervisor: every virtual address below 1 GiB translates to the equal
  physical address.
\<close>

theorem boot_identity_map:
  assumes "mem_wf m" and "0x13000 \<le> unat (mem_size m)" and "unat (mem_base m) + 2 ^ 52 \<le> 2 ^ 64"
    and "va < 2 ^ 30"
  shows "\<exists>m'. init_guest_mem oc m = Inr m' \<and> mmu_walk m' va 3 BOOT_PML4 = Some va \<and>
    virt_to_phys oc (mem_base m) m' va = Inr va"
proof -
  obtain m' where m': "init_guest_mem oc m = Inr m'" and boot: "boot_memory m m'"
    using init_guest_mem_boot_memory [OF assms(1,2)] by blast
  have walk: "mmu_walk m' va 3 BOOT_PML4 = Some va"
    by (rule boot_walk [OF boot assms(2,4)])
  moreover have "virt_to_phys oc (mem_base m) m' va = Inr va"
    using virt_to_phys_mmu [of m' va va oc] walk assms(3) boot_memoryD(1) [OF boot] by simp
  ultimately show ?thesis using m' by blast
qed

theorem boot_identity_map_witness:
  "\<exists>m'. init_guest_mem True \<lparr>mem_base = 0x7f0000000000, mem_size = 0x1000000, mem_bytes = (\<lambda>_. 0)\<rparr> = Inr m' \<and>
     virt_to_phys True 0x7f0000000000 m' 0x2345678 = Inr 0x2345678"
  using boot_identity_map [of "\<lparr>mem_base = 0x7f0000000000, mem_size = 0x1000000, mem_bytes = (\<lambda>_. 0)\<rparr>"
      "0x2345678" True]
  by (auto simp: mem_wf_def)

end
