(* ===== verification/Vcpu_Setup.thy ===== *)
theory Vcpu_Setup
  imports Translation
begin

text \<open>
  Preparing a virtual processor for the guest (\<^verbatim>\<open>setup_long_mode\<close>, \<^verbatim>\<open>setup_cpuid\<close>, \<^verbatim>\<open>setup_msrs\<close> and
  \<^verbatim>\<open>init\<close> of \<^verbatim>\<open>src/linux/vcpu.rs\<close>). The processor is a file descriptor of the kernel's virtual machine
  interface; its calls are arguments of the model, and so are the constants of the bindings.
\<close>

subsection \<open>Register files of the interface\<close>

record kvm_segment =
  seg_base :: u64
  seg_limit :: u32
  seg_selector :: u16
  seg_type :: u8
  seg_present :: u8
  seg_dpl :: u8
  seg_db :: u8
  seg_s :: u8
  seg_l :: u8
  seg_g :: u8
  seg_avl :: u8
  seg_unusable :: u8

record kvm_dtable =
  dt_base :: u64
  dt_limit :: u16

record kvm_sregs =
  sr_cs :: kvm_segment
  sr_ds :: kvm_segment
  sr_es :: kvm_segment
  sr_fs :: kvm_segment
  sr_gs :: kvm_segment
  sr_ss :: kvm_segment
  sr_gdt :: kvm_dtable
  sr_idt :: kvm_dtable
  sr_cr0 :: u64
  sr_cr2 :: u64
  sr_cr3 :: u64
  sr_cr4 :: u64
  sr_efer :: u64

record kvm_regs =
  rax :: u64
  rbx :: u64
  rcx :: u64
  rdx :: u64
  rsi :: u64
  rdi :: u64
  rsp :: u64
  rbp :: u64
  r8 :: u64
  r9 :: u64
  r10 :: u64
  r11 :: u64
  r12 :: u64
  r13 :: u64
  r14 :: u64
  r15 :: u64
  rip :: u64
  rflags :: u64

record kvm_cpuid_entry =
  ce_function :: u32
  ce_eax :: u32
  ce_ebx :: u32
  ce_ecx :: u32
  ce_edx :: u32

record kvm_msr_entry =
  msr_index :: u32
  msr_data :: u64

text \<open>The calls on a processor \<open>'v\<close>; an error is an error number.\<close>

record 'v vcpu_fd =
  get_sregs :: "'v \<Rightarrow> i32 + kvm_sregs"
  set_sregs :: "'v \<Rightarrow> kvm_sregs \<Rightarrow> i32 + 'v"
  get_regs :: "'v \<Rightarrow> i32 + kvm_regs"
  set_regs :: "'v \<Rightarrow> kvm_regs \<Rightarrow> i32 + 'v"
  set_cpuid2 :: "'v \<Rightarrow> kvm_cpuid_entry list \<Rightarrow> i32 + 'v"
  set_mp_state :: "'v \<Rightarrow> u32 \<Rightarrow> i32 + 'v"
  set_msrs :: "'v \<Rightarrow> kvm_msr_entry list \<Rightarrow> i32 + 'v"
  get_supported_cpuid :: "usize \<Rightarrow> i32 + kvm_cpuid_entry list"
  get_msr_index_list :: "i32 + u32 list"
  msrs_from_entries :: "kvm_msr_entry list \<Rightarrow> kvm_msr_entry list option"
  KVM_MAX_CPUID_ENTRIES :: usize
  KVM_MP_STATE_RUNNABLE :: u32
  Cr0_PROTECTED_MODE_ENABLE :: u64
  Cr0_EXTENSION_TYPE :: u64
  Cr0_NUMERIC_ERROR :: u64
  Cr0_PAGING :: u64
  Cr4_PHYSICAL_ADDRESS_EXTENSION :: u64

fun ioctl :: "i32 + 'a \<Rightarrow> i32 failure + 'a" where
  "ioctl (Inl e) = Inl (Err e)"
| "ioctl (Inr x) = Inr x"

lemma ioctl_eq_Inr: "ioctl r = Inr x \<longleftrightarrow> r = Inr x"
  by (cases r) auto

subsection \<open>Long mode\<close>

definition code_segment :: kvm_segment where
  "code_segment = \<lparr>seg_base = 0, seg_limit = 0xffffffff, seg_selector = push_bit 3 1, seg_type = 11, seg_present = 1,
     seg_dpl = 0, seg_db = 0, seg_s = 1, seg_l = 1, seg_g = 1, seg_avl = 0, seg_unusable = 0\<rparr>"

definition setup_long_mode :: "'v vcpu_fd \<Rightarrow> 'v \<Rightarrow> u64 \<Rightarrow> i32 failure + 'v" where
  "setup_long_mode fd v entry_point =
     and_then (ioctl (get_sregs fd v)) (\<lambda>sregs.
     let cr0 = Cr0_PROTECTED_MODE_ENABLE fd OR Cr0_EXTENSION_TYPE fd OR Cr0_NUMERIC_ERROR fd OR Cr0_PAGING fd;
         sregs = sregs\<lparr>sr_cr0 := cr0\<rparr>;
         sregs = sregs\<lparr>sr_cr3 := BOOT_PML4\<rparr>;
         cr4 = Cr4_PHYSICAL_ADDRESS_EXTENSION fd;
         sregs = sregs\<lparr>sr_cr4 := cr4\<rparr>;
         sregs = sregs\<lparr>sr_efer := EFER_LME OR EFER_LMA OR EFER_NXE\<rparr>;
         seg = code_segment;
         sregs = sregs\<lparr>sr_cs := seg\<rparr>;
         seg = seg\<lparr>seg_type := 3, seg_selector := push_bit 3 2, seg_l := 0\<rparr>;
         sregs = sregs\<lparr>sr_ds := seg, sr_es := seg, sr_ss := seg\<rparr>;
         sregs = sregs\<lparr>sr_gdt := \<lparr>dt_base = BOOT_GDT, dt_limit = ucast (8 * BOOT_GDT_MAX - 1)\<rparr>\<rparr> in
     and_then (ioctl (set_sregs fd v sregs)) (\<lambda>v.
     and_then (ioctl (get_regs fd v)) (\<lambda>regs.
     let regs = regs\<lparr>rflags := 2, rip := entry_point, rdi := BOOT_INFO_ADDR\<rparr> in
     ioctl (set_regs fd v regs))))"

subsection \<open>Processor identification\<close>

definition CPUID_EXT_HYPERVISOR :: u32 where "CPUID_EXT_HYPERVISOR = push_bit 31 1"
definition CPUID_TSC_DEADLINE :: u32 where "CPUID_TSC_DEADLINE = push_bit 24 1"
definition CPUID_ENABLE_MSR :: u32 where "CPUID_ENABLE_MSR = push_bit 5 1"
definition MSR_IA32_MISC_ENABLE :: u32 where "MSR_IA32_MISC_ENABLE = 0x000001a0"

text \<open>The first entry of a function, as \<^verbatim>\<open>position\<close> finds it; its absence panics.\<close>

fun position :: "('a \<Rightarrow> bool) \<Rightarrow> 'a list \<Rightarrow> nat option" where
  "position p [] = None"
| "position p (x # xs) = (if p x then Some 0 else map_option Suc (position p xs))"

definition cpuid_entry :: "u32 \<Rightarrow> (kvm_cpuid_entry \<Rightarrow> kvm_cpuid_entry) \<Rightarrow> kvm_cpuid_entry list \<Rightarrow> kvm_cpuid_entry list res" where
  "cpuid_entry f upd es =
     and_then (unwrap (position (\<lambda>r. ce_function r = f) es)) (\<lambda>i.
     and_then (index es i) (\<lambda>e.
     index_set es i (upd e)))"

definition ascii :: "string \<Rightarrow> u8 list" where
  "ascii s = map of_char s"

text \<open>Copying a string over the first bytes of the four-word buffer, which is its own little-endian bytes.\<close>

definition copy_id :: "u8 list \<Rightarrow> u8 list \<Rightarrow> u8 list res" where
  "copy_id buf s = (if length s \<le> length buf then Inr (s @ drop (length s) buf) else Inl BadAccess)"

definition set_regs4 :: "u8 list \<Rightarrow> kvm_cpuid_entry \<Rightarrow> kvm_cpuid_entry" where
  "set_regs4 buf e = e\<lparr>ce_eax := from_le (take 4 buf), ce_ebx := from_le (take 4 (drop 4 buf)),
     ce_ecx := from_le (take 4 (drop 8 buf)), ce_edx := from_le (take 4 (drop 12 buf))\<rparr>"

definition id_first :: "u8 list" where
  "id_first = ascii ''uhyve - unikerne''"

definition id_second :: "u8 list" where
  "id_second = ascii ''l hypervisor'' @ [0]"

definition cpuid_entries :: "kvm_cpuid_entry list \<Rightarrow> kvm_cpuid_entry list res" where
  "cpuid_entries es =
     and_then (copy_id (replicate 16 0) id_first) (\<lambda>id_reg_values.
     and_then (cpuid_entry 0x80000002 (set_regs4 id_reg_values) es) (\<lambda>es.
     and_then (copy_id id_reg_values id_second) (\<lambda>id_reg_values.
     and_then (cpuid_entry 0x80000003 (set_regs4 id_reg_values) es) (\<lambda>es.
     and_then (cpuid_entry 0x80000004 (\<lambda>e. e\<lparr>ce_eax := 0, ce_ebx := 0, ce_ecx := 0, ce_edx := 0\<rparr>) es) (\<lambda>es.
     and_then (cpuid_entry 1 (\<lambda>e. e\<lparr>ce_ecx := ce_ecx e OR CPUID_EXT_HYPERVISOR OR CPUID_TSC_DEADLINE,
                                     ce_edx := ce_edx e OR CPUID_ENABLE_MSR\<rparr>) es) (\<lambda>es.
     cpuid_entry 0x0A (\<lambda>e. e\<lparr>ce_eax := 0\<rparr>) es))))))"

definition setup_cpuid :: "'v vcpu_fd \<Rightarrow> 'v \<Rightarrow> i32 failure + 'v" where
  "setup_cpuid fd v =
     and_then (ioctl (get_supported_cpuid fd (KVM_MAX_CPUID_ENTRIES fd))) (\<lambda>es.
     and_then (panics (cpuid_entries es)) (\<lambda>es.
     ioctl (set_cpuid2 fd v es)))"

subsection \<open>Model-specific registers\<close>

definition msr_entries :: "u32 list \<Rightarrow> kvm_msr_entry list res" where
  "msr_entries msr_list =
     (let es = map (\<lambda>i. \<lparr>msr_index = i, msr_data = 0\<rparr>) msr_list in
      and_then (index es 0) (\<lambda>e.
      and_then (index_set es 0 (e\<lparr>msr_index := MSR_IA32_MISC_ENABLE\<rparr>)) (\<lambda>es.
      and_then (index es 0) (\<lambda>e.
      index_set es 0 (e\<lparr>msr_data := 1\<rparr>)))))"

definition setup_msrs :: "'v vcpu_fd \<Rightarrow> 'v \<Rightarrow> i32 failure + 'v" where
  "setup_msrs fd v =
     and_then (ioctl (get_msr_index_list fd)) (\<lambda>msr_list.
     and_then (panics (msr_entries msr_list)) (\<lambda>es.
     and_then (panics (unwrap (msrs_from_entries fd es))) (\<lambda>msrs.
     ioctl (set_msrs fd v msrs))))"

definition init :: "'v vcpu_fd \<Rightarrow> 'v \<Rightarrow> u64 \<Rightarrow> i32 failure + 'v" where
  "init fd v entry_point =
     and_then (setup_long_mode fd v entry_point) (\<lambda>v.
     and_then (setup_cpuid fd v) (\<lambda>v.
     and_then (ioctl (set_mp_state fd v (KVM_MP_STATE_RUNNABLE fd))) (\<lambda>v.
     setup_msrs fd v)))"

subsection \<open>Lemmas\<close>

text \<open>Looking a function up, and what changing its first entry does.\<close>

definition leaf :: "kvm_cpuid_entry list \<Rightarrow> u32 \<Rightarrow> kvm_cpuid_entry option" where
  "leaf es f = find (\<lambda>e. ce_function e = f) es"

lemma cpuid_entry_simps:
  "cpuid_entry f upd [] = Inl UnwrapFailed"
  "cpuid_entry f upd (e # es) = (if ce_function e = f then Inr (upd e # es) else map_ok (Cons e) (cpuid_entry f upd es))"
  by (auto simp: cpuid_entry_def index_def index_set_def split: option.splits)
    (cases "position (\<lambda>r. ce_function r = f) es"; simp)+

lemma cpuid_entry_leaf:
  assumes "leaf es f = Some e" and "\<And>e. ce_function (upd e) = ce_function e"
  shows "\<exists>es'. cpuid_entry f upd es = Inr es' \<and> leaf es' = (leaf es)(f \<mapsto> upd e)"
  using assms(1)
proof (induction es)
  case (Cons e' es)
  show ?case
  proof (cases "ce_function e' = f")
    case True
    then show ?thesis using Cons.prems assms(2) by (auto simp: cpuid_entry_simps leaf_def)
  next
    case False
    then have "leaf es f = Some e" using Cons.prems by (simp add: leaf_def)
    with Cons.IH obtain es' where "cpuid_entry f upd es = Inr es'" "leaf es' = (leaf es)(f \<mapsto> upd e)"
      by blast
    then show ?thesis
      using False by (auto simp: cpuid_entry_simps leaf_def fun_eq_iff)
  qed
qed (simp add: leaf_def)

lemma cpuid_entry_missing: "leaf es f = None \<Longrightarrow> cpuid_entry f upd es = Inl UnwrapFailed"
  by (induction es) (auto simp: cpuid_entry_simps leaf_def split: if_splits)

definition entry_bytes :: "kvm_cpuid_entry \<Rightarrow> u8 list" where
  "entry_bytes e = bytes_of (ce_eax e) @ bytes_of (ce_ebx e) @ bytes_of (ce_ecx e) @ bytes_of (ce_edx e)"

lemma entry_bytes_set_regs4:
  assumes "length buf = 16"
  shows "entry_bytes (set_regs4 buf e) = buf"
proof -
  have chunk: "to_le 4 (from_le bs :: u32) = bs" if "length bs = 4" for bs
    using to_le_from_le [of bs, where 'a = 32] that by simp
  have "buf = take (4 + (4 + (4 + 4))) buf" using assms by simp
  then have "buf = take 4 buf @ take 4 (drop 4 buf) @ take 4 (drop 8 buf) @ take 4 (drop 12 buf)"
    by (simp only: take_add drop_drop) simp
  then show ?thesis using assms by (simp add: entry_bytes_def set_regs4_def chunk)
qed

lemma cpuid_entries_leaf:
  assumes "\<And>f. f \<in> {0x80000002, 0x80000003, 0x80000004, 1, 0x0A} \<Longrightarrow> leaf es f \<noteq> None"
  shows "\<exists>es' e2 e3 e4 e1 eA. cpuid_entries es = Inr es' \<and> leaf es 0x80000002 = Some e2 \<and> leaf es 0x80000003 = Some e3 \<and>
    leaf es 0x80000004 = Some e4 \<and> leaf es 1 = Some e1 \<and> leaf es 0x0A = Some eA \<and>
    leaf es' = (leaf es)(0x80000002 \<mapsto> set_regs4 id_first e2,
      0x80000003 \<mapsto> set_regs4 (id_second @ drop 13 id_first) e3,
      0x80000004 \<mapsto> e4\<lparr>ce_eax := 0, ce_ebx := 0, ce_ecx := 0, ce_edx := 0\<rparr>,
      1 \<mapsto> e1\<lparr>ce_ecx := ce_ecx e1 OR CPUID_EXT_HYPERVISOR OR CPUID_TSC_DEADLINE, ce_edx := ce_edx e1 OR CPUID_ENABLE_MSR\<rparr>,
      0x0A \<mapsto> eA\<lparr>ce_eax := 0\<rparr>)"
proof -
  obtain e2 e3 e4 e1 eA where e: "leaf es 0x80000002 = Some e2" "leaf es 0x80000003 = Some e3"
    "leaf es 0x80000004 = Some e4" "leaf es 1 = Some e1" "leaf es 0x0A = Some eA"
    using assms by force
  have len: "length id_first = 16" "length id_second = 13" by (simp_all add: id_first_def id_second_def ascii_def)
  obtain es1 where 1: "cpuid_entry 0x80000002 (set_regs4 id_first) es = Inr es1"
    "leaf es1 = (leaf es)(0x80000002 \<mapsto> set_regs4 id_first e2)"
    using cpuid_entry_leaf [OF e(1), of "set_regs4 id_first"] by (auto simp: set_regs4_def)
  obtain es2 where 2: "cpuid_entry 0x80000003 (set_regs4 (id_second @ drop 13 id_first)) es1 = Inr es2"
    "leaf es2 = (leaf es1)(0x80000003 \<mapsto> set_regs4 (id_second @ drop 13 id_first) e3)"
    using cpuid_entry_leaf [of es1 "0x80000003" e3 "set_regs4 (id_second @ drop 13 id_first)"] e(2) 1(2)
    by (auto simp: set_regs4_def)
  let ?z = "\<lambda>e. e\<lparr>ce_eax := 0, ce_ebx := 0, ce_ecx := 0, ce_edx := 0\<rparr> :: kvm_cpuid_entry"
  obtain es3 where 3: "cpuid_entry 0x80000004 ?z es2 = Inr es3" "leaf es3 = (leaf es2)(0x80000004 \<mapsto> ?z e4)"
    using cpuid_entry_leaf [of es2 "0x80000004" e4 ?z] e(3) 1(2) 2(2) by auto
  let ?h = "\<lambda>e. e\<lparr>ce_ecx := ce_ecx e OR CPUID_EXT_HYPERVISOR OR CPUID_TSC_DEADLINE, ce_edx := ce_edx e OR CPUID_ENABLE_MSR\<rparr> :: kvm_cpuid_entry"
  obtain es4 where 4: "cpuid_entry 1 ?h es3 = Inr es4" "leaf es4 = (leaf es3)(1 \<mapsto> ?h e1)"
    using cpuid_entry_leaf [of es3 1 e1 ?h] e(4) 1(2) 2(2) 3(2) by auto
  obtain es5 where 5: "cpuid_entry 0x0A (\<lambda>e. e\<lparr>ce_eax := 0\<rparr>) es4 = Inr es5" "leaf es5 = (leaf es4)(0x0A \<mapsto> eA\<lparr>ce_eax := 0\<rparr>)"
    using cpuid_entry_leaf [of es4 "0x0A" eA "\<lambda>e. e\<lparr>ce_eax := 0\<rparr>"] e(5) 1(2) 2(2) 3(2) 4(2) by auto
  have "cpuid_entries es = Inr es5"
    using 1(1) 2(1) 3(1) 4(1) 5(1) by (simp add: cpuid_entries_def copy_id_def len)
  then show ?thesis using e 1(2) 2(2) 3(2) 4(2) 5(2) by metis
qed

subsection \<open>Properties\<close>

text \<open>
  The processor identification a guest sees: the three brand leaves spell
  \<^verbatim>\<open>uhyve - unikernel hypervisor\<close> as a zero-terminated string, leaf 1 has the hypervisor, deadline
  timer and MSR bits, leaf 10 reports no performance monitoring, and every other leaf is the host's.
\<close>

theorem setup_cpuid_brand:
  assumes "\<forall>f \<in> {0x80000002, 0x80000003, 0x80000004, 1, 0x0A}. leaf es f \<noteq> None"
  shows "\<exists>es' b2 b3 b4 e1 e1' eA'. cpuid_entries es = Inr es' \<and>
    leaf es' 0x80000002 = Some b2 \<and> leaf es' 0x80000003 = Some b3 \<and> leaf es' 0x80000004 = Some b4 \<and>
    takeWhile (\<lambda>b. b \<noteq> 0) (entry_bytes b2 @ entry_bytes b3 @ entry_bytes b4) = ascii ''uhyve - unikernel hypervisor'' \<and>
    leaf es 1 = Some e1 \<and> leaf es' 1 = Some e1' \<and> ce_eax e1' = ce_eax e1 \<and> ce_ebx e1' = ce_ebx e1 \<and>
    (\<forall>k. bit (ce_ecx e1') k \<longleftrightarrow> bit (ce_ecx e1) k \<or> k \<in> {24, 31}) \<and>
    (\<forall>k. bit (ce_edx e1') k \<longleftrightarrow> bit (ce_edx e1) k \<or> k = 5) \<and>
    leaf es' 0x0A = Some eA' \<and> ce_eax eA' = 0 \<and>
    (\<forall>f. f \<notin> {0x80000002, 0x80000003, 0x80000004, 1, 0x0A} \<longrightarrow> leaf es' f = leaf es f)"
proof -
  obtain es' e2 e3 e4 e1 eA where run: "cpuid_entries es = Inr es'" and e1: "leaf es 1 = Some e1"
    and leaf': "leaf es' = (leaf es)(0x80000002 \<mapsto> set_regs4 id_first e2,
      0x80000003 \<mapsto> set_regs4 (id_second @ drop 13 id_first) e3,
      0x80000004 \<mapsto> e4\<lparr>ce_eax := 0, ce_ebx := 0, ce_ecx := 0, ce_edx := 0\<rparr>,
      1 \<mapsto> e1\<lparr>ce_ecx := ce_ecx e1 OR CPUID_EXT_HYPERVISOR OR CPUID_TSC_DEADLINE, ce_edx := ce_edx e1 OR CPUID_ENABLE_MSR\<rparr>,
      0x0A \<mapsto> eA\<lparr>ce_eax := 0\<rparr>)"
    using cpuid_entries_leaf [of es] assms by blast
  have len: "length id_first = 16" "length (id_second @ drop 13 id_first) = 16"
    by (simp_all add: id_first_def id_second_def ascii_def)
  have brand: "takeWhile (\<lambda>b. b \<noteq> 0) (entry_bytes (set_regs4 id_first e2) @
      entry_bytes (set_regs4 (id_second @ drop 13 id_first) e3) @ bs) = ascii ''uhyve - unikernel hypervisor''" for bs
    unfolding entry_bytes_set_regs4 [OF len(1)] entry_bytes_set_regs4 [OF len(2)]
    by (simp add: id_first_def id_second_def ascii_def)
  have bits: "bit (x OR CPUID_EXT_HYPERVISOR OR CPUID_TSC_DEADLINE) k \<longleftrightarrow> bit x k \<or> k \<in> {24, 31}"
    "bit (x OR CPUID_ENABLE_MSR) k \<longleftrightarrow> bit x k \<or> k = 5" for x k
    by (simp_all only: bit_or_iff CPUID_EXT_HYPERVISOR_def CPUID_TSC_DEADLINE_def CPUID_ENABLE_MSR_def bit_single) auto
  show ?thesis
    using run e1 brand [of "entry_bytes (e4\<lparr>ce_eax := 0, ce_ebx := 0, ce_ecx := 0, ce_edx := 0\<rparr>)"]
    by (simp add: leaf' bits)
qed

definition sample_cpuid :: "kvm_cpuid_entry list" where
  "sample_cpuid = map (\<lambda>f. \<lparr>ce_function = f, ce_eax = 3, ce_ebx = 0, ce_ecx = 1, ce_edx = 0\<rparr>)
     [0, 1, 4, 4, 0x0A, 0x80000002, 0x80000003, 0x80000004]"

theorem setup_cpuid_brand_witness:
  "\<exists>es' e. cpuid_entries sample_cpuid = Inr es' \<and> leaf es' 1 = Some e \<and> bit (ce_ecx e) 31 \<and> leaf es' 4 = leaf sample_cpuid 4"
proof -
  have "\<forall>f \<in> {0x80000002, 0x80000003, 0x80000004, 1, 0x0A}. leaf sample_cpuid f \<noteq> None"
    by (simp add: leaf_def sample_cpuid_def)
  from setup_cpuid_brand [OF this] show ?thesis by auto
qed

text \<open>
  A descriptor of the global descriptor table and a segment register agree: base, scaled limit and
  every attribute but the default operation size, which long mode does not use for data.
\<close>

definition seg_matches :: "kvm_segment \<Rightarrow> u64 \<Rightarrow> bool" where
  "seg_matches s d \<longleftrightarrow>
     seg_base s = gdt_base d \<and> ucast (seg_limit s) = (push_bit 12 (gdt_limit d) OR 0xfff) \<and>
     ucast (seg_type s) = take_bit 4 (drop_bit 40 d) \<and> ucast (seg_s s) = take_bit 1 (drop_bit 44 d) \<and>
     ucast (seg_dpl s) = take_bit 2 (drop_bit 45 d) \<and> ucast (seg_present s) = take_bit 1 (drop_bit 47 d) \<and>
     ucast (seg_avl s) = take_bit 1 (drop_bit 52 d) \<and> ucast (seg_l s) = take_bit 1 (drop_bit 53 d) \<and>
     ucast (seg_g s) = take_bit 1 (drop_bit 55 d)"

text \<open>
  What the interface documents of its register calls, and the architecture of the flags the
  bindings name.
\<close>

definition register_laws :: "'v vcpu_fd \<Rightarrow> bool" where
  "register_laws fd \<longleftrightarrow>
     (\<forall>v s v'. set_sregs fd v s = Inr v' \<longrightarrow> get_sregs fd v' = Inr s \<and> get_regs fd v' = get_regs fd v) \<and>
     (\<forall>v r v'. set_regs fd v r = Inr v' \<longrightarrow> get_regs fd v' = Inr r \<and> get_sregs fd v' = get_sregs fd v) \<and>
     Cr0_PROTECTED_MODE_ENABLE fd = push_bit 0 1 \<and> Cr0_EXTENSION_TYPE fd = push_bit 4 1 \<and>
     Cr0_NUMERIC_ERROR fd = push_bit 5 1 \<and> Cr0_PAGING fd = push_bit 31 1 \<and> Cr4_PHYSICAL_ADDRESS_EXTENSION fd = push_bit 5 1"

lemma setup_long_mode_state:
  assumes "register_laws fd" and "setup_long_mode fd v entry = Inr v'"
  shows "\<exists>s r r0. get_sregs fd v' = Inr s \<and> get_regs fd v' = Inr r \<and> get_regs fd v = Inr r0 \<and>
    r = r0\<lparr>rflags := 2, rip := entry, rdi := BOOT_INFO_ADDR\<rparr> \<and>
    sr_cr0 s = push_bit 0 1 OR push_bit 4 1 OR push_bit 5 1 OR push_bit 31 1 \<and> sr_cr3 s = BOOT_PML4 \<and>
    sr_cr4 s = push_bit 5 1 \<and> sr_efer s = EFER_LME OR EFER_LMA OR EFER_NXE \<and> sr_cs s = code_segment \<and>
    sr_ds s = code_segment\<lparr>seg_type := 3, seg_selector := push_bit 3 2, seg_l := 0\<rparr> \<and> sr_es s = sr_ds s \<and> sr_ss s = sr_ds s \<and>
    sr_gdt s = \<lparr>dt_base = BOOT_GDT, dt_limit = 23\<rparr>"
  using assms
  by (auto simp: setup_long_mode_def and_then_eq_Inr ioctl_eq_Inr Let_def register_laws_def BOOT_GDT_MAX_def)

text \<open>
  C13. The processor state matches the boot structures in memory: after the boot structures are
  written and long mode is set up, the processor runs in 64-bit mode with paging on the boot page
  tables, which map the first gigabyte one to one; the descriptor table register covers exactly the
  three descriptors, and the code and data segment registers agree with the descriptors their
  selectors name; the guest starts at the entry point with the address of the boot information as
  its argument.
\<close>

theorem boot_state_consistent:
  assumes "mem_wf m" and "0x13000 \<le> unat (mem_size m)" and "init_guest_mem oc m = Inr m'"
    and "register_laws fd" and "setup_long_mode fd v entry = Inr v'"
  shows "\<exists>s r code data. get_sregs fd v' = Inr s \<and> get_regs fd v' = Inr r \<and>
    bit (sr_cr0 s) 0 \<and> bit (sr_cr0 s) 31 \<and> bit (sr_cr4 s) 5 \<and> bit (sr_efer s) 8 \<and> bit (sr_efer s) 10 \<and>
    (\<forall>va < 2 ^ 30. mmu_walk m' va 3 (sr_cr3 s) = Some va) \<and>
    unat (dt_limit (sr_gdt s)) + 1 = 3 * 8 \<and>
    load m' (mem_base m + dt_base (sr_gdt s) + ucast (seg_selector (sr_cs s))) = Inr code \<and> seg_matches (sr_cs s) code \<and>
    load m' (mem_base m + dt_base (sr_gdt s) + ucast (seg_selector (sr_ds s))) = Inr data \<and> seg_matches (sr_ds s) data \<and>
    sr_es s = sr_ds s \<and> sr_ss s = sr_ds s \<and>
    rip r = entry \<and> rdi r = BOOT_INFO_ADDR \<and> rflags r = 2"
proof -
  have boot: "boot_memory m m'"
    using init_guest_mem_boot_memory [of m oc] assms(1-3) by auto
  obtain s r where sr: "get_sregs fd v' = Inr s" "get_regs fd v' = Inr r"
    "rip r = entry" "rdi r = BOOT_INFO_ADDR" "rflags r = 2"
    "sr_cr0 s = push_bit 0 1 OR push_bit 4 1 OR push_bit 5 1 OR push_bit 31 1" "sr_cr3 s = BOOT_PML4"
    "sr_cr4 s = push_bit 5 1" "sr_efer s = EFER_LME OR EFER_LMA OR EFER_NXE" "sr_cs s = code_segment"
    "sr_ds s = code_segment\<lparr>seg_type := 3, seg_selector := push_bit 3 2, seg_l := 0\<rparr>" "sr_es s = sr_ds s" "sr_ss s = sr_ds s"
    "sr_gdt s = \<lparr>dt_base = BOOT_GDT, dt_limit = 23\<rparr>"
    using setup_long_mode_state [OF assms(4,5)] by auto
  have gdt: "load m' (mem_base m + BOOT_GDT + 8) = Inr (create_gdt_entry 0xA09B 0 0xFFFFF)"
    "load m' (mem_base m + BOOT_GDT + 16) = Inr (create_gdt_entry 0xC093 0 0xFFFFF)"
    using boot by (simp_all add: boot_memory_def)
  have bits: "bit (sr_cr0 s) 0" "bit (sr_cr0 s) 31" "bit (sr_cr4 s) 5" "bit (sr_efer s) 8" "bit (sr_efer s) 10"
    by (simp_all add: sr EFER_LME_def EFER_LMA_def EFER_NXE_def)
  have "seg_matches (sr_cs s) (create_gdt_entry 0xA09B 0 0xFFFFF)" "seg_matches (sr_ds s) (create_gdt_entry 0xC093 0 0xFFFFF)"
    by (simp_all add: sr seg_matches_def code_segment_def gdt_base_def gdt_limit_def create_gdt_entry_def)
  moreover have "load m' (mem_base m + dt_base (sr_gdt s) + ucast (seg_selector (sr_cs s))) = Inr (create_gdt_entry 0xA09B 0 0xFFFFF)"
    "load m' (mem_base m + dt_base (sr_gdt s) + ucast (seg_selector (sr_ds s))) = Inr (create_gdt_entry 0xC093 0 0xFFFFF)"
    using gdt by (simp_all add: sr code_segment_def)
  moreover have "\<forall>va < 2 ^ 30. mmu_walk m' va 3 (sr_cr3 s) = Some va"
    using boot_walk [OF boot assms(2)] by (simp add: sr)
  moreover have "unat (dt_limit (sr_gdt s)) + 1 = 3 * 8" by (simp add: sr)
  ultimately show ?thesis using sr bits by blast
qed

text \<open>A processor that keeps what it is given.\<close>

definition sample_fd :: "(kvm_sregs \<times> kvm_regs) vcpu_fd" where
  "sample_fd = \<lparr>get_sregs = (\<lambda>v. Inr (fst v)), set_sregs = (\<lambda>v s. Inr (s, snd v)), get_regs = (\<lambda>v. Inr (snd v)),
     set_regs = (\<lambda>v r. Inr (fst v, r)), set_cpuid2 = (\<lambda>v es. Inr v), set_mp_state = (\<lambda>v s. Inr v), set_msrs = (\<lambda>v es. Inr v),
     get_supported_cpuid = (\<lambda>n. Inr sample_cpuid), get_msr_index_list = Inr [0x10, 0x11], msrs_from_entries = Some,
     KVM_MAX_CPUID_ENTRIES = 80, KVM_MP_STATE_RUNNABLE = 0, Cr0_PROTECTED_MODE_ENABLE = push_bit 0 1,
     Cr0_EXTENSION_TYPE = push_bit 4 1, Cr0_NUMERIC_ERROR = push_bit 5 1, Cr0_PAGING = push_bit 31 1,
     Cr4_PHYSICAL_ADDRESS_EXTENSION = push_bit 5 1\<rparr>"

lemma sample_fd_laws: "register_laws sample_fd"
  by (simp add: register_laws_def sample_fd_def)

lemma sample_fd_setup: "\<exists>v'. setup_long_mode sample_fd v entry = Inr v'"
  by (simp add: setup_long_mode_def sample_fd_def Let_def)

theorem boot_state_consistent_witness:
  "\<forall>v. \<exists>m' v' s r. init_guest_mem True \<lparr>mem_base = 0x7f0000000000, mem_size = 0x1000000, mem_bytes = (\<lambda>_. 0)\<rparr> = Inr m' \<and>
     setup_long_mode sample_fd v 0x10200 = Inr v' \<and> get_sregs sample_fd v' = Inr s \<and> get_regs sample_fd v' = Inr r \<and>
     mmu_walk m' 0x10200 3 (sr_cr3 s) = Some 0x10200 \<and> rip r = 0x10200"
proof
  fix v
  let ?m = "\<lparr>mem_base = 0x7f0000000000, mem_size = 0x1000000, mem_bytes = (\<lambda>_. 0)\<rparr>"
  obtain m' where m': "init_guest_mem True ?m = Inr m'"
    using init_guest_mem_boot_memory [of ?m True] by (auto simp: mem_wf_def)
  obtain v' where v': "setup_long_mode sample_fd v 0x10200 = Inr v'" using sample_fd_setup by blast
  have "mem_wf ?m" "0x13000 \<le> unat (mem_size ?m)" by (simp_all add: mem_wf_def)
  from boot_state_consistent [OF this m' sample_fd_laws v'] obtain s r where
    "get_sregs sample_fd v' = Inr s" "get_regs sample_fd v' = Inr r" "rip r = 0x10200"
    and walk: "\<forall>va < 2 ^ 30. mmu_walk m' va 3 (sr_cr3 s) = Some va" by blast
  moreover have "mmu_walk m' 0x10200 3 (sr_cr3 s) = Some 0x10200" using walk by simp
  ultimately show "\<exists>m' v' s r. init_guest_mem True ?m = Inr m' \<and>
     setup_long_mode sample_fd v 0x10200 = Inr v' \<and> get_sregs sample_fd v' = Inr s \<and> get_regs sample_fd v' = Inr r \<and>
     mmu_walk m' 0x10200 3 (sr_cr3 s) = Some 0x10200 \<and> rip r = 0x10200"
    using m' v' by blast
qed

end
