(* ===== verification/Gdb_Regs.thy ===== *)
theory Gdb_Regs
  imports Vcpu_Setup
begin

text \<open>
  The register files of the debugger and of the kernel's interface, and the conversions between them
  (\<^verbatim>\<open>src/linux/gdb/regs.rs\<close>).
\<close>

type_synonym u128 = "128 word"

subsection \<open>Register files\<close>

text \<open>The floating point state of the interface.\<close>

record kvm_fpu =
  fpr :: "u8 list list"
  fcw :: u16
  fsw :: u16
  ftwx :: u8
  pad1 :: u8
  last_opcode :: u16
  last_ip :: u64
  last_dp :: u64
  fpu_xmm :: "u8 list list"
  fpu_mxcsr :: u32
  pad2 :: u32

record 'v debug_fd = "'v vcpu_fd" +
  get_fpu :: "'v \<Rightarrow> i32 + kvm_fpu"
  set_fpu :: "'v \<Rightarrow> kvm_fpu \<Rightarrow> i32 + 'v"

text \<open>The registers of the debugger.\<close>

record X86SegmentRegs =
  cs :: u32
  ss :: u32
  ds :: u32
  es :: u32
  fs :: u32
  gs :: u32

record X87FpuInternalRegs =
  fctrl :: u32
  fstat :: u32
  ftag :: u32
  fiseg :: u32
  fioff :: u32
  foseg :: u32
  fooff :: u32
  fop :: u32

record Regs =
  gp_regs :: "u64 list"
  eflags :: u32
  gdb_rip :: u64

record Sregs =
  segments :: X86SegmentRegs

record Fpu =
  st :: "u8 list list"
  fpu :: X87FpuInternalRegs
  xmm :: "u128 list"
  mxcsr :: u32

record X86_64CoreRegs =
  core_regs :: "u64 list"
  core_eflags :: u32
  core_rip :: u64
  core_segments :: X86SegmentRegs
  core_st :: "u8 list list"
  core_fpu :: X87FpuInternalRegs
  core_xmm :: "u128 list"
  core_mxcsr :: u32

subsection \<open>General purpose registers\<close>

definition Regs_from :: "kvm_regs \<Rightarrow> Regs" where
  "Regs_from r =
     \<lparr>gp_regs = [rax r, rbx r, rcx r, rdx r, rsi r, rdi r, rbp r, rsp r, r8 r, r9 r, r10 r, r11 r, r12 r, r13 r, r14 r, r15 r],
      eflags = ucast (rflags r), gdb_rip = rip r\<rparr>"

definition kvm_regs_from :: "Regs \<Rightarrow> kvm_regs" where
  "kvm_regs_from regs = (let g = gp_regs regs in
     \<lparr>rax = g ! 0, rbx = g ! 1, rcx = g ! 2, rdx = g ! 3, rsi = g ! 4, rdi = g ! 5, rsp = g ! 7, rbp = g ! 6,
      r8 = g ! 8, r9 = g ! 9, r10 = g ! 10, r11 = g ! 11, r12 = g ! 12, r13 = g ! 13, r14 = g ! 14, r15 = g ! 15,
      rip = gdb_rip regs, rflags = ucast (eflags regs)\<rparr>)"

subsection \<open>Segment registers\<close>

definition Sregs_from :: "kvm_sregs \<Rightarrow> Sregs" where
  "Sregs_from s =
     \<lparr>segments = \<lparr>cs = ucast (seg_selector (sr_cs s)), ss = ucast (seg_selector (sr_ss s)), ds = ucast (seg_selector (sr_ds s)),
        es = ucast (seg_selector (sr_es s)), fs = ucast (seg_selector (sr_fs s)), gs = ucast (seg_selector (sr_gs s))\<rparr>\<rparr>"

text \<open>\<^verbatim>\<open>try_into().unwrap()\<close> from 32 bits to a narrower unsigned type.\<close>

definition narrow :: "u32 \<Rightarrow> 'a::len word res" where
  "narrow w = (if unat w < 2 ^ LENGTH('a) then Inr (ucast w) else Inl UnwrapFailed)"

definition Sregs_update :: "Sregs \<Rightarrow> kvm_sregs \<Rightarrow> kvm_sregs res" where
  "Sregs_update self s =
     and_then (narrow (cs (segments self))) (\<lambda>w. let s = s\<lparr>sr_cs := (sr_cs s)\<lparr>seg_selector := w\<rparr>\<rparr> in
     and_then (narrow (ss (segments self))) (\<lambda>w. let s = s\<lparr>sr_ss := (sr_ss s)\<lparr>seg_selector := w\<rparr>\<rparr> in
     and_then (narrow (ds (segments self))) (\<lambda>w. let s = s\<lparr>sr_ds := (sr_ds s)\<lparr>seg_selector := w\<rparr>\<rparr> in
     and_then (narrow (es (segments self))) (\<lambda>w. let s = s\<lparr>sr_es := (sr_es s)\<lparr>seg_selector := w\<rparr>\<rparr> in
     and_then (narrow (fs (segments self))) (\<lambda>w. let s = s\<lparr>sr_fs := (sr_fs s)\<lparr>seg_selector := w\<rparr>\<rparr> in
     and_then (narrow (gs (segments self))) (\<lambda>w. Inr (s\<lparr>sr_gs := (sr_gs s)\<lparr>seg_selector := w\<rparr>\<rparr>)))))))"

subsection \<open>Floating point registers\<close>

definition Fpu_from :: "kvm_fpu \<Rightarrow> Fpu" where
  "Fpu_from k =
     \<lparr>st = map (take 10) (fpr k),
      fpu = \<lparr>fctrl = ucast (fcw k), fstat = ucast (fsw k), ftag = ucast (ftwx k),
        fiseg = ucast (last_ip k), fioff = ucast (drop_bit 32 (last_ip k)),
        foseg = ucast (last_dp k), fooff = ucast (drop_bit 32 (last_dp k)), fop = ucast (last_opcode k)\<rparr>,
      xmm = map from_le (fpu_xmm k),
      mxcsr = fpu_mxcsr k\<rparr>"

definition kvm_fpu_from :: "Fpu \<Rightarrow> kvm_fpu res" where
  "kvm_fpu_from f =
     (let fprs = map (\<lambda>r. r @ replicate 6 0) (st f);
          ip = ucast (fiseg (fpu f)) OR push_bit 32 (ucast (fioff (fpu f)));
          dp = ucast (foseg (fpu f)) OR push_bit 32 (ucast (fooff (fpu f)));
          xmms = map (to_le 16) (xmm f) in
      and_then (narrow (fctrl (fpu f))) (\<lambda>cw.
      and_then (narrow (fstat (fpu f))) (\<lambda>sw.
      and_then (narrow (ftag (fpu f))) (\<lambda>tw.
      and_then (narrow (fop (fpu f))) (\<lambda>op.
      Inr \<lparr>fpr = fprs, fcw = cw, fsw = sw, ftwx = tw, pad1 = 0, last_opcode = op, last_ip = ip, last_dp = dp,
        fpu_xmm = xmms, fpu_mxcsr = mxcsr f, pad2 = 0\<rparr>)))))"

subsection \<open>Reading and writing all registers\<close>

definition regs_read :: "('v, 'x) debug_fd_scheme \<Rightarrow> 'v \<Rightarrow> i32 failure + X86_64CoreRegs" where
  "regs_read fd v =
     and_then (ioctl (get_regs fd v)) (\<lambda>kr. let r = Regs_from kr in
     and_then (ioctl (get_sregs fd v)) (\<lambda>ks. let s = Sregs_from ks in
     and_then (ioctl (get_fpu fd v)) (\<lambda>kf. let f = Fpu_from kf in
     Inr \<lparr>core_regs = gp_regs r, core_eflags = eflags r, core_rip = gdb_rip r, core_segments = segments s,
       core_st = st f, core_fpu = fpu f, core_xmm = xmm f, core_mxcsr = mxcsr f\<rparr>)))"

definition regs_write :: "('v, 'x) debug_fd_scheme \<Rightarrow> X86_64CoreRegs \<Rightarrow> 'v \<Rightarrow> i32 failure + 'v" where
  "regs_write fd c v =
     and_then (ioctl (set_regs fd v (kvm_regs_from \<lparr>gp_regs = core_regs c, eflags = core_eflags c, gdb_rip = core_rip c\<rparr>))) (\<lambda>v.
     and_then (ioctl (get_sregs fd v)) (\<lambda>ks.
     and_then (panics (Sregs_update \<lparr>segments = core_segments c\<rparr> ks)) (\<lambda>ks.
     and_then (ioctl (set_sregs fd v ks)) (\<lambda>v.
     and_then (panics (kvm_fpu_from \<lparr>st = core_st c, fpu = core_fpu c, xmm = core_xmm c, mxcsr = core_mxcsr c\<rparr>)) (\<lambda>kf.
     ioctl (set_fpu fd v kf))))))"

subsection \<open>Round trips\<close>

text \<open>The array lengths of the types, and the values of the debugger that fit the narrower fields.\<close>

definition core_wf :: "X86_64CoreRegs \<Rightarrow> bool" where
  "core_wf c \<longleftrightarrow> length (core_regs c) = 16 \<and> length (core_st c) = 8 \<and> (\<forall>r\<in>set (core_st c). length r = 10) \<and> length (core_xmm c) = 16"

definition fpu_wf :: "kvm_fpu \<Rightarrow> bool" where
  "fpu_wf k \<longleftrightarrow> length (fpr k) = 8 \<and> (\<forall>r\<in>set (fpr k). length r = 16) \<and> length (fpu_xmm k) = 16 \<and> (\<forall>r\<in>set (fpu_xmm k). length r = 16)"

definition narrow_fields :: "X86_64CoreRegs \<Rightarrow> (u32 \<times> nat) list" where
  "narrow_fields c =
     (let s = core_segments c; f = core_fpu c in
      [(cs s, 16), (ss s, 16), (ds s, 16), (es s, 16), (fs s, 16), (gs s, 16), (fctrl f, 16), (fstat f, 16), (ftag f, 8), (fop f, 16)])"

definition fits :: "X86_64CoreRegs \<Rightarrow> bool" where
  "fits c \<longleftrightarrow> list_all (\<lambda>(w, n). unat w < 2 ^ n) (narrow_fields c)"

definition file_laws :: "('v, 'x) debug_fd_scheme \<Rightarrow> bool" where
  "file_laws fd \<longleftrightarrow>
     (\<forall>v s v'. set_sregs fd v s = Inr v' \<longrightarrow> get_sregs fd v' = Inr s \<and> get_regs fd v' = get_regs fd v) \<and>
     (\<forall>v r v'. set_regs fd v r = Inr v' \<longrightarrow> get_regs fd v' = Inr r) \<and>
     (\<forall>v f v'. set_fpu fd v f = Inr v' \<longrightarrow> get_fpu fd v' = Inr f \<and> get_regs fd v' = get_regs fd v \<and> get_sregs fd v' = get_sregs fd v)"

lemma ucast_ucast_small:
  assumes "unat (w :: u32) < 2 ^ LENGTH('a)"
  shows "ucast (ucast w :: 'a::len word) = w"
proof (rule bit_word_eqI)
  fix i assume "i < LENGTH(32)"
  have "take_bit LENGTH('a) (unat w) = unat w" using assms by (rule take_bit_nat_eq_self)
  then have "bit (unat w) i \<longleftrightarrow> i < LENGTH('a) \<and> bit (unat w) i" by (metis bit_take_bit_iff)
  then have "bit w i \<longleftrightarrow> i < LENGTH('a) \<and> bit w i" by (simp add: bit_unsigned_iff)
  then show "bit (ucast (ucast w :: 'a word) :: u32) i \<longleftrightarrow> bit w i" using \<open>i < LENGTH(32)\<close> by (auto simp: bit_unsigned_iff)
qed

lemma ucast_narrow: "narrow w = Inr (n :: 'a::len word) \<Longrightarrow> ucast n = w"
  by (auto simp: narrow_def ucast_ucast_small split: if_splits)

lemma Regs_round: "length (gp_regs r) = 16 \<Longrightarrow> Regs_from (kvm_regs_from r) = r"
proof -
  assume "length (gp_regs r) = 16"
  then have "gp_regs r = map (\<lambda>i. gp_regs r ! i) [0..<16]" by (metis map_nth)
  moreover have "[0..<16] = [0, 1, 2, 3, 4, 5, 6, 7, 8, 9, 10, 11, 12, 13, 14, 15]" by (simp add: upt_rec)
  ultimately have "gp_regs (Regs_from (kvm_regs_from r)) = gp_regs r" by (simp add: Regs_from_def kvm_regs_from_def Let_def)
  moreover have "ucast (ucast (eflags r) :: u64) = eflags r"
    using unsigned_less [of "eflags r", where 'a = nat] by (intro ucast_ucast_small) simp
  ultimately show ?thesis by (cases r) (simp add: Regs_from_def kvm_regs_from_def Let_def)
qed

lemma Sregs_round: "Sregs_update s k = Inr k' \<Longrightarrow> Sregs_from k' = s"
  by (auto simp: Sregs_update_def Sregs_from_def and_then_eq_Inr Let_def dest!: ucast_narrow)

lemma halves:
  "ucast (ucast (a :: u32) OR push_bit 32 (ucast (b :: u32)) :: u64) = a"
  "ucast (drop_bit 32 (ucast (a :: u32) OR push_bit 32 (ucast (b :: u32)) :: u64)) = b"
  by (auto simp: bit_eq_iff bit_unsigned_iff bit_or_iff bit_push_bit_iff bit_drop_bit_eq dest: bit_imp_le_length)

lemma Fpu_round:
  assumes "kvm_fpu_from f = Inr k" and "\<forall>r\<in>set (st f). length r = 10"
  shows "Fpu_from k = f"
proof -
  have "map (\<lambda>r. take 10 (r @ replicate 6 0)) (st f) = st f" using assms(2) by (intro map_idI) simp
  moreover have "map (\<lambda>w. from_le (to_le 16 w)) (xmm f) = xmm f" by (intro map_idI from_le_to_le) simp
  ultimately show ?thesis
    using assms(1) by (auto simp: kvm_fpu_from_def Fpu_from_def and_then_eq_Inr Let_def comp_def halves dest!: ucast_narrow
        intro!: Fpu.equality X87FpuInternalRegs.equality simp del: drop_bit_or)
qed

lemma regs_write_parts:
  assumes "regs_write fd c v = Inr v'"
  shows "\<exists>v1 ks ks' v2 kf. set_regs fd v (kvm_regs_from \<lparr>gp_regs = core_regs c, eflags = core_eflags c, gdb_rip = core_rip c\<rparr>) = Inr v1 \<and>
    get_sregs fd v1 = Inr ks \<and> Sregs_update \<lparr>segments = core_segments c\<rparr> ks = Inr ks' \<and> set_sregs fd v1 ks' = Inr v2 \<and>
    kvm_fpu_from \<lparr>st = core_st c, fpu = core_fpu c, xmm = core_xmm c, mxcsr = core_mxcsr c\<rparr> = Inr kf \<and> set_fpu fd v2 kf = Inr v'"
  using assms by (auto simp: regs_write_def and_then_eq_Inr ioctl_eq_Inr panics_eq_Inr)


text \<open>A processor with all three register files, which keeps what it is given.\<close>

definition sample_debug_fd :: "(kvm_sregs \<times> kvm_regs \<times> kvm_fpu) debug_fd" where
  "sample_debug_fd = \<lparr>get_sregs = (\<lambda>v. Inr (fst v)), set_sregs = (\<lambda>v s. Inr (s, snd v)), get_regs = (\<lambda>v. Inr (fst (snd v))),
     set_regs = (\<lambda>v r. Inr (fst v, r, snd (snd v))), set_cpuid2 = (\<lambda>v es. Inr v), set_mp_state = (\<lambda>v s. Inr v), set_msrs = (\<lambda>v es. Inr v),
     get_supported_cpuid = (\<lambda>n. Inr sample_cpuid), get_msr_index_list = Inr [0x10, 0x11], msrs_from_entries = Some,
     KVM_MAX_CPUID_ENTRIES = 80, KVM_MP_STATE_RUNNABLE = 0, Cr0_PROTECTED_MODE_ENABLE = push_bit 0 1,
     Cr0_EXTENSION_TYPE = push_bit 4 1, Cr0_NUMERIC_ERROR = push_bit 5 1, Cr0_PAGING = push_bit 31 1,
     Cr4_PHYSICAL_ADDRESS_EXTENSION = push_bit 5 1,
     get_fpu = (\<lambda>v. Inr (snd (snd v))), set_fpu = (\<lambda>v f. Inr (fst v, fst (snd v), f))\<rparr>"

lemma sample_debug_fd_laws: "file_laws sample_debug_fd"
  by (simp add: file_laws_def sample_debug_fd_def)

definition sample_core :: X86_64CoreRegs where
  "sample_core = \<lparr>core_regs = map of_nat [0..<16], core_eflags = 2, core_rip = 0x10200,
     core_segments = \<lparr>cs = 8, ss = 16, ds = 16, es = 16, fs = 0, gs = 0\<rparr>, core_st = replicate 8 (replicate 10 7),
     core_fpu = \<lparr>fctrl = 0x37f, fstat = 0, ftag = 0xff, fiseg = 1, fioff = 2, foseg = 3, fooff = 4, fop = 5\<rparr>,
     core_xmm = replicate 16 9, core_mxcsr = 0x1f80\<rparr>"

lemma sample_core_wf: "core_wf sample_core"
  by (simp add: core_wf_def sample_core_def)

lemma sample_core_write: "\<exists>v'. regs_write sample_debug_fd sample_core v = Inr v'"
  by (simp add: regs_write_def sample_debug_fd_def sample_core_def Sregs_update_def kvm_fpu_from_def narrow_def Let_def)


text \<open>
  Registers of the debugger are accepted exactly if their segment selectors and floating point
  control words fit the fields of the processor: a value that does not fit, which the remote protocol
  can carry, stops the hypervisor.
\<close>

theorem regs_write_accepts:
  assumes "set_regs fd v (kvm_regs_from \<lparr>gp_regs = core_regs c, eflags = core_eflags c, gdb_rip = core_rip c\<rparr>) = Inr v1"
    and "get_sregs fd v1 = Inr ks" and "\<And>s. \<exists>v'. set_sregs fd v1 s = Inr v'" and "\<And>w f. \<exists>v'. set_fpu fd w f = Inr v'"
  shows "if fits c then \<exists>v'. regs_write fd c v = Inr v' else regs_write fd c v = Inl (Panic UnwrapFailed)"
proof -
  have seg: "case Sregs_update \<lparr>segments = core_segments c\<rparr> ks of Inl e \<Rightarrow> e = UnwrapFailed \<and> \<not> list_all (\<lambda>(w, n). unat w < 2 ^ n) (take 6 (narrow_fields c))
    | Inr _ \<Rightarrow> list_all (\<lambda>(w, n). unat w < 2 ^ n) (take 6 (narrow_fields c))"
    by (simp add: Sregs_update_def narrow_def narrow_fields_def Let_def)
  have fp: "case kvm_fpu_from \<lparr>st = core_st c, fpu = core_fpu c, xmm = core_xmm c, mxcsr = core_mxcsr c\<rparr> of
      Inl e \<Rightarrow> e = UnwrapFailed \<and> \<not> list_all (\<lambda>(w, n). unat w < 2 ^ n) (drop 6 (narrow_fields c))
    | Inr _ \<Rightarrow> list_all (\<lambda>(w, n). unat w < 2 ^ n) (drop 6 (narrow_fields c))"
    by (simp add: kvm_fpu_from_def narrow_def narrow_fields_def Let_def)
  have "fits c \<longleftrightarrow> list_all (\<lambda>(w, n). unat w < 2 ^ n) (take 6 (narrow_fields c)) \<and> list_all (\<lambda>(w, n). unat w < 2 ^ n) (drop 6 (narrow_fields c))"
    unfolding fits_def list_all_append [symmetric] append_take_drop_id ..
  moreover obtain S F where "\<And>s. set_sregs fd v1 s = Inr (S s)" "\<And>w f. set_fpu fd w f = Inr (F w f)" using assms(3,4) by metis
  ultimately show ?thesis
    using seg fp by (auto simp: regs_write_def assms(1,2) split: sum.splits)
qed

theorem regs_write_accepts_witness:
  "\<forall>v. regs_write sample_debug_fd (sample_core\<lparr>core_segments := (core_segments sample_core)\<lparr>cs := 0x10000\<rparr>\<rparr>) v = Inl (Panic UnwrapFailed)"
proof
  fix v
  let ?c = "sample_core\<lparr>core_segments := (core_segments sample_core)\<lparr>cs := 0x10000\<rparr>\<rparr>"
  have "\<not> fits ?c" by (simp add: fits_def narrow_fields_def Let_def)
  then show "regs_write sample_debug_fd ?c v = Inl (Panic UnwrapFailed)"
    using regs_write_accepts [of sample_debug_fd v ?c] by (simp add: sample_debug_fd_def)
qed

end
