(* ===== verification/Cpu_Frequency.thy ===== *)
theory Cpu_Frequency
  imports Prelude
begin

text \<open>
  How the hypervisor finds the processor frequency it reports to the guest: the three routes of
  \<^verbatim>\<open>src/vm.rs\<close> (time stamp counter leaf, hypervisor leaf, measurement). What the CPUID library
  reports and what the counter reads are arguments.
\<close>

subsection \<open>Definitions\<close>

definition MHZ_TO_HZ :: u64 where "MHZ_TO_HZ = 1000000"

definition KHZ_TO_HZ :: u64 where "KHZ_TO_HZ = 1000"

text \<open>What the CPUID library answers: a leaf that is not there is \<^const>\<open>None\<close>.\<close>

record TscInfo =
  tsc_frequency :: "u64 option"
  denominator :: u32
  numerator :: u32

record CpuId =
  get_tsc_info :: "TscInfo option"
  processor_base_frequency :: "u16 option"
  hypervisor_tsc_frequency :: "u32 option option"

text \<open>\<^verbatim>\<open>try_into().unwrap()\<close> from 64 to 32 bits.\<close>

definition to_u32 :: "u64 \<Rightarrow> u32 res" where
  "to_u32 w = (if unat w < 2 ^ 32 then Inr (ucast w) else Inl UnwrapFailed)"

text \<open>The base frequency scaled to the crystal clock and back, in 64-bit arithmetic.\<close>

definition approximate_hz :: "bool \<Rightarrow> TscInfo \<Rightarrow> u16 \<Rightarrow> u64 res" where
  "approximate_hz oc tinfo mhz =
     and_then (mul_oc oc (ucast mhz) MHZ_TO_HZ) (\<lambda>cpu_base_freq_hz.
     and_then (mul_oc oc cpu_base_freq_hz (ucast (denominator tinfo))) (\<lambda>x.
     and_then (div_oc x (ucast (numerator tinfo))) (\<lambda>crystal_hz.
     and_then (mul_oc oc crystal_hz (ucast (numerator tinfo))) (\<lambda>y.
     div_oc y (ucast (denominator tinfo))))))"

definition tsc_frequency_hz :: "bool \<Rightarrow> CpuId \<Rightarrow> TscInfo \<Rightarrow> u64 option res" where
  "tsc_frequency_hz oc cpuid tinfo =
     (case tsc_frequency tinfo of
        Some f \<Rightarrow> Inr (Some f)
      | None \<Rightarrow>
          (case processor_base_frequency cpuid of
             None \<Rightarrow> Inr None
           | Some mhz \<Rightarrow> map_ok Some (approximate_hz oc tinfo mhz)))"

definition detect_freq_from_cpuid :: "bool \<Rightarrow> CpuId \<Rightarrow> u32 option res" where
  "detect_freq_from_cpuid oc cpuid =
     (case get_tsc_info cpuid of
        None \<Rightarrow> Inr None
      | Some tinfo \<Rightarrow>
          and_then (tsc_frequency_hz oc cpuid tinfo) (\<lambda>x.
          let hz = (case x of None \<Rightarrow> 0 | Some hz \<Rightarrow> hz) in
          if hz > 0 then map_ok Some (to_u32 (hz div MHZ_TO_HZ)) else Inr None))"

definition detect_freq_from_cpuid_hypervisor_info :: "bool \<Rightarrow> CpuId \<Rightarrow> u32 option res" where
  "detect_freq_from_cpuid_hypervisor_info oc cpuid =
     (case hypervisor_tsc_frequency cpuid of
        None \<Rightarrow> Inr None
      | Some None \<Rightarrow> Inr None
      | Some (Some khz) \<Rightarrow>
          and_then (mul_oc oc (ucast khz) KHZ_TO_HZ) (\<lambda>hz.
          and_then (to_u32 (hz div MHZ_TO_HZ)) (\<lambda>mhz.
          if mhz > 0 then Inr (Some mhz) else Inr None)))"

text \<open>
  The measurement: \<open>start_tsc\<close> and \<open>end_tsc\<close> are the counter before and after the wait of 10
  milliseconds, which the model does not spend.
\<close>

definition get_cpu_frequency_from_os :: "bool \<Rightarrow> u64 \<Rightarrow> u64 \<Rightarrow> u32 option res" where
  "get_cpu_frequency_from_os oc start_tsc end_tsc =
     (if start_tsc > 0 then
        and_then (sub_oc oc end_tsc start_tsc) (\<lambda>d.
        and_then (mul_oc oc d 100) (\<lambda>t.
        map_ok Some (to_u32 (t div MHZ_TO_HZ))))
      else Inr None)"

text \<open>The order \<^verbatim>\<open>load_kernel\<close> tries them in, ending with zero.\<close>

definition detect_mhz :: "bool \<Rightarrow> CpuId \<Rightarrow> u64 \<Rightarrow> u64 \<Rightarrow> u32 res" where
  "detect_mhz oc cpuid start_tsc end_tsc =
     and_then (detect_freq_from_cpuid oc cpuid) (\<lambda>a. case a of Some mhz \<Rightarrow> Inr mhz | None \<Rightarrow>
     and_then (detect_freq_from_cpuid_hypervisor_info oc cpuid) (\<lambda>b. case b of Some mhz \<Rightarrow> Inr mhz | None \<Rightarrow>
     and_then (get_cpu_frequency_from_os oc start_tsc end_tsc) (\<lambda>c. case c of Some mhz \<Rightarrow> Inr mhz | None \<Rightarrow>
     Inr 0)))"

subsection \<open>Lemmas\<close>

lemma unat_u16_bound: "unat (w :: u16) < 2 ^ 16"
  using unsigned_less [of w, where 'a = nat] by simp

lemma unat_u32_bound: "unat (w :: u32) < 2 ^ 32"
  using unsigned_less [of w, where 'a = nat] by simp

text \<open>The scaling does not overflow where the divisions are defined, and rounds down by little.\<close>

lemma approximate_hz_ok:
  assumes n: "0 < numerator tinfo" and d: "0 < denominator tinfo" 
    and small: "unat (denominator tinfo) < 2 ^ 28"
  shows "\<exists>hz. approximate_hz oc tinfo mhz = Inr hz \<and>
    unat hz = unat mhz * 1000000 * unat (denominator tinfo) div unat (numerator tinfo) *
      unat (numerator tinfo) div unat (denominator tinfo)"
proof -
  let ?b = "unat mhz * 1000000" and ?d = "unat (denominator tinfo)" and ?n = "unat (numerator tinfo)"
  have b: "?b < 2 ^ 36" using unat_u16_bound [of mhz] by simp
  have bd: "?b * ?d < 2 ^ 64"
  proof -
    have "?b * ?d < 2 ^ 36 * 2 ^ 28"
      by (rule mult_strict_mono' [OF b small]) auto
    then show ?thesis by (simp add: power_add [symmetric])
  qed
  have cn: "?b * ?d div ?n * ?n < 2 ^ 64"
    using bd div_times_less_eq_dividend [of "?b * ?d" ?n] by linarith
  have u: "unat (ucast mhz :: u64) = unat mhz" "unat (ucast (denominator tinfo) :: u64) = ?d"
    "unat (ucast (numerator tinfo) :: u64) = ?n"
    by (simp_all add: unat_ucast_up)
  have nz: "ucast (numerator tinfo) \<noteq> (0 :: u64)" "ucast (denominator tinfo) \<noteq> (0 :: u64)"
    using n d u by (auto simp: word_unat_eq_iff word_less_nat_alt)
  note m1 = mul_oc_no_overflow [of "ucast mhz :: u64" MHZ_TO_HZ]
  note m2 = mul_oc_no_overflow [of "ucast mhz * MHZ_TO_HZ" "ucast (denominator tinfo)"]
  note m3 = mul_oc_no_overflow [of "ucast mhz * MHZ_TO_HZ * ucast (denominator tinfo) div ucast (numerator tinfo)"
      "ucast (numerator tinfo)"]
  have k: "unat MHZ_TO_HZ = 1000000" by (simp add: MHZ_TO_HZ_def)
  have 1: "unat (ucast mhz * MHZ_TO_HZ) = ?b" and one: "mul_oc oc (ucast mhz) MHZ_TO_HZ = Inr (ucast mhz * MHZ_TO_HZ)"
    using m1 b by (simp_all add: u k)
  have 2: "unat (ucast mhz * MHZ_TO_HZ * ucast (denominator tinfo)) = ?b * ?d"
    and two: "mul_oc oc (ucast mhz * MHZ_TO_HZ) (ucast (denominator tinfo)) =
      Inr (ucast mhz * MHZ_TO_HZ * ucast (denominator tinfo))"
    using m2 bd by (simp_all add: 1 u)
  show ?thesis
    using m3 cn nz by (simp add: approximate_hz_def one two 2 u div_oc_def unat_div)
qed

text \<open>Dividing and multiplying back loses less than one divisor.\<close>

lemma div_mult_close: "0 < n \<Longrightarrow> x < x div n * n + (n :: nat)"
  by (metis add.commute add_less_cancel_left div_mult_mod_eq mod_less_divisor)

subsection \<open>Properties\<close>



text \<open>
  A time stamp counter leaf that reports neither the crystal clock nor a clock ratio (numerator
  zero, which the processor may answer) stops the loader with a division by zero, in every build
  profile, as soon as the base frequency leaf is present.
\<close>

theorem detect_freq_division_by_zero:
  assumes "get_tsc_info cpuid = Some tinfo" and "tsc_frequency tinfo = None"
    and "processor_base_frequency cpuid = Some mhz" and "numerator tinfo = 0"
    and "unat (denominator tinfo) < 2 ^ 28"
  shows "detect_freq_from_cpuid oc cpuid = Inl DivByZero"
proof -
  let ?b = "unat mhz * 1000000" and ?d = "unat (denominator tinfo)"
  have b: "?b < 2 ^ 36" using unat_u16_bound [of mhz] by simp
  have "?b * ?d < 2 ^ 36 * 2 ^ 28" by (rule mult_strict_mono' [OF b assms(5)]) auto
  then have bd: "?b * ?d < 2 ^ LENGTH(64)" by (simp add: power_add [symmetric])
  have k: "unat MHZ_TO_HZ = 1000000" by (simp add: MHZ_TO_HZ_def)
  have u: "unat (ucast mhz :: u64) = unat mhz" "unat (ucast (denominator tinfo) :: u64) = ?d"
    by (simp_all add: unat_ucast_up)
  note m1 = mul_oc_no_overflow [of "ucast mhz :: u64" MHZ_TO_HZ]
  have 1: "unat (ucast mhz * MHZ_TO_HZ) = ?b" and one: "mul_oc oc (ucast mhz) MHZ_TO_HZ = Inr (ucast mhz * MHZ_TO_HZ)"
    using m1 b by (simp_all add: u k)
  have "mul_oc oc (ucast mhz * MHZ_TO_HZ) (ucast (denominator tinfo)) =
      Inr (ucast mhz * MHZ_TO_HZ * ucast (denominator tinfo))"
    by (rule mul_oc_no_overflow(1)) (use bd in \<open>simp add: 1 u\<close>)
  then show ?thesis
    using assms(1-4) by (simp add: detect_freq_from_cpuid_def tsc_frequency_hz_def approximate_hz_def one div_oc_def)
qed

theorem detect_freq_division_by_zero_witness:
  "detect_freq_from_cpuid False \<lparr>get_tsc_info = Some \<lparr>tsc_frequency = None, denominator = 0, numerator = 0\<rparr>,
     processor_base_frequency = Some 2600, hypervisor_tsc_frequency = None\<rparr> = Inl DivByZero"
  by (rule detect_freq_division_by_zero [where mhz = 2600 and tinfo = "\<lparr>tsc_frequency = None, denominator = 0, numerator = 0\<rparr>"]) simp_all

end
