(* ===== verification/Loader.thy ===== *)
theory Loader
  imports Translation Cpu_Frequency
begin

text \<open>
  The boot information block and the kernel loader of \<^verbatim>\<open>src/vm.rs\<close>. The ELF parser is the
  \<^verbatim>\<open>goblin\<close> crate: its result type and the constants the loader compares with are arguments.
\<close>

subsection \<open>The boot information block\<close>

record BootInfo =
  bi_magic_number :: u32
  bi_version :: u32
  bi_base :: u64
  bi_limit :: u64
  bi_image_size :: u64
  bi_tls_start :: u64
  bi_tls_filesz :: u64
  bi_tls_memsz :: u64
  bi_current_stack_address :: u64
  bi_current_percore_address :: u64
  bi_host_logical_addr :: u64
  bi_boot_gtod :: u64
  bi_mb_info :: u64
  bi_cmdline :: u64
  bi_cmdsize :: u64
  bi_cpu_freq :: u32
  bi_boot_processor :: u32
  bi_cpu_online :: u32
  bi_possible_cpus :: u32
  bi_current_boot_id :: u32
  bi_uartport :: u16
  bi_single_kernel :: u8
  bi_uhyve :: u8
  bi_hcip :: "u8 list"
  bi_hcgateway :: "u8 list"
  bi_hcmask :: "u8 list"

definition BootInfo_new :: BootInfo where
  "BootInfo_new = \<lparr>
     bi_magic_number = 0xC0DECAFE, bi_version = 1, bi_base = 0, bi_limit = 0, bi_image_size = 0,
     bi_tls_start = 0, bi_tls_filesz = 0, bi_tls_memsz = 0, bi_current_stack_address = 0,
     bi_current_percore_address = 0, bi_host_logical_addr = 0, bi_boot_gtod = 0, bi_mb_info = 0,
     bi_cmdline = 0, bi_cmdsize = 0, bi_cpu_freq = 0, bi_boot_processor = NOT 0, bi_cpu_online = 0,
     bi_possible_cpus = 0, bi_current_boot_id = 0, bi_uartport = 0, bi_single_kernel = 1, bi_uhyve = 0,
     bi_hcip = [255, 255, 255, 255], bi_hcgateway = [255, 255, 255, 255], bi_hcmask = [255, 255, 255, 0]\<rparr>"

text \<open>
  The C layout of the block. No field needs padding before it; the four bytes of padding behind
  the last field, which make the size a multiple of eight, carry no data and are left out.
\<close>

definition boot_info_size :: nat where [layout]: "boot_info_size = 148"

definition boot_info_bytes :: "BootInfo \<Rightarrow> u8 list" where
  "boot_info_bytes b =
     bytes_of (bi_magic_number b) @ bytes_of (bi_version b) @ bytes_of (bi_base b) @
     bytes_of (bi_limit b) @ bytes_of (bi_image_size b) @ bytes_of (bi_tls_start b) @
     bytes_of (bi_tls_filesz b) @ bytes_of (bi_tls_memsz b) @ bytes_of (bi_current_stack_address b) @
     bytes_of (bi_current_percore_address b) @ bytes_of (bi_host_logical_addr b) @
     bytes_of (bi_boot_gtod b) @ bytes_of (bi_mb_info b) @ bytes_of (bi_cmdline b) @
     bytes_of (bi_cmdsize b) @ bytes_of (bi_cpu_freq b) @ bytes_of (bi_boot_processor b) @
     bytes_of (bi_cpu_online b) @ bytes_of (bi_possible_cpus b) @ bytes_of (bi_current_boot_id b) @
     bytes_of (bi_uartport b) @ bytes_of (bi_single_kernel b) @ bytes_of (bi_uhyve b) @
     bi_hcip b @ bi_hcgateway b @ bi_hcmask b"

text \<open>Offsets of the fields the loader and the hypervisor write or read through a pointer.\<close>

definition off_base :: nat where [layout]: "off_base = 8"
definition off_limit :: nat where [layout]: "off_limit = 16"
definition off_image_size :: nat where [layout]: "off_image_size = 24"
definition off_tls_start :: nat where [layout]: "off_tls_start = 32"
definition off_tls_filesz :: nat where [layout]: "off_tls_filesz = 40"
definition off_tls_memsz :: nat where [layout]: "off_tls_memsz = 48"
definition off_current_stack_address :: nat where [layout]: "off_current_stack_address = 56"
definition off_host_logical_addr :: nat where [layout]: "off_host_logical_addr = 72"
definition off_boot_gtod :: nat where [layout]: "off_boot_gtod = 80"
definition off_cpu_freq :: nat where [layout]: "off_cpu_freq = 112"
definition off_cpu_online :: nat where [layout]: "off_cpu_online = 120"
definition off_possible_cpus :: nat where [layout]: "off_possible_cpus = 124"
definition off_current_boot_id :: nat where [layout]: "off_current_boot_id = 128"
definition off_uartport :: nat where [layout]: "off_uartport = 132"
definition off_uhyve :: nat where [layout]: "off_uhyve = 135"
definition off_hcip :: nat where [layout]: "off_hcip = 136"
definition off_hcgateway :: nat where [layout]: "off_hcgateway = 140"
definition off_hcmask :: nat where [layout]: "off_hcmask = 144"

subsection \<open>The parsed kernel file\<close>

record ProgramHeader =
  p_type :: u32
  p_offset :: u64
  p_vaddr :: u64
  p_filesz :: u64
  p_memsz :: u64

record Reloc =
  r_offset :: u64
  r_addend :: "i64 option"
  r_type :: u32

record Elf =
  e_type :: u16
  e_machine :: u16
  elf_entry :: u64
  elf_libraries :: "string list"
  program_headers :: "ProgramHeader list"
  dynrelas :: "Reloc list"

text \<open>The parser and the constants of the ELF library; \<open>'g\<close> is its error type.\<close>

record 'g goblin =
  parse_elf :: "u8 list \<Rightarrow> 'g + Elf"
  ET_DYN :: u16
  EM_X86_64 :: u16
  PT_LOAD :: u32
  PT_TLS :: u32
  R_X86_64_RELATIVE :: u32

datatype 'g LoadKernelError = Io io_error | Goblin 'g | InsufficientMemory

subsection \<open>The virtual machine as the loader sees it\<close>

record Vm =
  vm_mem :: hmem
  vm_num_cpus :: u32
  vm_offset :: u64
  vm_entry_point :: u64
  vm_boot_info :: "u64 option"
  vm_ip :: "u8 list option"
  vm_gateway :: "u8 list option"
  vm_mask :: "u8 list option"
  vm_verbose :: bool

text \<open>
  What \<^verbatim>\<open>load_kernel\<close> asks the host for: the kernel file, the seconds since the epoch
  (\<^const>\<open>None\<close> for a clock before it), the CPUID answers and two readings of the time stamp counter.
\<close>

record Host =
  host_file :: "io_error + u8 list"
  host_secs :: "u64 option"
  host_cpuid :: CpuId
  host_tsc_start :: u64
  host_tsc_end :: u64

subsection \<open>Loading one program header\<close>

definition set_offset :: "u64 \<Rightarrow> 'a Vm_scheme \<Rightarrow> 'a Vm_scheme" where
  "set_offset offset vm = vm\<lparr>vm_offset := offset\<rparr>"

definition set_entry_point :: "u64 \<Rightarrow> 'a Vm_scheme \<Rightarrow> 'a Vm_scheme" where
  "set_entry_point entry vm = vm\<lparr>vm_entry_point := entry\<rparr>"

definition set_boot_info :: "u64 \<Rightarrow> 'a Vm_scheme \<Rightarrow> 'a Vm_scheme" where
  "set_boot_info header vm = vm\<lparr>vm_boot_info := Some header\<rparr>"

text \<open>Copying into a range of guest memory: the lengths have to agree.\<close>

definition copy_from_slice :: "hmem \<Rightarrow> u64 \<Rightarrow> nat \<Rightarrow> u8 list \<Rightarrow> hmem res" where
  "copy_from_slice m a n src = (if n = length src then store_bytes m a src else Inl ExplicitPanic)"

definition load_segment ::
  "bool \<Rightarrow> bool \<Rightarrow> u64 \<Rightarrow> u8 list \<Rightarrow> u64 \<Rightarrow> hmem \<times> u64 \<Rightarrow> ProgramHeader \<Rightarrow>
     'g LoadKernelError failure + hmem \<times> u64" where
  "load_segment oc is_dyn start_address buffer boot_info st ph =
     (let (m, image_size) = st in
      and_then (panics (if is_dyn then add_oc oc start_address (p_vaddr ph) else Inr (p_vaddr ph))) (\<lambda>region_start.
      and_then (panics (add_oc oc region_start (p_filesz ph))) (\<lambda>region_end.
      let kernel_start = p_offset ph in
      and_then (panics (add_oc oc kernel_start (p_filesz ph))) (\<lambda>kernel_end.
      and_then (panics (add_oc oc region_start (p_memsz ph))) (\<lambda>mem_end.
      if mem_end > mem_size m then Inl (Err InsufficientMemory)
      else
        and_then (panics (slice_range (unat region_start) (unat region_end) (unat (mem_size m)))) (\<lambda>_.
        and_then (panics (slice_range (unat kernel_start) (unat kernel_end) (length buffer))) (\<lambda>_.
        and_then (panics (copy_from_slice m (mem_base m + region_start) (unat region_end - unat region_start)
            (take (unat kernel_end - unat kernel_start) (drop (unat kernel_start) buffer)))) (\<lambda>m.
        and_then (panics (sub_oc oc (p_memsz ph) (p_filesz ph))) (\<lambda>bss.
        and_then (panics (add_oc oc region_end bss)) (\<lambda>bss_end.
        and_then (panics (slice_range (unat region_end) (unat bss_end) (unat (mem_size m)))) (\<lambda>_.
        and_then (panics (store_bytes m (mem_base m + region_end) (replicate (unat bss_end - unat region_end) 0))) (\<lambda>m.
        and_then (panics (if is_dyn then add_oc oc (p_vaddr ph) (p_memsz ph)
            else add_oc oc image_size (p_memsz ph))) (\<lambda>image_size.
        and_then (panics (write_fields m boot_info [(off_image_size, bytes_of image_size)])) (\<lambda>m.
        Inr (m, image_size)))))))))))))))"

definition load_tls ::
  "bool \<Rightarrow> bool \<Rightarrow> u64 \<Rightarrow> u64 \<Rightarrow> hmem \<times> u64 \<Rightarrow> ProgramHeader \<Rightarrow>
     'g LoadKernelError failure + hmem \<times> u64" where
  "load_tls oc is_dyn start_address boot_info st ph =
     (let (m, image_size) = st in
      and_then (panics (if is_dyn then add_oc oc start_address (p_vaddr ph) else Inr (p_vaddr ph))) (\<lambda>tls_start.
      and_then (panics (write_fields m boot_info
        [(off_tls_start, bytes_of tls_start), (off_tls_filesz, bytes_of (p_filesz ph)),
         (off_tls_memsz, bytes_of (p_memsz ph))])) (\<lambda>m.
      Inr (m, image_size))))"

definition load_program_header ::
  "'g goblin \<Rightarrow> bool \<Rightarrow> bool \<Rightarrow> u64 \<Rightarrow> u8 list \<Rightarrow> u64 \<Rightarrow> hmem \<times> u64 \<Rightarrow> ProgramHeader \<Rightarrow>
     'g LoadKernelError failure + hmem \<times> u64" where
  "load_program_header gob oc is_dyn start_address buffer boot_info st ph =
     (if p_type ph = PT_LOAD gob then load_segment oc is_dyn start_address buffer boot_info st ph
      else if p_type ph = PT_TLS gob then load_tls oc is_dyn start_address boot_info st ph
      else Inr st)"

definition apply_rela :: "'g goblin \<Rightarrow> bool \<Rightarrow> u64 \<Rightarrow> hmem \<Rightarrow> Reloc \<Rightarrow> hmem res" where
  "apply_rela gob oc start_address m rela =
     (if r_type rela = R_X86_64_RELATIVE gob then
        and_then (add_oc oc (mem_base m) start_address) (\<lambda>a.
        and_then (add_oc oc a (r_offset rela)) (\<lambda>offset.
        and_then (sadd_oc oc start_address (case r_addend rela of Some d \<Rightarrow> d | None \<Rightarrow> 0)) (\<lambda>v.
        store m offset v)))
      else Inr m)"

subsection \<open>Loading the kernel\<close>

definition forward_address :: "u8 list option \<Rightarrow> nat \<Rightarrow> (nat \<times> u8 list) list" where
  "forward_address addr off = (case addr of None \<Rightarrow> [] | Some octets \<Rightarrow> [(off, octets)])"

definition load_kernel ::
  "'g goblin \<Rightarrow> bool \<Rightarrow> bool \<Rightarrow> Host \<Rightarrow> 'a Vm_scheme \<Rightarrow> 'g LoadKernelError failure + 'a Vm_scheme" where
  "load_kernel gob oc linux host vm =
     and_then (case host_file host of Inl e \<Rightarrow> Inl (Err (Io e)) | Inr b \<Rightarrow> Inr b) (\<lambda>buffer.
     and_then (case parse_elf gob buffer of Inl e \<Rightarrow> Inl (Err (Goblin e)) | Inr e \<Rightarrow> Inr e) (\<lambda>elf.
     if elf_libraries elf \<noteq> [] then Inl (Err (Io InvalidData))
     else
       let is_dyn = (e_type elf = ET_DYN gob) in
       if e_machine elf \<noteq> EM_X86_64 gob then Inl (Err (Io InvalidData))
       else
         let m = vm_mem vm; boot_info = mem_base m + BOOT_INFO_ADDR in
         and_then (panics (store_bytes m boot_info (boot_info_bytes BootInfo_new))) (\<lambda>m.
         and_then (panics (write_fields m boot_info
           (forward_address (vm_ip vm) off_hcip @ forward_address (vm_gateway vm) off_hcgateway @
            forward_address (vm_mask vm) off_hcmask))) (\<lambda>m.
         and_then (panics (if is_dyn then map_ok (Pair 0x400000) (add_oc oc 0x400000 (elf_entry elf))
           else Inr (0x800000, elf_entry elf))) (\<lambda>(start_address, entry).
         let vm = set_boot_info boot_info (set_entry_point entry (set_offset start_address vm)) in
         and_then (panics (sub_oc oc start_address KERNEL_STACK_SIZE)) (\<lambda>stack.
         and_then (panics (write_fields m boot_info
           [(off_base, bytes_of start_address), (off_limit, bytes_of (mem_size m)),
            (off_possible_cpus, bytes_of (1 :: u32)),
            (off_uhyve, bytes_of (if linux then 0x3 else 0x1 :: u8)),
            (off_current_boot_id, bytes_of (0 :: u32)),
            (off_uartport, bytes_of (if vm_verbose vm then UHYVE_UART_PORT else 0)),
            (off_current_stack_address, bytes_of stack),
            (off_host_logical_addr, bytes_of (mem_base m))])) (\<lambda>m.
         and_then (panics (unwrap (host_secs host))) (\<lambda>secs.
         and_then (panics (mul_oc oc secs 1000000)) (\<lambda>gtod.
         and_then (panics (write_fields m boot_info [(off_boot_gtod, bytes_of gtod)])) (\<lambda>m.
         and_then (panics (detect_mhz oc (host_cpuid host) (host_tsc_start host) (host_tsc_end host))) (\<lambda>mhz.
         and_then (panics (write_fields m boot_info [(off_cpu_freq, bytes_of mhz)])) (\<lambda>m.
         and_then (for_each (load_program_header gob oc is_dyn start_address buffer boot_info) (m, 0)
             (program_headers elf)) (\<lambda>(m, image_size).
         and_then (panics (for_each (apply_rela gob oc start_address) m (dynrelas elf))) (\<lambda>m.
         Inr (vm\<lparr>vm_mem := m\<rparr>)))))))))))))))"

subsection \<open>The boot information block in memory\<close>

definition bi_wf :: "BootInfo \<Rightarrow> bool" where
  "bi_wf b \<longleftrightarrow> length (bi_hcip b) = 4 \<and> length (bi_hcgateway b) = 4 \<and> length (bi_hcmask b) = 4"

definition header_at :: "hmem \<Rightarrow> BootInfo \<Rightarrow> bool" where
  "header_at m b \<longleftrightarrow> bi_wf b \<and>
     load_bytes m (mem_base m + BOOT_INFO_ADDR) boot_info_size = Inr (boot_info_bytes b)"

lemma length_boot_info_bytes: "bi_wf b \<Longrightarrow> length (boot_info_bytes b) = boot_info_size"
  by (simp add: bi_wf_def boot_info_bytes_def layout)

lemma boot_info_splice:
  assumes "bi_wf b"
  shows "splice off_base (bytes_of v) (boot_info_bytes b) = boot_info_bytes (b\<lparr>bi_base := v\<rparr>)"
    and "splice off_limit (bytes_of v) (boot_info_bytes b) = boot_info_bytes (b\<lparr>bi_limit := v\<rparr>)"
    and "splice off_image_size (bytes_of v) (boot_info_bytes b) = boot_info_bytes (b\<lparr>bi_image_size := v\<rparr>)"
    and "splice off_tls_start (bytes_of v) (boot_info_bytes b) = boot_info_bytes (b\<lparr>bi_tls_start := v\<rparr>)"
    and "splice off_tls_filesz (bytes_of v) (boot_info_bytes b) = boot_info_bytes (b\<lparr>bi_tls_filesz := v\<rparr>)"
    and "splice off_tls_memsz (bytes_of v) (boot_info_bytes b) = boot_info_bytes (b\<lparr>bi_tls_memsz := v\<rparr>)"
    and "splice off_current_stack_address (bytes_of v) (boot_info_bytes b) =
      boot_info_bytes (b\<lparr>bi_current_stack_address := v\<rparr>)"
    and "splice off_host_logical_addr (bytes_of v) (boot_info_bytes b) =
      boot_info_bytes (b\<lparr>bi_host_logical_addr := v\<rparr>)"
    and "splice off_boot_gtod (bytes_of v) (boot_info_bytes b) = boot_info_bytes (b\<lparr>bi_boot_gtod := v\<rparr>)"
    and "splice off_cpu_freq (bytes_of w) (boot_info_bytes b) = boot_info_bytes (b\<lparr>bi_cpu_freq := w\<rparr>)"
    and "splice off_cpu_online (bytes_of w) (boot_info_bytes b) = boot_info_bytes (b\<lparr>bi_cpu_online := w\<rparr>)"
    and "splice off_possible_cpus (bytes_of w) (boot_info_bytes b) = boot_info_bytes (b\<lparr>bi_possible_cpus := w\<rparr>)"
    and "splice off_current_boot_id (bytes_of w) (boot_info_bytes b) =
      boot_info_bytes (b\<lparr>bi_current_boot_id := w\<rparr>)"
    and "splice off_uartport (bytes_of h) (boot_info_bytes b) = boot_info_bytes (b\<lparr>bi_uartport := h\<rparr>)"
    and "splice off_uhyve (bytes_of c) (boot_info_bytes b) = boot_info_bytes (b\<lparr>bi_uhyve := c\<rparr>)"
  using assms by (simp_all add: splice_def boot_info_bytes_def layout bi_wf_def)

lemma boot_info_splice_octets:
  assumes "bi_wf b" and "length octets = 4"
  shows "splice off_hcip octets (boot_info_bytes b) = boot_info_bytes (b\<lparr>bi_hcip := octets\<rparr>)"
    and "splice off_hcgateway octets (boot_info_bytes b) = boot_info_bytes (b\<lparr>bi_hcgateway := octets\<rparr>)"
    and "splice off_hcmask octets (boot_info_bytes b) = boot_info_bytes (b\<lparr>bi_hcmask := octets\<rparr>)"
  using assms by (simp_all add: splice_def boot_info_bytes_def layout bi_wf_def)

lemma write_header:
  assumes "mem_wf m" and "header_at m b" and "bi_wf b'"
    and "\<And>k bs. (k, bs) \<in> set ws \<Longrightarrow> k + length bs \<le> boot_info_size"
    and "fold (\<lambda>(k, bs). splice k bs) ws (boot_info_bytes b) = boot_info_bytes b'"
  shows "\<exists>m'. write_fields m (mem_base m + BOOT_INFO_ADDR) ws = Inr m' \<and> header_at m' b' \<and>
    same_outside (mem_base m + BOOT_INFO_ADDR) boot_info_size m m'"
proof -
  obtain m' where "write_fields m (mem_base m + BOOT_INFO_ADDR) ws = Inr m'"
    and "load_bytes m' (mem_base m + BOOT_INFO_ADDR) boot_info_size = Inr (boot_info_bytes b')"
    and so: "same_outside (mem_base m + BOOT_INFO_ADDR) boot_info_size m m'"
    using write_fields_splices [OF assms(1), of "mem_base m + BOOT_INFO_ADDR" boot_info_size "boot_info_bytes b" ws]
      assms(2,4,5) by (auto simp: header_at_def)
  then show ?thesis using assms(3) same_outsideD(2) [OF so] by (auto simp: header_at_def)
qed

subsection \<open>Well-formed kernels\<close>

text \<open>
  Where a segment goes, what it should contain, and when it fits: inside the file, inside guest
  memory, clear of the boot information block. These are the conditions on the kernel file under
  which the loader is meant to work.
\<close>

definition seg_base :: "bool \<Rightarrow> u64 \<Rightarrow> ProgramHeader \<Rightarrow> nat" where
  "seg_base is_dyn start ph = (if is_dyn then unat start + unat (p_vaddr ph) else unat (p_vaddr ph))"

definition seg_image :: "u8 list \<Rightarrow> ProgramHeader \<Rightarrow> u8 list" where
  "seg_image buffer ph =
     take (unat (p_filesz ph)) (drop (unat (p_offset ph)) buffer) @
     replicate (unat (p_memsz ph) - unat (p_filesz ph)) 0"

definition clear_of_header :: "nat \<Rightarrow> nat \<Rightarrow> bool" where
  "clear_of_header a n \<longleftrightarrow> a + n \<le> unat BOOT_INFO_ADDR \<or> unat BOOT_INFO_ADDR + boot_info_size \<le> a"

definition segment_ok :: "bool \<Rightarrow> u64 \<Rightarrow> u8 list \<Rightarrow> nat \<Rightarrow> ProgramHeader \<Rightarrow> bool" where
  "segment_ok is_dyn start buffer msize ph \<longleftrightarrow>
     unat (p_filesz ph) \<le> unat (p_memsz ph) \<and>
     unat (p_offset ph) + unat (p_filesz ph) \<le> length buffer \<and>
     seg_base is_dyn start ph + unat (p_memsz ph) \<le> msize \<and>
     clear_of_header (seg_base is_dyn start ph) (unat (p_memsz ph))"

definition header_step :: "'g goblin \<Rightarrow> bool \<Rightarrow> u64 \<Rightarrow> ProgramHeader \<Rightarrow> BootInfo \<Rightarrow> BootInfo" where
  "header_step gob is_dyn start ph b =
     (if p_type ph = PT_LOAD gob then
        b\<lparr>bi_image_size := (if is_dyn then p_vaddr ph + p_memsz ph else bi_image_size b + p_memsz ph)\<rparr>
      else if p_type ph = PT_TLS gob then
        b\<lparr>bi_tls_start := (if is_dyn then start + p_vaddr ph else p_vaddr ph),
          bi_tls_filesz := p_filesz ph, bi_tls_memsz := p_memsz ph\<rparr>
      else b)"

text \<open>Memory \<open>m\<close> was changed inside the header and inside one more range only.\<close>

lemma apart_header:
  assumes "mem_wf m" and "a + n \<le> unat (mem_size m)" and "clear_of_header a n"
    and "unat BOOT_INFO_ADDR + boot_info_size \<le> unat (mem_size m)"
  shows "apart (mem_base m + of_nat a) n (mem_base m + BOOT_INFO_ADDR) boot_info_size"
proof -
  have "a < 2 ^ LENGTH(64)" using assms(1,2) by (simp add: mem_wf_def)
  then have "unat (of_nat a :: u64) = a" by (rule unat_of_nat_less)
  then show ?thesis
    using assms by (intro phys_apart) (auto simp: clear_of_header_def)
qed

lemma load_segment_ok:
  assumes wf: "mem_wf m" and hd: "header_at m b" and ok: "segment_ok is_dyn start buffer (unat (mem_size m)) ph"
    and hsize: "unat BOOT_INFO_ADDR + boot_info_size \<le> unat (mem_size m)"
    and buf: "length buffer < 2 ^ 64"
    and img: "\<not> is_dyn \<Longrightarrow> unat (bi_image_size b) + unat (p_memsz ph) < 2 ^ 64"
  defines "a \<equiv> mem_base m + of_nat (seg_base is_dyn start ph)"
    and "b' \<equiv> b\<lparr>bi_image_size := (if is_dyn then p_vaddr ph + p_memsz ph else bi_image_size b + p_memsz ph)\<rparr>"
  shows "\<exists>m'. load_segment oc is_dyn start buffer (mem_base m + BOOT_INFO_ADDR) (m, bi_image_size b) ph =
      Inr (m', bi_image_size b') \<and> header_at m' b' \<and>
    load_bytes m' a (unat (p_memsz ph)) = Inr (seg_image buffer ph) \<and>
    mem_wf m' \<and> mem_base m' = mem_base m \<and> mem_size m' = mem_size m \<and>
    (\<forall>c n. apart a (unat (p_memsz ph)) c n \<longrightarrow>
       apart (mem_base m + BOOT_INFO_ADDR) boot_info_size c n \<longrightarrow> load_bytes m' c n = load_bytes m c n)"
proof -
  let ?rs = "of_nat (seg_base is_dyn start ph) :: u64"
  let ?fs = "p_filesz ph" and ?ms = "p_memsz ph" and ?off = "p_offset ph"
  have size: "unat (mem_base m) + unat (mem_size m) < 2 ^ 64" using wf by (simp add: mem_wf_def)
  have fm: "unat ?fs \<le> unat ?ms" and infile: "unat ?off + unat ?fs \<le> length buffer"
    and fits: "seg_base is_dyn start ph + unat ?ms \<le> unat (mem_size m)"
    and clear: "clear_of_header (seg_base is_dyn start ph) (unat ?ms)"
    using ok by (auto simp: segment_ok_def)
  have rs: "unat ?rs = seg_base is_dyn start ph"
    using fits size by (intro unat_of_nat_less) simp
  have rs_eq: "(if is_dyn then add_oc oc start (p_vaddr ph) else Inr (p_vaddr ph)) = Inr ?rs"
    using fits size by (auto simp: seg_base_def add_oc_def)
  have "unat ?rs + unat ?fs < 2 ^ LENGTH(64)" using fits fm size rs by simp
  note re = add_oc_no_overflow [OF this, of oc] and ure = unat_add_no_overflow [OF this]
  have "unat ?off + unat ?fs < 2 ^ LENGTH(64)" using infile buf by simp
  note ke = add_oc_no_overflow [OF this, of oc] and uke = unat_add_no_overflow [OF this]
  have "unat ?rs + unat ?ms < 2 ^ LENGTH(64)" using fits size rs by simp
  note me = add_oc_no_overflow [OF this, of oc] and ume = unat_add_no_overflow [OF this]
  have bss: "sub_oc oc ?ms ?fs = Inr (?ms - ?fs)" and ubss: "unat (?ms - ?fs) = unat ?ms - unat ?fs"
    using fm by (auto simp: sub_oc_def word_le_nat_alt unat_sub not_less)
  have be: "add_oc oc (?rs + ?fs) (?ms - ?fs) = Inr (?rs + ?ms)"
    using add_oc_no_overflow [of "?rs + ?fs" "?ms - ?fs" oc] fits fm size rs ure ubss by simp
  have imgsz: "(if is_dyn then add_oc oc (p_vaddr ph) ?ms else add_oc oc (bi_image_size b) ?ms) =
      Inr (bi_image_size b')"
    using img fits size by (cases is_dyn) (auto simp: b'_def seg_base_def add_oc_def)
  have "in_mem m a (unat ?ms)"
    unfolding a_def using phys_in_mem(2) [OF wf] fits rs by simp
  then obtain old where old: "load_bytes m a (unat ?ms) = Inr old" and len: "length old = unat ?ms"
    using gm.rd_ok_iff gm.rd_length by metis
  let ?file = "take (unat ?fs) (drop (unat ?off) buffer)"
  let ?zero = "replicate (unat ?ms - unat ?fs) (0 :: u8)"
  have lf: "length ?file = unat ?fs" using infile by simp
  obtain m1 where m1: "store_bytes m (a + of_nat 0) ?file = Inr m1"
    and l1: "load_bytes m1 a (unat ?ms) = Inr (splice 0 ?file old)" and s1: "same_outside a (unat ?ms) m m1"
    using store_bytes_splice [OF wf old, of 0 ?file] fm lf by auto
  have wf1: "mem_wf m1" using same_outsideD(1) [OF s1] wf by simp
  obtain m2 where m2: "store_bytes m1 (a + of_nat (unat ?fs)) ?zero = Inr m2"
    and l2: "load_bytes m2 a (unat ?ms) = Inr (splice (unat ?fs) ?zero (splice 0 ?file old))"
    and s2: "same_outside a (unat ?ms) m1 m2"
    using store_bytes_splice [OF wf1 l1, of "unat ?fs" ?zero] fm by auto
  have s12: "same_outside a (unat ?ms) m m2" using s1 s2 by (rule same_outside_trans)
  note so = same_outsideD [OF s12]
  have image: "load_bytes m2 a (unat ?ms) = Inr (seg_image buffer ph)"
    using l2 lf fm len by (simp add: splice_def seg_image_def)
  have sep: "apart a (unat ?ms) (mem_base m + BOOT_INFO_ADDR) boot_info_size"
    unfolding a_def by (rule apart_header [OF wf fits clear hsize])
  have hd2: "header_at m2 b"
    using hd so(5) [OF sep] so(2) by (simp add: header_at_def)
  have wf2: "mem_wf m2" and wfb: "bi_wf b" and wfb': "bi_wf b'"
    using so(1) wf hd by (auto simp: header_at_def bi_wf_def b'_def)
  let ?ws = "[(off_image_size, bytes_of (bi_image_size b'))]"
  have ws: "k + length bs \<le> boot_info_size" if "(k, bs) \<in> set ?ws" for k bs
    using that by (simp add: layout)
  have "fold (\<lambda>(k, bs). splice k bs) ?ws (boot_info_bytes b) = boot_info_bytes b'"
    using boot_info_splice(3) [OF wfb] by (simp add: b'_def)
  from write_header [OF wf2 hd2 wfb' ws this] obtain m3 where
    m3: "write_fields m2 (mem_base m + BOOT_INFO_ADDR) ?ws = Inr m3"
    and hd3: "header_at m3 b'" and s3: "same_outside (mem_base m + BOOT_INFO_ADDR) boot_info_size m2 m3"
    unfolding so(2) by blast
  note so3 = same_outsideD [OF s3]
  have b1: "mem_base m1 = mem_base m" "mem_size m1 = mem_size m"
    using same_outsideD(2,3) [OF s1] by simp_all
  have "load_segment oc is_dyn start buffer (mem_base m + BOOT_INFO_ADDR) (m, bi_image_size b) ph =
      Inr (m3, bi_image_size b')"
  proof -
    have "store_bytes m1 (mem_base m + (?rs + ?fs)) ?zero = Inr m2"
      using m2 by (simp add: a_def add.assoc)
    moreover have "\<not> mem_size m < ?rs + ?ms" "unat ?rs + unat ?ms - (unat ?rs + unat ?fs) = unat ?ms - unat ?fs"
      using fits rs ume by (auto simp: word_less_nat_alt)
    ultimately show ?thesis
      using m1 m3 fits fm infile rs lf b1
      by (simp add: load_segment_def rs_eq re ke me bss be imgsz ure uke ume slice_range_def copy_from_slice_def
          a_def)
  qed
  moreover have "load_bytes m3 a (unat ?ms) = Inr (seg_image buffer ph)"
    using so3(5) [of a "unat ?ms"] sep image by (simp add: apart_def disj_commute)
  moreover have "load_bytes m3 c n = load_bytes m c n"
    if "apart a (unat ?ms) c n" "apart (mem_base m + BOOT_INFO_ADDR) boot_info_size c n" for c n
    using so3(5) [OF that(2)] so(5) [OF that(1)] by simp
  ultimately show ?thesis
    using hd3 so so3 wf by auto
qed

lemma load_tls_ok:
  assumes wf: "mem_wf m" and hd: "header_at m b"
    and tls: "is_dyn \<Longrightarrow> unat start + unat (p_vaddr ph) < 2 ^ 64"
  defines "b' \<equiv> b\<lparr>bi_tls_start := (if is_dyn then start + p_vaddr ph else p_vaddr ph),
      bi_tls_filesz := p_filesz ph, bi_tls_memsz := p_memsz ph\<rparr>"
  shows "\<exists>m'. load_tls oc is_dyn start (mem_base m + BOOT_INFO_ADDR) (m, bi_image_size b) ph =
      Inr (m', bi_image_size b) \<and> header_at m' b' \<and>
      same_outside (mem_base m + BOOT_INFO_ADDR) boot_info_size m m'"
proof -
  have wfb: "bi_wf b" and wfb': "bi_wf b'" using hd by (auto simp: header_at_def bi_wf_def b'_def)
  let ?ws = "[(off_tls_start, bytes_of (bi_tls_start b')), (off_tls_filesz, bytes_of (p_filesz ph)),
      (off_tls_memsz, bytes_of (p_memsz ph))]"
  have ws: "k + length bs \<le> boot_info_size" if "(k, bs) \<in> set ?ws" for k bs
    using that by (auto simp: layout)
  have *: "bi_wf (b\<lparr>bi_tls_start := x\<rparr>)" "bi_wf (b\<lparr>bi_tls_start := x, bi_tls_filesz := y\<rparr>)" for x y
    using wfb by (simp_all add: bi_wf_def)
  have "fold (\<lambda>(k, bs). splice k bs) ?ws (boot_info_bytes b) = boot_info_bytes b'"
    using boot_info_splice(4) [OF wfb] boot_info_splice(5) [OF *(1)] boot_info_splice(6) [OF *(2)]
    by (simp add: b'_def)
  from write_header [OF wf hd wfb' ws this] obtain m' where
    "write_fields m (mem_base m + BOOT_INFO_ADDR) ?ws = Inr m'" "header_at m' b'"
    "same_outside (mem_base m + BOOT_INFO_ADDR) boot_info_size m m'"
    by blast
  moreover have "(if is_dyn then add_oc oc start (p_vaddr ph) else Inr (p_vaddr ph)) = Inr (bi_tls_start b')"
    using tls by (auto simp: b'_def add_oc_def)
  ultimately show ?thesis by (auto simp: load_tls_def)
qed

subsection \<open>Loading all program headers\<close>

definition seg_addr :: "hmem \<Rightarrow> bool \<Rightarrow> u64 \<Rightarrow> ProgramHeader \<Rightarrow> u64" where
  "seg_addr m is_dyn start ph = mem_base m + of_nat (seg_base is_dyn start ph)"

definition seg_disjoint :: "bool \<Rightarrow> u64 \<Rightarrow> ProgramHeader \<Rightarrow> ProgramHeader \<Rightarrow> bool" where
  "seg_disjoint is_dyn start p q \<longleftrightarrow>
     seg_base is_dyn start p + unat (p_memsz p) \<le> seg_base is_dyn start q \<or>
     seg_base is_dyn start q + unat (p_memsz q) \<le> seg_base is_dyn start p"

definition loads :: "'g goblin \<Rightarrow> ProgramHeader list \<Rightarrow> ProgramHeader list" where
  "loads gob phs = filter (\<lambda>ph. p_type ph = PT_LOAD gob) phs"

definition header_ok :: "'g goblin \<Rightarrow> bool \<Rightarrow> u64 \<Rightarrow> u8 list \<Rightarrow> nat \<Rightarrow> ProgramHeader \<Rightarrow> bool" where
  "header_ok gob is_dyn start buffer msize ph \<longleftrightarrow>
     (if p_type ph = PT_LOAD gob then segment_ok is_dyn start buffer msize ph
      else p_type ph = PT_TLS gob \<longrightarrow> is_dyn \<longrightarrow> unat start + unat (p_vaddr ph) < 2 ^ 64)"

text \<open>
  Memory \<open>m'\<close> is \<open>m\<close> with the segments of \<open>phs\<close> loaded and nothing else changed outside the boot
  information block.
\<close>

definition loaded :: "'g goblin \<Rightarrow> bool \<Rightarrow> u64 \<Rightarrow> u8 list \<Rightarrow> ProgramHeader list \<Rightarrow> hmem \<Rightarrow> hmem \<Rightarrow> bool" where
  "loaded gob is_dyn start buffer phs m m' \<longleftrightarrow>
     mem_wf m' \<and> mem_base m' = mem_base m \<and> mem_size m' = mem_size m \<and>
     (\<forall>p \<in> set (loads gob phs).
        load_bytes m' (seg_addr m is_dyn start p) (unat (p_memsz p)) = Inr (seg_image buffer p)) \<and>
     (\<forall>c n. (\<forall>p \<in> set (loads gob phs). apart (seg_addr m is_dyn start p) (unat (p_memsz p)) c n) \<longrightarrow>
        apart (mem_base m + BOOT_INFO_ADDR) boot_info_size c n \<longrightarrow> load_bytes m' c n = load_bytes m c n)"

lemma load_program_header_ok:
  assumes wf: "mem_wf m" and hd: "header_at m b" and ok: "header_ok gob is_dyn start buffer (unat (mem_size m)) ph"
    and hsize: "unat BOOT_INFO_ADDR + boot_info_size \<le> unat (mem_size m)"
    and buf: "length buffer < 2 ^ 64"
    and img: "\<not> is_dyn \<Longrightarrow> p_type ph = PT_LOAD gob \<Longrightarrow> unat (bi_image_size b) + unat (p_memsz ph) < 2 ^ 64"
  shows "\<exists>m'. load_program_header gob oc is_dyn start buffer (mem_base m + BOOT_INFO_ADDR) (m, bi_image_size b) ph =
      Inr (m', bi_image_size (header_step gob is_dyn start ph b)) \<and>
    header_at m' (header_step gob is_dyn start ph b) \<and> loaded gob is_dyn start buffer [ph] m m'"
proof (cases "p_type ph = PT_LOAD gob")
  case True
  then show ?thesis
    using load_segment_ok [OF wf hd _ hsize buf, of is_dyn start ph oc] ok img
    by (auto simp: header_ok_def header_step_def load_program_header_def loads_def seg_addr_def loaded_def
        split del: if_split)
next
  case False
  then show ?thesis
    using load_tls_ok [OF wf hd, of is_dyn start ph oc] ok wf hd
    by (auto simp: header_ok_def header_step_def load_program_header_def loads_def same_outside_def loaded_def)
qed

lemma seg_apart:
  assumes "mem_wf m" and "segment_ok is_dyn start buffer (unat (mem_size m)) p"
    and "segment_ok is_dyn start buffer (unat (mem_size m)) q" and "seg_disjoint is_dyn start p q"
  shows "apart (seg_addr m is_dyn start q) (unat (p_memsz q)) (seg_addr m is_dyn start p) (unat (p_memsz p))"
proof -
  have "unat (of_nat (seg_base is_dyn start r) :: u64) = seg_base is_dyn start r"
    if "segment_ok is_dyn start buffer (unat (mem_size m)) r" for r
    using that assms(1) by (intro unat_of_nat_less) (simp add: segment_ok_def mem_wf_def)
  then show ?thesis
    using assms unfolding seg_addr_def
    by (intro phys_apart) (auto simp: segment_ok_def seg_disjoint_def)
qed

lemma loaded_Cons:
  assumes wf: "mem_wf m" and ok: "\<And>p. p \<in> set (loads gob (ph # phs)) \<Longrightarrow> segment_ok is_dyn start buffer (unat (mem_size m)) p"
    and hsize: "unat BOOT_INFO_ADDR + boot_info_size \<le> unat (mem_size m)"
    and disjoint: "sorted_wrt (seg_disjoint is_dyn start) (loads gob (ph # phs))"
    and 1: "loaded gob is_dyn start buffer [ph] m m1" and 2: "loaded gob is_dyn start buffer phs m1 m2"
  shows "loaded gob is_dyn start buffer (ph # phs) m m2"
proof -
  have addr: "seg_addr m1 = seg_addr m" "mem_base m1 = mem_base m"
    using 1 by (auto simp: loaded_def seg_addr_def fun_eq_iff)
  have first: "load_bytes m2 (seg_addr m is_dyn start ph) (unat (p_memsz ph)) = Inr (seg_image buffer ph)"
    if load: "p_type ph = PT_LOAD gob"
  proof -
    have "apart (seg_addr m is_dyn start q) (unat (p_memsz q)) (seg_addr m is_dyn start ph) (unat (p_memsz ph))"
      if "q \<in> set (loads gob phs)" for q
      using seg_apart [OF wf ok ok, of ph q] disjoint load that by (auto simp: loads_def)
    moreover have "apart (mem_base m + BOOT_INFO_ADDR) boot_info_size (seg_addr m is_dyn start ph) (unat (p_memsz ph))"
      using apart_header [OF wf _ _ hsize, of "seg_base is_dyn start ph" "unat (p_memsz ph)"]
        ok [of ph] load by (auto simp: segment_ok_def loads_def apart_def seg_addr_def)
    ultimately show ?thesis
      using 1 2 load unfolding loaded_def addr by (auto simp: loads_def)
  qed
  show ?thesis
    using 1 2 first unfolding loaded_def addr by (auto simp: loads_def split: if_splits)
qed

lemma load_headers_ok:
  assumes "mem_wf m" and "header_at m b"
    and "\<And>ph. ph \<in> set phs \<Longrightarrow> header_ok gob is_dyn start buffer (unat (mem_size m)) ph"
    and hsize: "unat BOOT_INFO_ADDR + boot_info_size \<le> unat (mem_size m)"
    and buf: "length buffer < 2 ^ 64"
    and "\<not> is_dyn \<Longrightarrow> unat (bi_image_size b) + sum_list (map (\<lambda>p. unat (p_memsz p)) (loads gob phs)) < 2 ^ 64"
    and "sorted_wrt (seg_disjoint is_dyn start) (loads gob phs)"
  shows "\<exists>m' b'. for_each (load_program_header gob oc is_dyn start buffer (mem_base m + BOOT_INFO_ADDR))
      (m, bi_image_size b) phs = Inr (m', bi_image_size b') \<and> b' = fold (header_step gob is_dyn start) phs b \<and>
    header_at m' b' \<and> loaded gob is_dyn start buffer phs m m'"
  using assms(1-4,6,7)
proof (induction phs arbitrary: m b)
  case (Cons ph phs)
  let ?b1 = "header_step gob is_dyn start ph b"
  have img: "unat (bi_image_size b) + unat (p_memsz ph) < 2 ^ 64" if "\<not> is_dyn" "p_type ph = PT_LOAD gob"
    using Cons.prems(5) that by (simp add: loads_def)
  have ok: "header_ok gob is_dyn start buffer (unat (mem_size m)) ph" using Cons.prems(3) by simp
  obtain m1 where m1: "load_program_header gob oc is_dyn start buffer (mem_base m + BOOT_INFO_ADDR)
        (m, bi_image_size b) ph = Inr (m1, bi_image_size ?b1)"
    and hd1: "header_at m1 ?b1" and l1: "loaded gob is_dyn start buffer [ph] m m1"
    using load_program_header_ok [OF Cons.prems(1,2) ok Cons.prems(4) buf img, of oc] by blast
  have wf1: "mem_wf m1" and base1: "mem_base m1 = mem_base m" "mem_size m1 = mem_size m"
    using l1 by (simp_all add: loaded_def)
  have sz: "unat (bi_image_size ?b1) + sum_list (map (\<lambda>p. unat (p_memsz p)) (loads gob phs)) < 2 ^ 64" if "\<not> is_dyn"
    using Cons.prems(5) that unat_add_no_overflow [of "bi_image_size b" "p_memsz ph"]
    by (auto simp: header_step_def loads_def)
  have ok1: "header_ok gob is_dyn start buffer (unat (mem_size m1)) p" if "p \<in> set phs" for p
    using Cons.prems(3) that by (simp add: base1)
  have hsize1: "unat BOOT_INFO_ADDR + boot_info_size \<le> unat (mem_size m1)"
    using Cons.prems(4) by (simp add: base1)
  have sorted: "sorted_wrt (seg_disjoint is_dyn start) (loads gob phs)"
    using Cons.prems(6) by (simp add: loads_def split: if_splits)
  obtain m' b' where m': "for_each (load_program_header gob oc is_dyn start buffer (mem_base m + BOOT_INFO_ADDR))
        (m1, bi_image_size ?b1) phs = Inr (m', bi_image_size b')"
    and b': "b' = fold (header_step gob is_dyn start) phs ?b1" and hd': "header_at m' b'"
    and l': "loaded gob is_dyn start buffer phs m1 m'"
    using Cons.IH [OF wf1 hd1 ok1 hsize1 sz sorted] unfolding base1 by blast
  have segs: "segment_ok is_dyn start buffer (unat (mem_size m)) p" if "p \<in> set (loads gob (ph # phs))" for p
    using Cons.prems(3) [of p] that by (auto simp: loads_def header_ok_def split: if_splits)
  have "loaded gob is_dyn start buffer (ph # phs) m m'"
    by (rule loaded_Cons [OF Cons.prems(1) segs Cons.prems(4,6) l1 l'])
  with m1 m' b' hd' show ?case by auto
qed (simp add: loads_def loaded_def)

subsection \<open>Relocations\<close>

definition rela_target :: "u64 \<Rightarrow> Reloc \<Rightarrow> nat" where
  "rela_target start r = unat start + unat (r_offset r)"

definition rela_value :: "u64 \<Rightarrow> Reloc \<Rightarrow> u64" where
  "rela_value start r = start + (case r_addend r of Some d \<Rightarrow> d | None \<Rightarrow> 0)"

definition relas :: "'g goblin \<Rightarrow> Elf \<Rightarrow> Reloc list" where
  "relas gob elf = filter (\<lambda>r. r_type r = R_X86_64_RELATIVE gob) (dynrelas elf)"

definition rela_ok :: "u64 \<Rightarrow> nat \<Rightarrow> Reloc \<Rightarrow> bool" where
  "rela_ok start msize r \<longleftrightarrow>
     rela_target start r + 8 \<le> msize \<and> clear_of_header (rela_target start r) 8 \<and>
     sint (rela_value start r) = sint start + sint (case r_addend r of Some d \<Rightarrow> d | None \<Rightarrow> 0)"

lemma apply_relas_stores:
  assumes "mem_wf m"
    and "\<And>r. r \<in> set rs \<Longrightarrow> r_type r = R_X86_64_RELATIVE gob \<Longrightarrow> rela_ok start (unat (mem_size m)) r"
  shows "for_each (apply_rela gob oc start) m rs =
    stores m (map (\<lambda>r. (mem_base m + of_nat (rela_target start r), rela_value start r))
      (filter (\<lambda>r. r_type r = R_X86_64_RELATIVE gob) rs))"
  using assms
proof (induction rs arbitrary: m)
  case (Cons r rs)
  show ?case
  proof (cases "r_type r = R_X86_64_RELATIVE gob")
    case True
    then have ok: "rela_ok start (unat (mem_size m)) r" using Cons.prems(2) by simp
    then have lim: "unat (mem_base m) + unat start + unat (r_offset r) < 2 ^ 64"
      using Cons.prems(1) by (simp add: rela_ok_def rela_target_def mem_wf_def)
    then have b: "add_oc oc (mem_base m) start = Inr (mem_base m + start)"
      "unat (mem_base m + start) = unat (mem_base m) + unat start"
      by (auto simp: add_oc_def unat_word_ariths)
    then have o: "add_oc oc (mem_base m + start) (r_offset r) = Inr (mem_base m + of_nat (rela_target start r))"
      using lim by (auto simp: add_oc_def rela_target_def)
    have v: "sadd_oc oc start (case r_addend r of Some d \<Rightarrow> d | None \<Rightarrow> 0) = Inr (rela_value start r)"
      using ok by (auto simp: sadd_oc_def rela_ok_def rela_value_def)
    have step: "apply_rela gob oc start m r = store m (mem_base m + of_nat (rela_target start r)) (rela_value start r)"
      using True by (simp add: apply_rela_def b o v)
    show ?thesis
    proof (cases "store m (mem_base m + of_nat (rela_target start r)) (rela_value start r)")
      case (Inr m1)
      have "for_each (apply_rela gob oc start) m1 rs = stores m1
          (map (\<lambda>r. (mem_base m + of_nat (rela_target start r), rela_value start r))
            (filter (\<lambda>r. r_type r = R_X86_64_RELATIVE gob) rs))"
        using Cons.IH [OF store_wf [OF Cons.prems(1) Inr]] store_base [OF Inr] Cons.prems(2) by simp
      then show ?thesis using True step Inr by (simp add: stores_def)
    qed (use True step in \<open>simp add: stores_def\<close>)
  next
    case False
    then show ?thesis using Cons.IH [OF Cons.prems(1)] Cons.prems(2) by (simp add: apply_rela_def)
  qed
qed (simp add: stores_def)

lemma apply_relas_ok:
  assumes wf: "mem_wf m" and hd: "header_at m b"
    and hsize: "unat BOOT_INFO_ADDR + boot_info_size \<le> unat (mem_size m)"
    and ok: "\<And>r. r \<in> set (relas gob elf) \<Longrightarrow> rela_ok start (unat (mem_size m)) r"
  shows "\<exists>m'. for_each (apply_rela gob oc start) m (dynrelas elf) = Inr m' \<and> header_at m' b \<and>
    mem_wf m' \<and> mem_base m' = mem_base m \<and> mem_size m' = mem_size m \<and>
    (\<forall>c n. (\<forall>r \<in> set (relas gob elf). apart (mem_base m + of_nat (rela_target start r)) 8 c n) \<longrightarrow>
       load_bytes m' c n = load_bytes m c n) \<and>
    (\<forall>xs r ys. relas gob elf = xs @ r # ys \<longrightarrow>
       (\<forall>q \<in> set ys. apart (mem_base m + of_nat (rela_target start q)) 8 (mem_base m + of_nat (rela_target start r)) 8) \<longrightarrow>
       load m' (mem_base m + of_nat (rela_target start r)) = Inr (rela_value start r))"
proof -
  let ?f = "\<lambda>r. (mem_base m + of_nat (rela_target start r), rela_value start r)"
  have eq: "for_each (apply_rela gob oc start) m (dynrelas elf) = stores m (map ?f (relas gob elf))"
    unfolding relas_def by (rule apply_relas_stores [OF wf]) (use ok in \<open>simp add: relas_def\<close>)
  have u: "unat (of_nat (rela_target start r) :: u64) = rela_target start r"
    if "r \<in> set (relas gob elf)" for r
    using ok [OF that] wf by (intro unat_of_nat_less) (simp add: rela_ok_def mem_wf_def)
  have "in_mem m (mem_base m + of_nat (rela_target start r)) 8" if "r \<in> set (relas gob elf)" for r
    using phys_in_mem(2) [OF wf, of "of_nat (rela_target start r)" 8] ok [OF that] u [OF that]
    by (simp add: rela_ok_def)
  then obtain m' where m': "stores m (map ?f (relas gob elf)) = Inr m'"
    using stores_total [of "map ?f (relas gob elf)" m] by auto
  have frame: "load_bytes m' c n = load_bytes m c n"
    if "\<forall>r \<in> set (relas gob elf). apart (mem_base m + of_nat (rela_target start r)) 8 c n" for c n
    by (rule stores_apart [OF wf m']) (use that in auto)
  note b = stores_base [OF m']
  have "header_at m' b"
    using frame [of "mem_base m + BOOT_INFO_ADDR" boot_info_size] hd ok apart_header [OF wf _ _ hsize, of _ 8] b
    by (auto simp: header_at_def rela_ok_def)
  moreover have "load m' (mem_base m + of_nat (rela_target start r)) = Inr (rela_value start r)"
    if "relas gob elf = xs @ r # ys"
      and "\<forall>q \<in> set ys. apart (mem_base m + of_nat (rela_target start q)) 8 (mem_base m + of_nat (rela_target start r)) 8"
    for xs r ys
    by (rule stores_read [OF wf, of "map ?f xs" _ _ "map ?f ys"]) (use that m' in auto)
  ultimately show ?thesis
    using m' eq frame stores_wf [OF wf m'] b by auto
qed

subsection \<open>The boot information the guest gets\<close>

text \<open>What the block should hold before the program headers are read, and after.\<close>

definition octets_ok :: "u8 list option \<Rightarrow> bool" where
  "octets_ok addr \<longleftrightarrow> (case addr of None \<Rightarrow> True | Some octets \<Rightarrow> length octets = 4)"

definition addressed_boot_info :: "'a Vm_scheme \<Rightarrow> BootInfo" where
  "addressed_boot_info vm = BootInfo_new\<lparr>
     bi_hcip := (case vm_ip vm of Some a \<Rightarrow> a | None \<Rightarrow> [255, 255, 255, 255]),
     bi_hcgateway := (case vm_gateway vm of Some a \<Rightarrow> a | None \<Rightarrow> [255, 255, 255, 255]),
     bi_hcmask := (case vm_mask vm of Some a \<Rightarrow> a | None \<Rightarrow> [255, 255, 255, 0])\<rparr>"

definition located_boot_info :: "bool \<Rightarrow> 'a Vm_scheme \<Rightarrow> u64 \<Rightarrow> BootInfo" where
  "located_boot_info linux vm start = (addressed_boot_info vm)\<lparr>
     bi_base := start, bi_limit := mem_size (vm_mem vm), bi_possible_cpus := 1,
     bi_uhyve := (if linux then 3 else 1), bi_current_boot_id := 0,
     bi_uartport := (if vm_verbose vm then UHYVE_UART_PORT else 0),
     bi_current_stack_address := start - KERNEL_STACK_SIZE,
     bi_host_logical_addr := mem_base (vm_mem vm)\<rparr>"

definition initial_boot_info :: "bool \<Rightarrow> 'a Vm_scheme \<Rightarrow> u64 \<Rightarrow> u64 \<Rightarrow> u32 \<Rightarrow> BootInfo" where
  "initial_boot_info linux vm start secs mhz =
     (located_boot_info linux vm start)\<lparr>bi_boot_gtod := secs * 1000000, bi_cpu_freq := mhz\<rparr>"

lemma addressed_splices:
  assumes "octets_ok (vm_ip vm)" and "octets_ok (vm_gateway vm)" and "octets_ok (vm_mask vm)"
  shows "bi_wf (addressed_boot_info vm)"
    and "fold (\<lambda>(k, bs). splice k bs) (forward_address (vm_ip vm) off_hcip @
        forward_address (vm_gateway vm) off_hcgateway @ forward_address (vm_mask vm) off_hcmask)
      (boot_info_bytes BootInfo_new) = boot_info_bytes (addressed_boot_info vm)"
    and "(k, bs) \<in> set (forward_address (vm_ip vm) off_hcip @
        forward_address (vm_gateway vm) off_hcgateway @ forward_address (vm_mask vm) off_hcmask) \<Longrightarrow>
      k + length bs \<le> boot_info_size"
proof -
  show "bi_wf (addressed_boot_info vm)"
    using assms by (auto simp: bi_wf_def addressed_boot_info_def octets_ok_def split: option.splits)
  show "fold (\<lambda>(k, bs). splice k bs) (forward_address (vm_ip vm) off_hcip @
        forward_address (vm_gateway vm) off_hcgateway @ forward_address (vm_mask vm) off_hcmask)
      (boot_info_bytes BootInfo_new) = boot_info_bytes (addressed_boot_info vm)"
    using assms by (auto simp: octets_ok_def forward_address_def addressed_boot_info_def bi_wf_def BootInfo_new_def
        boot_info_splice_octets split: option.splits)
  show "(k, bs) \<in> set (forward_address (vm_ip vm) off_hcip @
        forward_address (vm_gateway vm) off_hcgateway @ forward_address (vm_mask vm) off_hcmask) \<Longrightarrow>
      k + length bs \<le> boot_info_size"
    using assms by (auto simp: octets_ok_def forward_address_def layout split: option.splits)
qed

definition location_fields :: "bool \<Rightarrow> 'a Vm_scheme \<Rightarrow> u64 \<Rightarrow> (nat \<times> u8 list) list" where
  "location_fields linux vm start =
     [(off_base, bytes_of start), (off_limit, bytes_of (mem_size (vm_mem vm))),
      (off_possible_cpus, bytes_of (1 :: u32)), (off_uhyve, bytes_of (if linux then 0x3 else 0x1 :: u8)),
      (off_current_boot_id, bytes_of (0 :: u32)),
      (off_uartport, bytes_of (if vm_verbose vm then UHYVE_UART_PORT else 0)),
      (off_current_stack_address, bytes_of (start - KERNEL_STACK_SIZE)),
      (off_host_logical_addr, bytes_of (mem_base (vm_mem vm)))]"

lemma bi_wf_update [simp]:
  "bi_wf (b\<lparr>bi_base := v\<rparr>) = bi_wf b" "bi_wf (b\<lparr>bi_limit := v\<rparr>) = bi_wf b"
  "bi_wf (b\<lparr>bi_possible_cpus := w\<rparr>) = bi_wf b" "bi_wf (b\<lparr>bi_uhyve := c\<rparr>) = bi_wf b"
  "bi_wf (b\<lparr>bi_current_boot_id := w\<rparr>) = bi_wf b" "bi_wf (b\<lparr>bi_uartport := h\<rparr>) = bi_wf b"
  "bi_wf (b\<lparr>bi_current_stack_address := v\<rparr>) = bi_wf b" "bi_wf (b\<lparr>bi_host_logical_addr := v\<rparr>) = bi_wf b"
  "bi_wf (b\<lparr>bi_boot_gtod := v\<rparr>) = bi_wf b" "bi_wf (b\<lparr>bi_cpu_freq := w\<rparr>) = bi_wf b"
  by (simp_all add: bi_wf_def)

lemma location_splices:
  assumes "bi_wf (addressed_boot_info vm)"
  shows "bi_wf (located_boot_info linux vm start)"
    and "fold (\<lambda>(k, bs). splice k bs) (location_fields linux vm start) (boot_info_bytes (addressed_boot_info vm)) =
      boot_info_bytes (located_boot_info linux vm start)"
    and "(k, bs) \<in> set (location_fields linux vm start) \<Longrightarrow> k + length bs \<le> boot_info_size"
proof -
  show "bi_wf (located_boot_info linux vm start)"
    using assms by (simp add: located_boot_info_def)
  show "fold (\<lambda>(k, bs). splice k bs) (location_fields linux vm start) (boot_info_bytes (addressed_boot_info vm)) =
      boot_info_bytes (located_boot_info linux vm start)"
    unfolding location_fields_def located_boot_info_def fold.simps prod.case id_o o_apply
    using assms by (simp only: boot_info_splice bi_wf_update id_apply)
  show "(k, bs) \<in> set (location_fields linux vm start) \<Longrightarrow> k + length bs \<le> boot_info_size"
    by (auto simp: location_fields_def layout)
qed

lemma new_header:
  assumes wf: "mem_wf m" and hsize: "unat BOOT_INFO_ADDR + boot_info_size \<le> unat (mem_size m)"
  shows "\<exists>m'. store_bytes m (mem_base m + BOOT_INFO_ADDR) (boot_info_bytes BootInfo_new) = Inr m' \<and>
    header_at m' BootInfo_new \<and> same_outside (mem_base m + BOOT_INFO_ADDR) boot_info_size m m'"
proof -
  have wfb: "bi_wf BootInfo_new" by (simp add: bi_wf_def BootInfo_new_def)
  note len = length_boot_info_bytes [OF wfb]
  have "in_mem m (mem_base m + BOOT_INFO_ADDR) (length (boot_info_bytes BootInfo_new))"
    unfolding len by (rule phys_in_mem(2) [OF wf hsize])
  then obtain m' where m': "store_bytes m (mem_base m + BOOT_INFO_ADDR) (boot_info_bytes BootInfo_new) = Inr m'"
    using gm.wr_ok_iff by blast
  note so = store_bytes_same_outside [OF wf m', unfolded len]
  have "header_at m' BootInfo_new"
    using gm.rd_wr_same [OF wf m'] wfb same_outsideD(2) [OF so] by (simp add: header_at_def len)
  with m' so show ?thesis by blast
qed

text \<open>The writes of the loader to the block before it reads the program headers.\<close>

lemma header_phase:
  fixes vm :: "'a Vm_scheme"
  defines "m \<equiv> vm_mem vm"
  assumes wf: "mem_wf m" and hsize: "unat BOOT_INFO_ADDR + boot_info_size \<le> unat (mem_size m)"
    and oct: "octets_ok (vm_ip vm)" "octets_ok (vm_gateway vm)" "octets_ok (vm_mask vm)"
  shows "\<exists>m1 m2 m3 m4 m5.
    store_bytes m (mem_base m + BOOT_INFO_ADDR) (boot_info_bytes BootInfo_new) = Inr m1 \<and>
    write_fields m1 (mem_base m + BOOT_INFO_ADDR) (forward_address (vm_ip vm) off_hcip @
        forward_address (vm_gateway vm) off_hcgateway @ forward_address (vm_mask vm) off_hcmask) = Inr m2 \<and>
    mem_base m2 = mem_base m \<and> mem_size m2 = mem_size m \<and>
    write_fields m2 (mem_base m + BOOT_INFO_ADDR) (location_fields linux vm start) = Inr m3 \<and>
    write_fields m3 (mem_base m + BOOT_INFO_ADDR) [(off_boot_gtod, bytes_of (secs * 1000000))] = Inr m4 \<and>
    write_fields m4 (mem_base m + BOOT_INFO_ADDR) [(off_cpu_freq, bytes_of mhz)] = Inr m5 \<and>
    header_at m5 (initial_boot_info linux vm start secs mhz) \<and>
    same_outside (mem_base m + BOOT_INFO_ADDR) boot_info_size m m5"
proof -
  let ?bi = "mem_base m + BOOT_INFO_ADDR"
  obtain m1 where m1: "store_bytes m ?bi (boot_info_bytes BootInfo_new) = Inr m1"
    and h1: "header_at m1 BootInfo_new" and s1: "same_outside ?bi boot_info_size m m1"
    using new_header [OF wf hsize] by blast
  note d1 = same_outsideD [OF s1]
  obtain m2 where m2: "write_fields m1 ?bi (forward_address (vm_ip vm) off_hcip @
        forward_address (vm_gateway vm) off_hcgateway @ forward_address (vm_mask vm) off_hcmask) = Inr m2"
    and h2: "header_at m2 (addressed_boot_info vm)" and s2: "same_outside ?bi boot_info_size m1 m2"
    using write_header [OF _ h1 addressed_splices(1,3,2) [OF oct]] wf d1 by auto
  note d2 = same_outsideD [OF s2]
  have wfa: "bi_wf (addressed_boot_info vm)" by (rule addressed_splices(1) [OF oct])
  have loc: "k + length bs \<le> boot_info_size" if "(k, bs) \<in> set (location_fields linux vm start)" for k bs
    using that by (rule location_splices(3) [OF wfa])
  obtain m3 where m3: "write_fields m2 ?bi (location_fields linux vm start) = Inr m3"
    and h3: "header_at m3 (located_boot_info linux vm start)" and s3: "same_outside ?bi boot_info_size m2 m3"
    using write_header [OF _ h2, of "located_boot_info linux vm start" "location_fields linux vm start"]
      location_splices(1,2) [OF wfa, of linux start] loc wf d1 d2 by auto
  note d3 = same_outsideD [OF s3]
  have wfl: "bi_wf (located_boot_info linux vm start)" by (rule location_splices(1) [OF wfa])
  obtain m4 where m4: "write_fields m3 ?bi [(off_boot_gtod, bytes_of (secs * 1000000))] = Inr m4"
    and h4: "header_at m4 ((located_boot_info linux vm start)\<lparr>bi_boot_gtod := secs * 1000000\<rparr>)"
    and s4: "same_outside ?bi boot_info_size m3 m4"
    using write_header [OF _ h3, of "(located_boot_info linux vm start)\<lparr>bi_boot_gtod := secs * 1000000\<rparr>"
        "[(off_boot_gtod, bytes_of (secs * 1000000))]"] wf d1 d2 d3 wfl boot_info_splice(9) [OF wfl, of "secs * 1000000"]
    by (auto simp: layout)
  note d4 = same_outsideD [OF s4]
  have wfg: "bi_wf ((located_boot_info linux vm start)\<lparr>bi_boot_gtod := secs * 1000000\<rparr>)" using wfl by simp
  obtain m5 where m5: "write_fields m4 ?bi [(off_cpu_freq, bytes_of mhz)] = Inr m5"
    and h5: "header_at m5 (initial_boot_info linux vm start secs mhz)"
    and s5: "same_outside ?bi boot_info_size m4 m5"
    using write_header [OF _ h4, of "initial_boot_info linux vm start secs mhz" "[(off_cpu_freq, bytes_of mhz)]"]
      wf d1 d2 d3 d4 wfl boot_info_splice(10) [OF wfg, of mhz]
    by (auto simp: layout initial_boot_info_def)
  have "same_outside ?bi boot_info_size m m5"
    using s1 s2 s3 s4 s5 by (meson same_outside_trans)
  with m1 m2 m3 m4 m5 h5 d1 d2 show ?thesis by auto
qed

subsection \<open>Correctness of the loader\<close>

definition load_address :: "'g goblin \<Rightarrow> Elf \<Rightarrow> u64" where
  "load_address gob elf = (if e_type elf = ET_DYN gob then 0x400000 else 0x800000)"

text \<open>A kernel file the loader is made for, in guest memory of \<open>msize\<close> bytes.\<close>

definition kernel_ok :: "'g goblin \<Rightarrow> Elf \<Rightarrow> u8 list \<Rightarrow> nat \<Rightarrow> bool" where
  "kernel_ok gob elf buffer msize \<longleftrightarrow>
     (let is_dyn = (e_type elf = ET_DYN gob); start = load_address gob elf in
      elf_libraries elf = [] \<and> e_machine elf = EM_X86_64 gob \<and> length buffer < 2 ^ 64 \<and>
      (is_dyn \<longrightarrow> unat start + unat (elf_entry elf) < 2 ^ 64) \<and>
      list_all (header_ok gob is_dyn start buffer msize) (program_headers elf) \<and>
      sorted_wrt (seg_disjoint is_dyn start) (loads gob (program_headers elf)) \<and>
      (\<not> is_dyn \<longrightarrow> sum_list (map (\<lambda>p. unat (p_memsz p)) (loads gob (program_headers elf))) < 2 ^ 64) \<and>
      list_all (rela_ok start msize) (relas gob elf) \<and>
      unat BOOT_INFO_ADDR + boot_info_size \<le> msize)"

text \<open>What the virtual machine should look like after loading.\<close>

definition kernel_loaded ::
  "'g goblin \<Rightarrow> bool \<Rightarrow> Elf \<Rightarrow> u8 list \<Rightarrow> u64 \<Rightarrow> u32 \<Rightarrow> 'a Vm_scheme \<Rightarrow> 'a Vm_scheme \<Rightarrow> bool" where
  "kernel_loaded gob linux elf buffer secs mhz vm vm' \<longleftrightarrow>
     (let is_dyn = (e_type elf = ET_DYN gob); start = load_address gob elf; m = vm_mem vm; m' = vm_mem vm';
          target = (\<lambda>r. mem_base m + of_nat (rela_target start r)) in
      mem_wf m' \<and> mem_base m' = mem_base m \<and> mem_size m' = mem_size m \<and>
      vm_offset vm' = start \<and>
      vm_entry_point vm' = (if is_dyn then start + elf_entry elf else elf_entry elf) \<and>
      vm_boot_info vm' = Some (mem_base m + BOOT_INFO_ADDR) \<and>
      header_at m' (fold (header_step gob is_dyn start) (program_headers elf)
        (initial_boot_info linux vm start secs mhz)) \<and>
      (\<forall>p \<in> set (loads gob (program_headers elf)). \<forall>i < unat (p_memsz p).
         (\<forall>r \<in> set (relas gob elf). apart (target r) 8 (seg_addr m is_dyn start p + of_nat i) 1) \<longrightarrow>
         load_bytes m' (seg_addr m is_dyn start p + of_nat i) 1 = Inr [seg_image buffer p ! i]) \<and>
      (\<forall>xs r ys. relas gob elf = xs @ r # ys \<longrightarrow> (\<forall>q \<in> set ys. apart (target q) 8 (target r) 8) \<longrightarrow>
         load m' (target r) = Inr (rela_value start r)))"

text \<open>A file for this machine, with nothing said about its segments and relocations yet.\<close>

definition kernel_file_ok :: "'g goblin \<Rightarrow> Elf \<Rightarrow> bool" where
  "kernel_file_ok gob elf \<longleftrightarrow> elf_libraries elf = [] \<and> e_machine elf = EM_X86_64 gob \<and>
     (e_type elf = ET_DYN gob \<longrightarrow> unat (load_address gob elf) + unat (elf_entry elf) < 2 ^ 64)"

text \<open>The host the loader runs on: the file can be read, the clock is set, the frequency found.\<close>

definition host_ok :: "'g goblin \<Rightarrow> bool \<Rightarrow> Host \<Rightarrow> u8 list \<Rightarrow> Elf \<Rightarrow> u64 \<Rightarrow> u32 \<Rightarrow> bool" where
  "host_ok gob oc host buffer elf secs mhz \<longleftrightarrow>
     host_file host = Inr buffer \<and> parse_elf gob buffer = Inr elf \<and>
     host_secs host = Some secs \<and> unat secs * 1000000 < 2 ^ 64 \<and>
     detect_mhz oc (host_cpuid host) (host_tsc_start host) (host_tsc_end host) = Inr mhz"

text \<open>A virtual machine with room for the boot information and four-byte addresses to forward.\<close>

definition vm_ok :: "'a Vm_scheme \<Rightarrow> bool" where
  "vm_ok vm \<longleftrightarrow> mem_wf (vm_mem vm) \<and> unat BOOT_INFO_ADDR + boot_info_size \<le> unat (mem_size (vm_mem vm)) \<and>
     octets_ok (vm_ip vm) \<and> octets_ok (vm_gateway vm) \<and> octets_ok (vm_mask vm)"

definition located_vm :: "'g goblin \<Rightarrow> Elf \<Rightarrow> 'a Vm_scheme \<Rightarrow> 'a Vm_scheme" where
  "located_vm gob elf vm = vm\<lparr>vm_offset := load_address gob elf,
     vm_entry_point := (if e_type elf = ET_DYN gob then load_address gob elf + elf_entry elf else elf_entry elf),
     vm_boot_info := Some (mem_base (vm_mem vm) + BOOT_INFO_ADDR)\<rparr>"

text \<open>Up to the program headers the loader always gets, with the boot information written.\<close>

lemma load_kernel_headers:
  assumes host: "host_ok gob oc host buffer elf secs mhz" and elf: "kernel_file_ok gob elf" and vm: "vm_ok vm"
  shows "\<exists>m. header_at m (initial_boot_info linux vm (load_address gob elf) secs mhz) \<and>
    same_outside (mem_base (vm_mem vm) + BOOT_INFO_ADDR) boot_info_size (vm_mem vm) m \<and>
    load_kernel gob oc linux host vm =
      and_then (for_each (load_program_header gob oc (e_type elf = ET_DYN gob) (load_address gob elf) buffer
        (mem_base (vm_mem vm) + BOOT_INFO_ADDR)) (m, 0) (program_headers elf)) (\<lambda>(m, image_size).
      and_then (panics (for_each (apply_rela gob oc (load_address gob elf)) m (dynrelas elf))) (\<lambda>m.
      Inr ((located_vm gob elf vm)\<lparr>vm_mem := m\<rparr>)))"
proof -
  define is_dyn where "is_dyn = (e_type elf = ET_DYN gob)"
  define start where "start = load_address gob elf"
  let ?m = "vm_mem vm" and ?entry = "if is_dyn then start + elf_entry elf else elf_entry elf"
  let ?bi = "mem_base ?m + BOOT_INFO_ADDR"
  have vm': "mem_wf ?m" "unat BOOT_INFO_ADDR + boot_info_size \<le> unat (mem_size ?m)"
    "octets_ok (vm_ip vm)" "octets_ok (vm_gateway vm)" "octets_ok (vm_mask vm)"
    using vm by (simp_all add: vm_ok_def)
  obtain m1 m2 m3 m4 m5 where steps:
    "store_bytes ?m ?bi (boot_info_bytes BootInfo_new) = Inr m1"
    "write_fields m1 ?bi (forward_address (vm_ip vm) off_hcip @
        forward_address (vm_gateway vm) off_hcgateway @ forward_address (vm_mask vm) off_hcmask) = Inr m2"
    "mem_base m2 = mem_base ?m" "mem_size m2 = mem_size ?m"
    "write_fields m2 ?bi (location_fields linux vm start) = Inr m3"
    "write_fields m3 ?bi [(off_boot_gtod, bytes_of (secs * 1000000))] = Inr m4"
    "write_fields m4 ?bi [(off_cpu_freq, bytes_of mhz)] = Inr m5"
    and hd5: "header_at m5 (initial_boot_info linux vm start secs mhz)"
    and s5: "same_outside ?bi boot_info_size ?m m5"
    using header_phase [OF vm'] by blast
  have "(if is_dyn then map_ok (Pair 0x400000) (add_oc oc 0x400000 (elf_entry elf))
      else Inr (0x800000, elf_entry elf)) = Inr (start, ?entry)"
    using elf by (auto simp: kernel_file_ok_def add_oc_def start_def load_address_def is_dyn_def)
  moreover have "sub_oc oc start KERNEL_STACK_SIZE = Inr (start - KERNEL_STACK_SIZE)"
    by (simp add: sub_oc_def start_def load_address_def uhyve_consts)
  moreover have "mul_oc oc secs 1000000 = Inr (secs * 1000000)"
    using host by (intro mul_oc_no_overflow) (simp add: host_ok_def)
  moreover have "located_vm gob elf vm = vm\<lparr>vm_offset := start, vm_entry_point := ?entry, vm_boot_info := Some ?bi\<rparr>"
    by (simp add: located_vm_def is_dyn_def start_def)
  ultimately have "load_kernel gob oc linux host vm =
      and_then (for_each (load_program_header gob oc is_dyn start buffer ?bi) (m5, 0) (program_headers elf)) (\<lambda>(m, image_size).
      and_then (panics (for_each (apply_rela gob oc start) m (dynrelas elf))) (\<lambda>m.
      Inr ((located_vm gob elf vm)\<lparr>vm_mem := m\<rparr>)))"
    using steps host elf unfolding load_kernel_def host_ok_def kernel_file_ok_def
    by (simp add: is_dyn_def [symmetric] start_def [symmetric] Let_def location_fields_def set_boot_info_def
        set_entry_point_def set_offset_def split del: if_split)
  with hd5 s5 show ?thesis unfolding is_dyn_def start_def by blast
qed

text \<open>
  When the first headers load, the rest of the run starts from a memory that holds them, with the
  boot information updated.
\<close>

lemma load_kernel_prefix:
  fixes gob :: "'g goblin"
  assumes host: "host_ok gob oc host buffer elf secs mhz" and vm: "vm_ok vm"
    and before: "kernel_ok gob (elf\<lparr>program_headers := xs, dynrelas := []\<rparr>) buffer (unat (mem_size (vm_mem vm)))"
    and split: "program_headers elf = xs @ ys"
  defines "is_dyn \<equiv> e_type elf = ET_DYN gob" and "start \<equiv> load_address gob elf"
  shows "\<exists>m b. mem_wf m \<and> mem_base m = mem_base (vm_mem vm) \<and> mem_size m = mem_size (vm_mem vm) \<and>
    b = fold (header_step gob is_dyn start) xs (initial_boot_info linux vm start secs mhz) \<and> header_at m b \<and>
    (\<forall>p \<in> set (loads gob xs). load_bytes m (seg_addr (vm_mem vm) is_dyn start p) (unat (p_memsz p)) = Inr (seg_image buffer p)) \<and>
    load_kernel gob oc linux host vm =
      and_then (for_each (load_program_header gob oc is_dyn start buffer (mem_base (vm_mem vm) + BOOT_INFO_ADDR))
        (m, bi_image_size b) ys) (\<lambda>(m, image_size).
      and_then (panics (for_each (apply_rela gob oc start) m (dynrelas elf))) (\<lambda>m.
      Inr ((located_vm gob elf vm)\<lparr>vm_mem := m\<rparr>)))"
proof -
  let ?m = "vm_mem vm" and ?b = "initial_boot_info linux vm start secs mhz"
  let ?bi = "mem_base ?m + BOOT_INFO_ADDR"
  have same: "load_address gob (elf\<lparr>program_headers := xs, dynrelas := []\<rparr>) = start"
    by (simp add: load_address_def start_def)
  have ok': "kernel_file_ok gob elf" "length buffer < 2 ^ 64"
    "\<And>ph. ph \<in> set xs \<Longrightarrow> header_ok gob is_dyn start buffer (unat (mem_size ?m)) ph"
    "sorted_wrt (seg_disjoint is_dyn start) (loads gob xs)"
    "\<not> is_dyn \<Longrightarrow> sum_list (map (\<lambda>p. unat (p_memsz p)) (loads gob xs)) < 2 ^ 64"
    using before by (auto simp: kernel_ok_def kernel_file_ok_def Let_def is_dyn_def start_def [symmetric] same list_all_iff)
  have wf: "mem_wf ?m" and hsize: "unat BOOT_INFO_ADDR + boot_info_size \<le> unat (mem_size ?m)"
    using vm by (simp_all add: vm_ok_def)
  obtain m5 where hd5: "header_at m5 ?b" and s5: "same_outside ?bi boot_info_size ?m m5"
    and run: "load_kernel gob oc linux host vm =
      and_then (for_each (load_program_header gob oc is_dyn start buffer ?bi) (m5, 0) (program_headers elf)) (\<lambda>(m, image_size).
      and_then (panics (for_each (apply_rela gob oc start) m (dynrelas elf))) (\<lambda>m.
      Inr ((located_vm gob elf vm)\<lparr>vm_mem := m\<rparr>)))"
    using load_kernel_headers [OF host ok'(1) vm] unfolding is_dyn_def start_def by blast
  note d5 = same_outsideD [OF s5]
  have zero: "bi_image_size ?b = 0"
    by (simp add: initial_boot_info_def located_boot_info_def addressed_boot_info_def BootInfo_new_def)
  obtain m6 b6 where m6: "for_each (load_program_header gob oc is_dyn start buffer ?bi) (m5, 0) xs =
      (Inr (m6, bi_image_size b6) :: 'g LoadKernelError failure + _)"
    and b6: "b6 = fold (header_step gob is_dyn start) xs ?b" "header_at m6 b6"
    and l6: "loaded gob is_dyn start buffer xs m5 m6"
    using load_headers_ok [OF _ hd5, of xs gob is_dyn start buffer oc] ok' hsize wf d5 zero by auto
  have "\<forall>p \<in> set (loads gob xs). load_bytes m6 (seg_addr ?m is_dyn start p) (unat (p_memsz p)) = Inr (seg_image buffer p)"
    using l6 d5 by (simp add: loaded_def seg_addr_def)
  moreover have "mem_wf m6" "mem_base m6 = mem_base ?m" "mem_size m6 = mem_size ?m"
    using l6 d5 by (simp_all add: loaded_def)
  ultimately show ?thesis
    using b6 run m6 by (intro exI [of _ m6] exI [of _ b6]) (simp add: split for_each_append)
qed

lemma load_kernel_loaded:
  assumes host: "host_ok gob oc host buffer elf secs mhz" and vm: "vm_ok vm"
    and ok: "kernel_ok gob elf buffer (unat (mem_size (vm_mem vm)))"
  shows "\<exists>vm'. load_kernel gob oc linux host vm = Inr vm' \<and> kernel_loaded gob linux elf buffer secs mhz vm vm'"
proof -
  define is_dyn where "is_dyn = (e_type elf = ET_DYN gob)"
  define start where "start = load_address gob elf"
  let ?m = "vm_mem vm"
  have relas: "\<And>r. r \<in> set (relas gob elf) \<Longrightarrow> rela_ok start (unat (mem_size ?m)) r"
    and hsize: "unat BOOT_INFO_ADDR + boot_info_size \<le> unat (mem_size ?m)"
    using ok by (auto simp: kernel_ok_def Let_def start_def list_all_iff)
  have "kernel_ok gob (elf\<lparr>program_headers := program_headers elf, dynrelas := []\<rparr>) buffer (unat (mem_size ?m))"
    using ok by (simp add: kernel_ok_def Let_def load_address_def relas_def)
  from load_kernel_prefix [OF host vm this, of "[]" linux, folded is_dyn_def start_def]
  obtain m6 b6 where d6: "mem_wf m6" "mem_base m6 = mem_base ?m" "mem_size m6 = mem_size ?m"
    and b6: "b6 = fold (header_step gob is_dyn start) (program_headers elf) (initial_boot_info linux vm start secs mhz)"
    and hd6: "header_at m6 b6"
    and segs: "\<forall>p \<in> set (loads gob (program_headers elf)).
      load_bytes m6 (seg_addr ?m is_dyn start p) (unat (p_memsz p)) = Inr (seg_image buffer p)"
    and run: "load_kernel gob oc linux host vm = and_then (panics (for_each (apply_rela gob oc start) m6 (dynrelas elf)))
      (\<lambda>m. Inr ((located_vm gob elf vm)\<lparr>vm_mem := m\<rparr>))"
    by auto
  obtain m7 where m7: "for_each (apply_rela gob oc start) m6 (dynrelas elf) = Inr m7" and hd7: "header_at m7 b6"
    and d7: "mem_wf m7" "mem_base m7 = mem_base m6" "mem_size m7 = mem_size m6"
    and frame: "\<And>c n. \<forall>r \<in> set (relas gob elf). apart (mem_base m6 + of_nat (rela_target start r)) 8 c n \<Longrightarrow>
       load_bytes m7 c n = load_bytes m6 c n"
    and val: "\<And>xs r ys. relas gob elf = xs @ r # ys \<Longrightarrow>
       (\<forall>q \<in> set ys. apart (mem_base m6 + of_nat (rela_target start q)) 8 (mem_base m6 + of_nat (rela_target start r)) 8) \<Longrightarrow>
       load m7 (mem_base m6 + of_nat (rela_target start r)) = Inr (rela_value start r)"
    using apply_relas_ok [OF d6(1) hd6, of gob elf start oc] relas hsize d6 by auto
  have "load_bytes m7 (seg_addr ?m is_dyn start p + of_nat i) 1 = Inr [seg_image buffer p ! i]"
    if "p \<in> set (loads gob (program_headers elf))" and "i < unat (p_memsz p)"
      and "\<forall>r \<in> set (relas gob elf). apart (mem_base ?m + of_nat (rela_target start r)) 8
        (seg_addr ?m is_dyn start p + of_nat i) 1" for p i
    using load_bytes_nth [OF d6(1) segs [rule_format, OF that(1)] that(2)] frame that(3) d6(2) by simp
  then show ?thesis
    using run m7 hd7 d7 d6 val
    by (auto simp: kernel_loaded_def Let_def is_dyn_def [symmetric] start_def [symmetric] b6 located_vm_def)
qed

text \<open>
  C1. Loading a well-formed kernel succeeds under both build profiles and leaves the virtual machine
  ready to start: every byte of every loadable segment that no relocation touches is in guest
  memory at the segment's address (file contents, then zeros), every relocation that no later one
  overlaps holds base plus addend, the boot information block holds the fields computed from the
  kernel and the machine, and entry point, offset and header pointer are set.
\<close>

theorem load_kernel_correct:
  assumes "host_ok gob oc host buffer elf secs mhz" and "vm_ok vm"
    and "kernel_ok gob elf buffer (unat (mem_size (vm_mem vm)))"
  shows "\<exists>vm'. load_kernel gob oc linux host vm = Inr vm' \<and> kernel_loaded gob linux elf buffer secs mhz vm vm'"
  using assms by (rule load_kernel_loaded)

text \<open>A small kernel: one segment of two bytes with three bytes of zeros behind it.\<close>

definition sample_goblin :: "unit goblin" where
  "sample_goblin = \<lparr>parse_elf = (\<lambda>_. Inr \<lparr>e_type = 3, e_machine = 62, elf_entry = 0x10, elf_libraries = [],
       program_headers = [\<lparr>p_type = 1, p_offset = 1, p_vaddr = 0x20, p_filesz = 2, p_memsz = 5\<rparr>],
       dynrelas = [\<lparr>r_offset = 0x100, r_addend = Some 8, r_type = 8\<rparr>]\<rparr>),
     ET_DYN = 3, EM_X86_64 = 62, PT_LOAD = 1, PT_TLS = 7, R_X86_64_RELATIVE = 8\<rparr>"

definition sample_host :: Host where
  "sample_host = \<lparr>host_file = Inr [1, 2, 3], host_secs = Some 1600000000,
     host_cpuid = \<lparr>get_tsc_info = None, processor_base_frequency = None, hypervisor_tsc_frequency = Some (Some 2400000)\<rparr>,
     host_tsc_start = 0, host_tsc_end = 0\<rparr>"

definition sample_vm :: Vm where
  "sample_vm = \<lparr>vm_mem = \<lparr>mem_base = 0x7f0000000000, mem_size = 0x1000000, mem_bytes = (\<lambda>_. 0)\<rparr>,
     vm_num_cpus = 1, vm_offset = 0, vm_entry_point = 0, vm_boot_info = None, vm_ip = Some [10, 0, 5, 3],
     vm_gateway = None, vm_mask = None, vm_verbose = True\<rparr>"

lemmas sample_defs = sample_goblin_def sample_host_def sample_vm_def

lemma sample_ok:
  "host_ok sample_goblin oc sample_host [1, 2, 3]
     \<lparr>e_type = 3, e_machine = 62, elf_entry = 0x10, elf_libraries = [],
       program_headers = [\<lparr>p_type = 1, p_offset = 1, p_vaddr = 0x20, p_filesz = 2, p_memsz = 5\<rparr>],
       dynrelas = [\<lparr>r_offset = 0x100, r_addend = Some 8, r_type = 8\<rparr>]\<rparr> 1600000000 2400"
  "vm_ok sample_vm"
  by (simp_all add: host_ok_def vm_ok_def sample_defs detect_mhz_def detect_freq_from_cpuid_def
      detect_freq_from_cpuid_hypervisor_info_def mul_oc_def to_u32_def MHZ_TO_HZ_def KHZ_TO_HZ_def octets_ok_def
      uhyve_consts layout mem_wf_def)

theorem load_kernel_correct_witness:
  "\<exists>vm'. load_kernel sample_goblin True True sample_host sample_vm = Inr vm' \<and>
     vm_entry_point vm' = 0x400010 \<and>
     load_bytes (vm_mem vm') 0x7f0000400021 1 = Inr [3] \<and>
     load (vm_mem vm') 0x7f0000400100 = Inr (0x400008 :: u64)"
proof -
  let ?p = "\<lparr>p_type = 1, p_offset = 1, p_vaddr = 0x20, p_filesz = 2, p_memsz = 5\<rparr> :: ProgramHeader"
  let ?r = "\<lparr>r_offset = 0x100, r_addend = Some 8, r_type = 8\<rparr> :: Reloc"
  let ?elf = "\<lparr>e_type = 3, e_machine = 62, elf_entry = 0x10, elf_libraries = [], program_headers = [?p], dynrelas = [?r]\<rparr>"
  have "kernel_ok sample_goblin ?elf [1, 2, 3] (unat (mem_size (vm_mem sample_vm)))"
    by (simp add: kernel_ok_def Let_def sample_defs load_address_def header_ok_def segment_ok_def seg_base_def
        clear_of_header_def loads_def relas_def rela_ok_def rela_target_def rela_value_def uhyve_consts layout)
  from load_kernel_correct [OF sample_ok this, of True] obtain vm' where
    run: "load_kernel sample_goblin True True sample_host sample_vm = Inr vm'"
    and post: "kernel_loaded sample_goblin True ?elf [1, 2, 3] 1600000000 2400 sample_vm vm'" by blast
  have "vm_entry_point vm' = 0x400010"
    using post by (simp add: kernel_loaded_def Let_def sample_defs load_address_def)
  moreover have "load_bytes (vm_mem vm') 0x7f0000400021 1 = Inr [3]"
  proof -
    have "\<forall>p \<in> {?p}. \<forall>i < 5. apart 0x7f0000400100 8 (seg_addr (vm_mem sample_vm) True 0x400000 p + of_nat i) 1 \<longrightarrow>
        load_bytes (vm_mem vm') (seg_addr (vm_mem sample_vm) True 0x400000 p + of_nat i) 1 =
          Inr [seg_image [1, 2, 3] p ! i]"
      using post by (simp add: kernel_loaded_def Let_def sample_defs load_address_def loads_def relas_def rela_target_def)
    then show ?thesis
      by (drule_tac x = ?p in bspec, simp)
        (drule_tac x = 1 in spec, simp add: seg_addr_def seg_base_def sample_defs apart_def seg_image_def)
  qed
  moreover have "load (vm_mem vm') 0x7f0000400100 = Inr (0x400008 :: u64)"
  proof -
    have "\<forall>xs r ys. [?r] = xs @ r # ys \<longrightarrow>
        (\<forall>q \<in> set ys. apart (0x7f0000000000 + of_nat (rela_target 0x400000 q)) 8
           (0x7f0000000000 + of_nat (rela_target 0x400000 r)) 8) \<longrightarrow>
        load (vm_mem vm') (0x7f0000000000 + of_nat (rela_target 0x400000 r)) = Inr (rela_value 0x400000 r)"
      using post unfolding kernel_loaded_def Let_def
      by (simp add: sample_defs load_address_def relas_def)
    from this [rule_format, of "[]" ?r "[]"] show ?thesis
      by (simp add: rela_target_def rela_value_def)
  qed
  ultimately show ?thesis using run by blast
qed

lemma load_segment_too_large:
  assumes "unat (mem_size m) < seg_base is_dyn start ph + unat (p_memsz ph)"
    and "seg_base is_dyn start ph + unat (p_memsz ph) < 2 ^ 64"
    and "unat (p_filesz ph) \<le> unat (p_memsz ph)" and "unat (p_offset ph) + unat (p_filesz ph) < 2 ^ 64"
  shows "load_segment oc is_dyn start buffer boot_info (m, sz) ph = Inl (Err InsufficientMemory)"
proof -
  let ?rs = "of_nat (seg_base is_dyn start ph) :: u64"
  have rs: "unat ?rs = seg_base is_dyn start ph"
    using assms(2) by (intro unat_of_nat_less) simp
  have "(if is_dyn then add_oc oc start (p_vaddr ph) else Inr (p_vaddr ph)) = Inr ?rs"
    using assms(2) by (auto simp: seg_base_def add_oc_def)
  moreover have "add_oc oc ?rs (p_filesz ph) = Inr (?rs + p_filesz ph)"
    "add_oc oc (p_offset ph) (p_filesz ph) = Inr (p_offset ph + p_filesz ph)"
    "add_oc oc ?rs (p_memsz ph) = Inr (?rs + p_memsz ph)"
    using assms rs by (simp_all add: add_oc_def)
  moreover have "mem_size m < ?rs + p_memsz ph"
    using assms(1,2) rs by (simp add: word_less_nat_alt unat_word_ariths)
  ultimately show ?thesis by (simp add: load_segment_def split del: if_split)
qed



lemma apply_rela_outside:
  assumes "r_type r = R_X86_64_RELATIVE gob" and "unat (mem_size m) < rela_target start r + 8"
    and "unat (mem_base m) + rela_target start r < 2 ^ 64"
    and "sint (rela_value start r) = sint start + sint (case r_addend r of Some d \<Rightarrow> d | None \<Rightarrow> 0)"
  shows "apply_rela gob oc start m r = Inl BadAccess"
proof -
  have b: "add_oc oc (mem_base m) start = Inr (mem_base m + start)"
    and u: "unat (mem_base m + start) = unat (mem_base m) + unat start"
    and u2: "unat (mem_base m + start + r_offset r) = unat (mem_base m) + unat start + unat (r_offset r)"
    using assms(3) by (auto simp: add_oc_def unat_word_ariths rela_target_def)
  then have "add_oc oc (mem_base m + start) (r_offset r) = Inr (mem_base m + start + r_offset r)"
    using assms(3) by (simp add: add_oc_def rela_target_def)
  moreover have "sadd_oc oc start (case r_addend r of Some d \<Rightarrow> d | None \<Rightarrow> 0) = Inr (rela_value start r)"
    using assms(4) by (simp add: sadd_oc_def rela_value_def)
  moreover have "\<not> in_mem m (mem_base m + start + r_offset r) 8"
    using assms(2) by (simp add: in_mem_def u2 rela_target_def)
  ultimately show ?thesis
    using assms(1) by (simp add: apply_rela_def b store_def store_bytes_def)
qed

text \<open>
  Relocation targets are not checked against guest memory: a relative relocation whose target
  reaches past the end makes the loader write outside the mapping, although every segment of the
  file fits.
\<close>

theorem load_kernel_relocation_unchecked:
  assumes host: "host_ok gob oc host buffer elf secs mhz" and vm: "vm_ok vm"
    and ok: "kernel_ok gob (elf\<lparr>dynrelas := []\<rparr>) buffer (unat (mem_size (vm_mem vm)))"
    and rela: "dynrelas elf = r # rs" "r_type r = R_X86_64_RELATIVE gob"
    and out: "unat (mem_size (vm_mem vm)) < rela_target (load_address gob elf) r + 8"
    and range: "unat (mem_base (vm_mem vm)) + rela_target (load_address gob elf) r < 2 ^ 64"
      "sint (rela_value (load_address gob elf) r) =
         sint (load_address gob elf) + sint (case r_addend r of Some d \<Rightarrow> d | None \<Rightarrow> 0)"
  shows "load_kernel gob oc linux host vm = Inl (Panic BadAccess)"
proof -
  define start where "start = load_address gob elf"
  have "kernel_ok gob (elf\<lparr>program_headers := program_headers elf, dynrelas := []\<rparr>) buffer (unat (mem_size (vm_mem vm)))"
    using ok by simp
  from load_kernel_prefix [OF host vm this, of "[]" linux, folded start_def]
  obtain m where m: "mem_base m = mem_base (vm_mem vm)" "mem_size m = mem_size (vm_mem vm)"
    and run: "load_kernel gob oc linux host vm = and_then (panics (for_each (apply_rela gob oc start) m (dynrelas elf)))
      (\<lambda>m. Inr ((located_vm gob elf vm)\<lparr>vm_mem := m\<rparr>))"
    by auto
  have "apply_rela gob oc start m r = Inl BadAccess"
    by (rule apply_rela_outside) (use rela out range m in \<open>simp_all add: start_def\<close>)
  then show ?thesis unfolding run rela(1) by simp
qed

theorem load_kernel_relocation_unchecked_witness:
  "load_kernel sample_goblin False True sample_host
     (sample_vm\<lparr>vm_mem := \<lparr>mem_base = 0x7f0000000000, mem_size = 0x400100, mem_bytes = (\<lambda>_. 0)\<rparr>\<rparr>) =
   Inl (Panic BadAccess)"
proof -
  let ?r = "\<lparr>r_offset = 0x100, r_addend = Some 8, r_type = 8\<rparr> :: Reloc"
  let ?vm = "sample_vm\<lparr>vm_mem := \<lparr>mem_base = 0x7f0000000000, mem_size = 0x400100, mem_bytes = (\<lambda>_. 0)\<rparr>\<rparr>"
  have "vm_ok ?vm" by (simp add: vm_ok_def sample_defs octets_ok_def uhyve_consts layout mem_wf_def)
  from load_kernel_relocation_unchecked [OF sample_ok(1) this, of ?r "[]"] show ?thesis
    by (simp add: kernel_ok_def Let_def sample_defs load_address_def header_ok_def segment_ok_def seg_base_def
        clear_of_header_def loads_def relas_def rela_target_def rela_value_def uhyve_consts layout)
qed

end
