(* ===== verification/Hypercalls.thy ===== *)
theory Hypercalls
  imports Translation
begin

text \<open>
  The services a guest asks for by writing to a port: the provided methods of the trait
  \<^verbatim>\<open>VirtualCPU\<close> in \<^verbatim>\<open>src/vm.rs\<close>. Their arguments are packed structures in guest memory. The C
  library is an argument of the model: a record of functions on the state \<open>'w\<close> of the host.
\<close>

subsection \<open>The packed argument structures\<close>

definition SysWrite_fd :: u64 where [layout]: "SysWrite_fd = 0"
definition SysWrite_buf :: u64 where [layout]: "SysWrite_buf = 4"
definition SysWrite_len :: u64 where [layout]: "SysWrite_len = 12"

definition SysRead_fd :: u64 where [layout]: "SysRead_fd = 0"
definition SysRead_buf :: u64 where [layout]: "SysRead_buf = 4"
definition SysRead_len :: u64 where [layout]: "SysRead_len = 12"
definition SysRead_ret :: u64 where [layout]: "SysRead_ret = 20"

definition SysClose_fd :: u64 where [layout]: "SysClose_fd = 0"
definition SysClose_ret :: u64 where [layout]: "SysClose_ret = 4"

definition SysOpen_name :: u64 where [layout]: "SysOpen_name = 0"
definition SysOpen_flags :: u64 where [layout]: "SysOpen_flags = 8"
definition SysOpen_mode :: u64 where [layout]: "SysOpen_mode = 12"
definition SysOpen_ret :: u64 where [layout]: "SysOpen_ret = 16"

definition SysLseek_fd :: u64 where [layout]: "SysLseek_fd = 0"
definition SysLseek_offset :: u64 where [layout]: "SysLseek_offset = 4"
definition SysLseek_whence :: u64 where [layout]: "SysLseek_whence = 12"

definition SysExit_arg :: u64 where [layout]: "SysExit_arg = 0"

definition MAX_ARGC :: nat where "MAX_ARGC = 128"

definition MAX_ENVC :: nat where "MAX_ENVC = 128"

definition SysCmdsize_argc :: u64 where [layout]: "SysCmdsize_argc = 0"
definition SysCmdsize_argsz :: u64 where [layout]: "SysCmdsize_argsz = 4"
definition SysCmdsize_envc :: u64 where [layout]: "SysCmdsize_envc = 516"
definition SysCmdsize_envsz :: u64 where [layout]: "SysCmdsize_envsz = 520"

definition SysCmdval_argv :: u64 where [layout]: "SysCmdval_argv = 0"
definition SysCmdval_envp :: u64 where [layout]: "SysCmdval_envp = 8"

definition SysUnlink_name :: u64 where [layout]: "SysUnlink_name = 0"
definition SysUnlink_ret :: u64 where [layout]: "SysUnlink_ret = 8"

subsection \<open>The host\<close>

text \<open>
  The calls of the C library the hypervisor forwards to. A path is a pointer to a string in
  memory; \<open>sys_read\<close> gives the bytes it stored, at most as many as asked for; a negative result is
  an error, whose number \<open>last_os_error\<close> gives.
\<close>

record 'w libc =
  sys_unlink :: "'w \<Rightarrow> hmem \<Rightarrow> u64 \<Rightarrow> i32 \<times> 'w"
  sys_open :: "'w \<Rightarrow> hmem \<Rightarrow> u64 \<Rightarrow> i32 \<Rightarrow> i32 \<Rightarrow> i32 \<times> 'w"
  sys_close :: "'w \<Rightarrow> i32 \<Rightarrow> i32 \<times> 'w"
  sys_read :: "'w \<Rightarrow> i32 \<Rightarrow> usize \<Rightarrow> (isize \<times> u8 list) \<times> 'w"
  sys_write :: "'w \<Rightarrow> i32 \<Rightarrow> u8 list \<Rightarrow> isize \<times> 'w"
  sys_lseek :: "'w \<Rightarrow> i32 \<Rightarrow> i64 \<Rightarrow> i32 \<Rightarrow> i64 \<times> 'w"
  last_os_error :: "'w \<Rightarrow> i32"
  stdout_write_all :: "'w \<Rightarrow> u8 list \<Rightarrow> io_error option \<times> 'w"

subsection \<open>Files\<close>

definition unlink :: "'w libc \<Rightarrow> bool \<Rightarrow> usize \<Rightarrow> hmem \<Rightarrow> 'w \<Rightarrow> usize \<Rightarrow> (hmem \<times> 'w) res" where
  "unlink lc oc vm_start m w args_ptr =
     and_then (load m (args_ptr + SysUnlink_name)) (\<lambda>name.
     and_then (host_address oc vm_start name) (\<lambda>p.
     let (r, w) = sys_unlink lc w m p in
     map_ok (\<lambda>m. (m, w)) (store m (args_ptr + SysUnlink_ret) r)))"

definition exit_code :: "hmem \<Rightarrow> usize \<Rightarrow> i32 res" where
  "exit_code m args_ptr = load m (args_ptr + SysExit_arg)"

definition open_file :: "'w libc \<Rightarrow> bool \<Rightarrow> usize \<Rightarrow> hmem \<Rightarrow> 'w \<Rightarrow> usize \<Rightarrow> (hmem \<times> 'w) res" where
  "open_file lc oc vm_start m w args_ptr =
     and_then (load m (args_ptr + SysOpen_name)) (\<lambda>name.
     and_then (host_address oc vm_start name) (\<lambda>p.
     and_then (load m (args_ptr + SysOpen_flags)) (\<lambda>flags.
     and_then (load m (args_ptr + SysOpen_mode)) (\<lambda>mode.
     let (r, w) = sys_open lc w m p flags mode in
     map_ok (\<lambda>m. (m, w)) (store m (args_ptr + SysOpen_ret) r)))))"

definition close :: "'w libc \<Rightarrow> hmem \<Rightarrow> 'w \<Rightarrow> usize \<Rightarrow> (hmem \<times> 'w) res" where
  "close lc m w args_ptr =
     and_then (load m (args_ptr + SysClose_fd)) (\<lambda>fd.
     let (r, w) = sys_close lc w fd in
     map_ok (\<lambda>m. (m, w)) (store m (args_ptr + SysClose_ret) r))"

definition lseek :: "'w libc \<Rightarrow> hmem \<Rightarrow> 'w \<Rightarrow> usize \<Rightarrow> (hmem \<times> 'w) res" where
  "lseek lc m w args_ptr =
     and_then (load m (args_ptr + SysLseek_fd)) (\<lambda>fd.
     and_then (load m (args_ptr + SysLseek_offset)) (\<lambda>offset.
     and_then (load m (args_ptr + SysLseek_whence)) (\<lambda>whence.
     let (r, w) = sys_lseek lc w fd offset whence in
     map_ok (\<lambda>m. (m, w)) (store m (args_ptr + SysLseek_offset) r))))"

text \<open>
  Reading: the C library stores into the range the hypervisor hands over, which has to lie in guest
  memory; the result field gets the count or -1.
\<close>

definition read_file :: "'w libc \<Rightarrow> bool \<Rightarrow> usize \<Rightarrow> hmem \<Rightarrow> 'w \<Rightarrow> usize \<Rightarrow> (hmem \<times> 'w) res" where
  "read_file lc oc vm_start m w args_ptr =
     and_then (load m (args_ptr + SysRead_buf)) (\<lambda>buf.
     and_then (virt_to_phys oc vm_start m buf) (\<lambda>buffer.
     and_then (load m (args_ptr + SysRead_fd)) (\<lambda>fd.
     and_then (host_address oc vm_start buffer) (\<lambda>p.
     and_then (load m (args_ptr + SysRead_len)) (\<lambda>len.
     and_then (load_bytes m p (unat len)) (\<lambda>_.
     let ((bytes_read, bs), w) = sys_read lc w fd len in
     and_then (store_bytes m p bs) (\<lambda>m.
     map_ok (\<lambda>m. (m, w))
       (store m (args_ptr + SysRead_ret) (if 0 \<le> sint bytes_read then bytes_read else -1)))))))))"

text \<open>
  Writing: the loop ends when everything is written or a call fails. Not returning is
  \<^const>\<open>None\<close>; the result is the state of the host, or the error.
\<close>

partial_function (option) write_loop ::
  "'w libc \<Rightarrow> bool \<Rightarrow> usize \<Rightarrow> hmem \<Rightarrow> i32 \<Rightarrow> usize \<Rightarrow> usize \<Rightarrow> 'w \<Rightarrow> usize \<Rightarrow>
     (io_error failure + 'w) option" where
  "write_loop lc oc vm_start m fd buffer len w bytes_written =
     (if bytes_written = len then Some (Inr w)
      else
        case and_then (add_oc oc buffer bytes_written) (\<lambda>a.
             and_then (host_address oc vm_start a) (\<lambda>p.
             and_then (sub_oc oc len bytes_written) (\<lambda>n.
             load_bytes m p (unat n)))) of
          Inl f \<Rightarrow> Some (Inl (Panic f))
        | Inr bs \<Rightarrow>
            (case sys_write lc w fd bs of (step, w) \<Rightarrow>
               if 0 \<le> sint step then
                 (case add_oc oc bytes_written step of
                    Inl f \<Rightarrow> Some (Inl (Panic f))
                  | Inr bytes_written \<Rightarrow> write_loop lc oc vm_start m fd buffer len w bytes_written)
               else Some (Inl (Err (OsError (last_os_error lc w))))))"

definition write_file ::
  "'w libc \<Rightarrow> bool \<Rightarrow> usize \<Rightarrow> hmem \<Rightarrow> 'w \<Rightarrow> usize \<Rightarrow> (io_error failure + 'w) option" where
  "write_file lc oc vm_start m w args_ptr =
     (case and_then (load m (args_ptr + SysWrite_buf)) (\<lambda>buf.
           and_then (virt_to_phys oc vm_start m buf) (\<lambda>buffer.
           and_then (load m (args_ptr + SysWrite_fd)) (\<lambda>fd.
           map_ok (\<lambda>len. (buffer, fd, len)) (load m (args_ptr + SysWrite_len))))) of
        Inl f \<Rightarrow> Some (Inl (Panic f))
      | Inr (buffer, fd, len) \<Rightarrow> write_loop lc oc vm_start m fd buffer len w 0)"

definition uart :: "'w libc \<Rightarrow> 'w \<Rightarrow> u8 list \<Rightarrow> io_error failure + 'w" where
  "uart lc w buf =
     (case stdout_write_all lc w buf of (None, w) \<Rightarrow> Inr w | (Some e, w) \<Rightarrow> Inl (Err e))"

subsection \<open>Lemmas\<close>

text \<open>A later part of a byte range.\<close>

lemma load_bytes_drop:
  assumes "mem_wf m" and "load_bytes m a n = Inr bs" and "k \<le> n"
  shows "load_bytes m (a + of_nat k) (n - k) = Inr (drop k bs)"
proof -
  have in_a: "in_mem m a n" and bs: "bs = read_bytes m a n"
    using assms(2) by (auto simp: load_bytes_def split: if_splits)
  have u: "unat (a + of_nat k) = unat a + k" using assms(1,3) in_a by (simp add: in_mem_offset)
  have "read_bytes m (a + of_nat k) (n - k) = drop k (read_bytes m a n)"
    by (rule nth_equalityI) (auto simp: read_bytes_def add.assoc)
  then show ?thesis using in_a assms(3) by (simp add: load_bytes_def in_mem_def u bs)
qed

text \<open>
  What the C library documents of \<^verbatim>\<open>write\<close> on a descriptor: a call that does not fail appends
  the first bytes of its buffer to the file, as many as it returns, and at least one if there are
  any. \<open>out\<close> observes the contents of the file.
\<close>

definition posix_write :: "'w libc \<Rightarrow> ('w \<Rightarrow> u8 list) \<Rightarrow> i32 \<Rightarrow> bool" where
  "posix_write lc out fd \<longleftrightarrow> (\<forall>w bs r w'. sys_write lc w fd bs = (r, w') \<longrightarrow> bs \<noteq> [] \<longrightarrow>
     0 < sint r \<and> unat r \<le> length bs \<and> out w' = out w @ take (unat r) bs)"

lemma write_loop_delivers:
  assumes law: "posix_write lc out fd" and wf: "mem_wf m"
    and buf: "load_bytes m (mem_base m + buffer) (unat len) = Inr bs"
    and "unat written \<le> unat len"
  shows "\<exists>w'. write_loop lc oc (mem_base m) m fd buffer len w written = Some (Inr w') \<and>
    out w' = out w @ drop (unat written) bs"
  using assms(4)
proof (induction "unat len - unat written" arbitrary: w written rule: less_induct)
  case less
  have in_b: "in_mem m (mem_base m + buffer) (unat len)" and lbs: "length bs = unat len"
    using buf gm.rd_ok_iff gm.rd_length by blast+
  show ?case
  proof (cases "written = len")
    case True
    then show ?thesis by (subst write_loop.simps) (simp add: lbs)
  next
    case False
    then have lt: "unat written < unat len" using less.prems by (simp add: order_less_le word_unat_eq_iff)
    let ?rest = "drop (unat written) bs"
    have rest: "load_bytes m (mem_base m + buffer + written) (unat len - unat written) = Inr ?rest"
      using load_bytes_drop [OF wf buf, of "unat written"] less.prems by simp
    have "mem_base m \<le> mem_base m + buffer" using in_b by (simp add: in_mem_def word_le_nat_alt)
    then have "unat (mem_base m + buffer) = unat (mem_base m) + unat buffer"
      by (simp add: unat_plus_simple)
    with in_b wf lt have sum: "unat buffer + unat written < 2 ^ LENGTH(64)"
      by (simp add: in_mem_def mem_wf_def)
    have 1: "add_oc oc buffer written = Inr (buffer + written)" by (rule add_oc_no_overflow [OF sum])
    have 2: "host_address oc (mem_base m) (buffer + written) = Inr (mem_base m + (buffer + written))"
      using rest gm.rd_ok_iff by (intro host_address_in_mem [where n = "unat len - unat written"]) (metis add.assoc)
    have 3: "sub_oc oc len written = Inr (len - written)" "unat (len - written) = unat len - unat written"
      using lt by (auto simp: sub_oc_def word_less_nat_alt unat_sub word_le_nat_alt)
    obtain r w1 where w1: "sys_write lc w fd ?rest = (r, w1)" by fastforce
    have "?rest \<noteq> []" using lt lbs by simp
    with law w1 have r: "0 < sint r" "unat r \<le> length ?rest" "out w1 = out w @ take (unat r) ?rest"
      unfolding posix_write_def by blast+
    have "unat r \<noteq> 0" using r(1) by (auto simp: unat_eq_zero)
    have sum2: "unat written + unat r < 2 ^ LENGTH(64)"
      using r(2) lbs unsigned_less [of len, where 'a = nat] lt by simp
    note nx = add_oc_no_overflow [OF sum2, of oc] unat_add_no_overflow [OF sum2]
    have "unat len - unat (written + r) < unat len - unat written" "unat (written + r) \<le> unat len"
      using nx r(2) lbs lt \<open>unat r \<noteq> 0\<close> by auto
    from less.hyps [OF this, of w1]
    obtain w' where w': "write_loop lc oc (mem_base m) m fd buffer len w1 (written + r) = Some (Inr w')"
      "out w' = out w1 @ drop (unat (written + r)) bs"
      by blast
    have "write_loop lc oc (mem_base m) m fd buffer len w written = Some (Inr w')"
      using False w1 r(1) w' nx rest 3
      by (subst write_loop.simps) (simp add: 1 2 add.assoc)
    moreover have "out w' = out w @ ?rest"
      using w'(2) r(3) nx by (simp add: add.commute) (metis append_take_drop_id drop_drop)
    ultimately show ?thesis by blast
  qed
qed

text \<open>The call fails: its error is the result, whatever was written before.\<close>

lemma write_loop_error:
  assumes "host_address oc vm_start buffer = Inr p" and "load_bytes m p (unat len) = Inr bs" and "len \<noteq> 0"
    and "sys_write lc w fd bs = (r, w')" and "sint r < 0"
  shows "write_loop lc oc vm_start m fd buffer len w 0 = Some (Inl (Err (OsError (last_os_error lc w'))))"
  using assms by (subst write_loop.simps) simp

text \<open>A descriptor whose writes keep giving zero: the loop never ends.\<close>

lemma write_loop_stalls:
  assumes "\<And>w bs. sys_write lc w fd bs = (0, w)" and "host_address oc vm_start buffer = Inr p"
    and "load_bytes m p (unat len) = Inr bs" and "len \<noteq> 0"
  shows "write_loop lc oc vm_start m fd buffer len w 0 = None"
proof -
  have "(lc', oc', vm', m', fd', b', len', bytes_written) \<noteq> (lc, oc, vm_start, m, fd, buffer, len, 0)"
    if "write_loop lc' oc' vm' m' fd' b' len' w bytes_written = Some y"
    for lc' :: "'a libc" and oc' vm' m' fd' b' len' w bytes_written y
    using _ that
  proof (rule write_loop.raw_induct [where P = "\<lambda>lc' oc' vm' m' fd' b' len' w bytes_written y.
      (lc', oc', vm', m', fd', b', len', bytes_written) \<noteq> (lc, oc, vm_start, m, fd, buffer, len, 0)"], goal_cases)
    case (1 loop lc' oc' vm' m' fd' b' len' w bytes_written y)
    show ?case
    proof
      assume "(lc', oc', vm', m', fd', b', len', bytes_written) = (lc, oc, vm_start, m, fd, buffer, len, 0)"
      with 1(2) assms have "loop lc oc vm_start m fd buffer len w 0 = Some y" by simp
      from 1(1) [OF this] show False by simp
    qed
  qed
  then show ?thesis by (cases "write_loop lc oc vm_start m fd buffer len w 0") (simp, blast)
qed

text \<open>The arguments of the two calls, as the guest laid them out.\<close>

definition rw_args :: "hmem \<Rightarrow> usize \<Rightarrow> i32 \<Rightarrow> usize \<Rightarrow> usize \<Rightarrow> bool" where
  "rw_args m args_ptr fd buf len \<longleftrightarrow>
     load m args_ptr = Inr fd \<and> load m (args_ptr + 4) = Inr buf \<and> load m (args_ptr + 12) = Inr len"

lemma write_file_eq:
  assumes "rw_args m args_ptr fd buf len" and "virt_to_phys oc vm_start m buf = Inr buffer"
  shows "write_file lc oc vm_start m w args_ptr = write_loop lc oc vm_start m fd buffer len w 0"
  using assms by (simp add: write_file_def rw_args_def layout)

text \<open>
  C17. A write request returns and appends exactly the guest's buffer to the file, in however many
  pieces the host takes it: if the buffer the guest names translates to a range of guest memory and
  the host's \<^verbatim>\<open>write\<close> never fails on the descriptor, the loop ends and the file has grown by the
  bytes of the buffer, in order and each once.
\<close>

theorem write_file_delivers:
  assumes "mem_wf m" and "rw_args m args_ptr fd buf len"
    and "virt_to_phys oc (mem_base m) m buf = Inr buffer"
    and "load_bytes m (mem_base m + buffer) (unat len) = Inr bs"
    and "posix_write lc out fd"
  shows "\<exists>w'. write_file lc oc (mem_base m) m w args_ptr = Some (Inr w') \<and> out w' = out w @ bs"
  using write_loop_delivers [OF assms(5,1,4), of 0 oc w] by (simp add: write_file_eq [OF assms(2,3)])

text \<open>A guest that asks for three bytes at address \<open>0x200\<close>, and a host that takes two bytes at a time.\<close>

definition sample_caller :: hmem where
  "sample_caller = \<lparr>mem_base = 0x100000, mem_size = 0x20000, mem_bytes = (\<lambda>a.
     if a = 0x100100 then 1 else if a = 0x100105 then 2 else if a = 0x10010C then 3
     else if a = 0x100200 then 7 else if a = 0x100201 then 8 else if a = 0x100202 then 9 else 0)\<rparr>"

definition sample_libc :: "u8 list libc" where
  "sample_libc = \<lparr>sys_unlink = (\<lambda>w m p. (0, w)), sys_open = (\<lambda>w m p flags mode. (3, w)), sys_close = (\<lambda>w fd. (0, w)),
     sys_read = (\<lambda>w fd n. let bs = take (min 2 (unat n)) w in ((of_nat (length bs), bs), drop (length bs) w)),
     sys_write = (\<lambda>w fd bs. (of_nat (length (take 2 bs)), w @ take 2 bs)),
     sys_lseek = (\<lambda>w fd offset whence. (offset, w)), last_os_error = (\<lambda>w. 9),
     stdout_write_all = (\<lambda>w bs. (None, w @ bs))\<rparr>"

lemma sample_caller_loads:
  "load sample_caller 0x110000 = Inr (0 :: u64)" "load sample_caller 0x100000 = Inr (0 :: u64)"
  "load sample_caller 0x100100 = Inr (1 :: u32)" "load sample_caller 0x100104 = Inr (0x200 :: u64)"
  "load sample_caller 0x10010C = Inr (3 :: u64)" "load_bytes sample_caller 0x100200 3 = Inr [7, 8, 9]"
  by (simp_all add: sample_caller_def load_def load_bytes_def read_bytes_def in_mem_def upt_rec)

lemma sample_caller_walk: "virt_to_phys oc 0x100000 sample_caller 0x200 = Inr 0x200"
proof -
  have four: "(4 :: nat) = Suc (Suc (Suc (Suc 0)))" by simp
  show ?thesis
    unfolding virt_to_phys_def four
    by (simp add: host_address_def add_oc_def uhyve_consts PAGE_MAP_BITS_def PAGE_BITS_def
        sample_caller_loads Let_def mask_eq_exp_minus_1)
qed

lemma sample_caller_ready:
  "mem_wf sample_caller" "mem_base sample_caller = 0x100000" "rw_args sample_caller 0x100100 1 0x200 3"
  "in_mem sample_caller 0x100114 8"
  by (simp_all add: rw_args_def sample_caller_loads) (simp_all add: sample_caller_def mem_wf_def in_mem_def)

lemmas sample_caller_facts = sample_caller_ready(2-) sample_caller_loads(6) sample_caller_walk

lemma sample_posix_write: "posix_write sample_libc (\<lambda>w. w) fd"
  unfolding posix_write_def
proof (intro allI impI)
  fix w bs r w' assume "sys_write sample_libc w fd bs = (r, w')" and "bs \<noteq> []"
  then show "0 < sint r \<and> unat r \<le> length bs \<and> w' = w @ take (unat r) bs"
    by (cases bs rule: list.exhaust; cases "tl bs") (auto simp: sample_libc_def)
qed

theorem write_file_delivers_witness:
  "\<exists>w'. write_file sample_libc True 0x100000 sample_caller [1] 0x100100 = Some (Inr w') \<and> w' = [1, 7, 8, 9]"
  using write_file_delivers [OF sample_caller_ready(1,3) _ _ sample_posix_write, of True "0x200" "[7, 8, 9]" "[1]"]
  by (simp add: sample_caller_facts)

text \<open>
  A descriptor on which the host's \<^verbatim>\<open>write\<close> gives zero for a non-empty buffer makes the request
  loop for ever: the handler only looks for negative results.
\<close>

theorem write_file_stalls:
  assumes "mem_wf m" and "rw_args m args_ptr fd buf len"
    and "virt_to_phys oc (mem_base m) m buf = Inr buffer"
    and "load_bytes m (mem_base m + buffer) (unat len) = Inr bs" and "len \<noteq> 0"
    and "\<And>w bs. sys_write lc w fd bs = (0, w)"
  shows "write_file lc oc (mem_base m) m w args_ptr = None"
proof -
  have "in_mem m (mem_base m + buffer) (unat len)" using assms(4) gm.rd_ok_iff by blast
  then have "host_address oc (mem_base m) buffer = Inr (mem_base m + buffer)" by (rule host_address_in_mem)
  from write_loop_stalls [OF assms(6) this assms(4,5)] show ?thesis
    by (simp add: write_file_eq [OF assms(2,3)])
qed

theorem write_file_stalls_witness:
  "write_file (sample_libc \<lparr>sys_write := (\<lambda>w fd bs. (0, w))\<rparr>) True 0x100000 sample_caller [] 0x100100 = None"
  using write_file_stalls [OF sample_caller_ready(1,3), of True "0x200" "[7, 8, 9]" "sample_libc \<lparr>sys_write := (\<lambda>w fd bs. (0, w))\<rparr>" "[]"]
  by (simp add: sample_caller_facts)

text \<open>
  What the C library documents of \<^verbatim>\<open>read\<close>: a call that does not fail stores as many bytes as it
  returns, at most as many as asked for; a failing one stores none.
\<close>

definition posix_read :: "'w libc \<Rightarrow> i32 \<Rightarrow> bool" where
  "posix_read lc fd \<longleftrightarrow> (\<forall>w n r bs w'. sys_read lc w fd n = ((r, bs), w') \<longrightarrow>
     (if 0 \<le> sint r then length bs = unat r \<and> unat r \<le> unat n else bs = []))"

text \<open>
  C18. A read request stores the host's bytes at the start of the guest's buffer and the count, or
  -1 if the host failed, in the result field, and changes nothing else of the guest's memory: for a
  buffer that translates to a range of guest memory apart from the arguments.
\<close>

theorem read_file_stores:
  assumes "mem_wf m" and "rw_args m args_ptr fd buf len" and "in_mem m (args_ptr + 20) 8"
    and "virt_to_phys oc (mem_base m) m buf = Inr buffer"
    and "in_mem m (mem_base m + buffer) (unat len)"
    and "apart (mem_base m + buffer) (unat len) (args_ptr + 20) 8"
    and "posix_read lc fd" and "sys_read lc w fd len = ((r, bs), w')"
  shows "\<exists>m'. read_file lc oc (mem_base m) m w args_ptr = Inr (m', w') \<and>
    load_bytes m' (mem_base m + buffer) (length bs) = Inr bs \<and>
    load m' (args_ptr + 20) = Inr (if 0 \<le> sint r then r else -1) \<and>
    (\<forall>b k. apart (mem_base m + buffer) (length bs) b k \<longrightarrow> apart (args_ptr + 20) 8 b k \<longrightarrow>
       load_bytes m' b k = load_bytes m b k)"
proof -
  let ?p = "mem_base m + buffer" and ?ret = "if 0 \<le> sint r then r else - 1"
  have p: "host_address oc (mem_base m) buffer = Inr ?p" by (rule host_address_in_mem [OF assms(5)])
  obtain old where old: "load_bytes m ?p (unat len) = Inr old" using assms(5) gm.rd_ok_iff by blast
  have lbs: "length bs \<le> unat len" using assms(7,8) by (fastforce simp: posix_read_def split: if_splits)
  then have "in_mem m ?p (length bs)" using assms(5) by (simp add: in_mem_def)
  then obtain m1 where m1: "store_bytes m ?p bs = Inr m1" using gm.wr_ok_iff by blast
  note so = store_bytes_same_outside [OF assms(1) m1]
  have wf1: "mem_wf m1" using assms(1) by (simp add: same_outsideD(1) [OF so])
  obtain m2 where m2: "store m1 (args_ptr + 20) ?ret = Inr m2"
    using store_ok_iff [of m1 "args_ptr + 20" ?ret] assms(3) by (auto simp: same_outsideD(4) [OF so])
  have m2': "store_bytes m1 (args_ptr + 20) (to_le 8 ?ret) = Inr m2" using m2 by (simp add: store_def)
  note so2 = store_bytes_same_outside [OF wf1 m2', simplified]
  have "read_file lc oc (mem_base m) m w args_ptr = Inr (m2, w')"
    using assms(2) p old assms(8) m1 m2 by (simp add: read_file_def rw_args_def layout assms(4))
  moreover have "load_bytes m2 ?p (length bs) = Inr bs"
    using same_outsideD(5) [OF so2, of ?p "length bs"] gm.rd_wr_same [OF assms(1) m1] assms(6) lbs
    by (auto simp: apart_def)
  moreover have "load m2 (args_ptr + 20) = Inr ?ret" by (rule load_store_u64 [OF wf1 m2])
  moreover have "load_bytes m2 b k = load_bytes m b k"
    if "apart ?p (length bs) b k" and "apart (args_ptr + 20) 8 b k" for b k
    using same_outsideD(5) [OF so that(1)] same_outsideD(5) [OF so2 that(2)] by simp
  ultimately show ?thesis by blast
qed

lemma sample_posix_read: "posix_read sample_libc fd"
  unfolding posix_read_def
proof (intro allI impI)
  fix w n r bs w' assume "sys_read sample_libc w fd n = ((r, bs), w')"
  then show "if 0 \<le> sint r then length bs = unat r \<and> unat r \<le> unat n else bs = []"
    by (auto simp: sample_libc_def Let_def unat_of_nat min_def signed_of_nat signed_take_bit_int_eq_self)
qed

theorem read_file_stores_witness:
  "\<exists>m'. read_file sample_libc True 0x100000 sample_caller [5, 6] 0x100100 = Inr (m', []) \<and>
     load_bytes m' 0x100200 2 = Inr [5, 6] \<and> load m' 0x100114 = Inr (2 :: isize)"
proof -
  have buf: "in_mem sample_caller 0x100200 3" using sample_caller_loads(6) gm.rd_ok_iff by blast
  have call: "sys_read sample_libc [5, 6] 1 3 = ((2, [5, 6]), [])" by (simp add: sample_libc_def)
  have pre: "virt_to_phys True (mem_base sample_caller) sample_caller 0x200 = Inr 0x200"
    "in_mem sample_caller (mem_base sample_caller + 0x200) (unat (3 :: u64))"
    "apart (mem_base sample_caller + 0x200) (unat (3 :: u64)) (0x100100 + 20) 8"
    "in_mem sample_caller (0x100100 + 20) 8"
    using buf by (simp_all add: sample_caller_facts apart_def)
  from read_file_stores [OF sample_caller_ready(1,3) pre(4,1-3) sample_posix_read call] obtain m' where
    run: "read_file sample_libc True (mem_base sample_caller) sample_caller [5, 6] 0x100100 = Inr (m', [])" and
    data: "load_bytes m' (mem_base sample_caller + 0x200) (length [5, 6 :: u8]) = Inr [5, 6]" and
    ret: "load m' (0x100100 + 20) = Inr (if 0 \<le> sint (2 :: isize) then 2 else -1 :: isize)"
    by blast
  have "load_bytes m' 0x100200 2 = Inr [5, 6]"
    using data by (simp add: sample_caller_facts eval_nat_numeral)
  with run ret show ?thesis by (auto simp: sample_caller_facts)
qed

end
