(* ===== verification/Cmdline.thy ===== *)
theory Cmdline
  imports Hypercalls
begin

text \<open>
  Forwarding the command line and the environment to the guest: \<^verbatim>\<open>cmdsize\<close> announces how many strings
  there are and how long they are, \<^verbatim>\<open>cmdval\<close> copies them into buffers the guest allocated
  (\<^verbatim>\<open>src/vm.rs\<close>). The hypervisor's own arguments and environment are arguments of the model.
\<close>

subsection \<open>Arguments and environment\<close>

definition dashes :: "u8 list" where "dashes = [45, 45]"

text \<open>
  The loop both \<^verbatim>\<open>cmdsize\<close> and \<^verbatim>\<open>cmdval\<close> run over the hypervisor's own arguments: \<open>f\<close> is what
  they do for the argument behind the first \<^verbatim>\<open>--\<close> with the given number.
\<close>

definition arg_step ::
  "bool \<Rightarrow> ('s \<Rightarrow> i32 \<Rightarrow> u8 list \<Rightarrow> 's res) \<Rightarrow> 's \<times> i32 \<times> i32 \<times> bool \<Rightarrow> u8 list \<Rightarrow> ('s \<times> i32 \<times> i32 \<times> bool) res" where
  "arg_step oc f = (\<lambda>(s, counter, separator_pos, found_separator) argument.
     and_then (if \<not> found_separator \<and> argument = dashes then map_ok (\<lambda>p. (p, True)) (sadd_oc oc counter 1)
       else Inr (separator_pos, found_separator)) (\<lambda>(separator_pos, found_separator).
     and_then (if found_separator \<and> sint separator_pos \<le> sint counter then
         and_then (ssub_oc oc counter separator_pos) (\<lambda>d.
         and_then (sadd_oc oc d 1) (\<lambda>i. f s i argument))
       else Inr s) (\<lambda>s.
     and_then (sadd_oc oc counter 1) (\<lambda>counter.
     Inr (s, counter, separator_pos, found_separator)))))"

definition arg_loop :: "bool \<Rightarrow> ('s \<Rightarrow> i32 \<Rightarrow> u8 list \<Rightarrow> 's res) \<Rightarrow> 's \<Rightarrow> u8 list list \<Rightarrow> ('s \<times> i32 \<times> i32 \<times> bool) res" where
  "arg_loop oc f s args = for_each (arg_step oc f) (s, 0, 0, False) args"

text \<open>The loop over the environment, which stops counting at the limit.\<close>

definition env_step ::
  "bool \<Rightarrow> ('s \<Rightarrow> i32 \<Rightarrow> u8 list \<times> u8 list \<Rightarrow> 's res) \<Rightarrow> 's \<times> i32 \<Rightarrow> u8 list \<times> u8 list \<Rightarrow> ('s \<times> i32) res" where
  "env_step oc f = (\<lambda>(s, counter) kv.
     if sint counter < int MAX_ENVC then
       and_then (f s counter kv) (\<lambda>s. and_then (sadd_oc oc counter 1) (\<lambda>counter. Inr (s, counter)))
     else Inr (s, counter))"

definition env_loop ::
  "bool \<Rightarrow> ('s \<Rightarrow> i32 \<Rightarrow> u8 list \<times> u8 list \<Rightarrow> 's res) \<Rightarrow> 's \<Rightarrow> (u8 list \<times> u8 list) list \<Rightarrow> ('s \<times> i32) res" where
  "env_loop oc f s vars = for_each (env_step oc f) (s, 0) vars"

text \<open>\<^verbatim>\<open>argsz[i as usize] = v\<close> and \<^verbatim>\<open>envsz[i as usize] = v\<close>: a checked index into the structure.\<close>

definition set_size :: "nat \<Rightarrow> usize \<Rightarrow> hmem \<Rightarrow> i32 \<Rightarrow> i32 \<Rightarrow> hmem res" where
  "set_size bound a m i v =
     (if unat (scast i :: usize) < bound then store m (a + 4 * scast i) v else Inl IndexOutOfBounds)"

definition cmdsize_arg :: "bool \<Rightarrow> usize \<Rightarrow> hmem \<Rightarrow> i32 \<Rightarrow> u8 list \<Rightarrow> hmem res" where
  "cmdsize_arg oc args_ptr m i argument =
     and_then (sadd_oc oc (of_nat (length argument)) 1) (\<lambda>n.
     set_size MAX_ARGC (args_ptr + SysCmdsize_argsz) m i n)"

definition cmdsize_env :: "bool \<Rightarrow> usize \<Rightarrow> hmem \<Rightarrow> i32 \<Rightarrow> u8 list \<times> u8 list \<Rightarrow> hmem res" where
  "cmdsize_env oc args_ptr m i = (\<lambda>(key, val).
     and_then (sadd_oc oc (of_nat (length key + length val)) 2) (\<lambda>n.
     set_size MAX_ENVC (args_ptr + SysCmdsize_envsz) m i n))"

definition cmdsize ::
  "bool \<Rightarrow> u8 list \<Rightarrow> u8 list list \<Rightarrow> (u8 list \<times> u8 list) list \<Rightarrow> hmem \<Rightarrow> usize \<Rightarrow> hmem res" where
  "cmdsize oc path args vars m args_ptr =
     and_then (store m (args_ptr + SysCmdsize_argc) (0 :: i32)) (\<lambda>m.
     and_then (store m (args_ptr + SysCmdsize_envc) (0 :: i32)) (\<lambda>m.
     and_then (cmdsize_arg oc args_ptr m 0 path) (\<lambda>m.
     and_then (arg_loop oc (cmdsize_arg oc args_ptr) m args) (\<lambda>(m, counter, separator_pos, found_separator).
     and_then (if found_separator \<and> sint separator_pos \<le> sint counter then
         and_then (ssub_oc oc counter separator_pos) (\<lambda>d. sadd_oc oc d 1)
       else Inr 1) (\<lambda>argc.
     and_then (store m (args_ptr + SysCmdsize_argc) argc) (\<lambda>m.
     and_then (env_loop oc (cmdsize_env oc args_ptr) m vars) (\<lambda>(m, counter).
     store m (args_ptr + SysCmdsize_envc) counter)))))))"

text \<open>Copying one string through entry \<open>i\<close> of a pointer table in guest memory.\<close>

definition copy_string :: "bool \<Rightarrow> usize \<Rightarrow> usize \<Rightarrow> hmem \<Rightarrow> i32 \<Rightarrow> u8 list \<Rightarrow> hmem res" where
  "copy_string oc vm_start table m i bs =
     and_then (mul_oc oc (scast i) 8) (\<lambda>d.
     and_then (add_oc oc table d) (\<lambda>a.
     and_then (load m a) (\<lambda>ptr.
     and_then (host_address oc vm_start ptr) (\<lambda>p.
     store_bytes m p bs))))"

definition cmdval ::
  "bool \<Rightarrow> usize \<Rightarrow> u8 list \<Rightarrow> u8 list list \<Rightarrow> (u8 list \<times> u8 list) list \<Rightarrow> hmem \<Rightarrow> usize \<Rightarrow> hmem res" where
  "cmdval oc vm_start path args vars m args_ptr =
     and_then (load m (args_ptr + SysCmdval_argv)) (\<lambda>v.
     and_then (host_address oc vm_start v) (\<lambda>argv.
     and_then (and_then (load m argv) (\<lambda>ptr.
       and_then (host_address oc vm_start ptr) (\<lambda>argvptr. store_bytes m argvptr (path @ [0])))) (\<lambda>m.
     and_then (arg_loop oc (\<lambda>m i argument. copy_string oc vm_start argv m i (argument @ [0])) m args) (\<lambda>(m, _).
     and_then (load m (args_ptr + SysCmdval_envp)) (\<lambda>e.
     and_then (host_address oc vm_start e) (\<lambda>envp.
     map_ok fst (env_loop oc (\<lambda>m i (key, val). copy_string oc vm_start envp m i (key @ [61] @ val @ [0])) m vars)))))))"

subsection \<open>The loops without their counters\<close>

text \<open>The arguments behind the first \<^verbatim>\<open>--\<close>, which are the guest's.\<close>

definition app_args :: "u8 list list \<Rightarrow> u8 list list" where
  "app_args args = drop 1 (dropWhile (\<lambda>a. a \<noteq> dashes) args)"

lemma sint_of_nat_i32: "n < 2 ^ 31 \<Longrightarrow> sint (of_nat n :: i32) = int n"
  by (simp add: signed_of_nat signed_take_bit_int_eq_self)

lemma i32_arith:
  "n + k < 2 ^ 31 \<Longrightarrow> sadd_oc oc (of_nat n :: i32) (of_nat k) = Inr (of_nat (n + k))"
  "k \<le> n \<Longrightarrow> n < 2 ^ 31 \<Longrightarrow> ssub_oc oc (of_nat n :: i32) (of_nat k) = Inr (of_nat (n - k))"
proof -
  show "sadd_oc oc (of_nat n :: i32) (of_nat k) = Inr (of_nat (n + k))" if "n + k < 2 ^ 31"
    using sint_of_nat_i32 [of n] sint_of_nat_i32 [of k] sint_of_nat_i32 [of "n + k"] that
    by (simp add: sadd_oc_def)
  show "ssub_oc oc (of_nat n :: i32) (of_nat k) = Inr (of_nat (n - k))" if "k \<le> n" "n < 2 ^ 31"
    using sint_of_nat_i32 [of n] sint_of_nat_i32 [of k] sint_of_nat_i32 [of "n - k"] that
    by (simp add: ssub_oc_def of_nat_diff)
qed

lemma i32_succ: "Suc n < 2 ^ 31 \<Longrightarrow> sadd_oc oc (of_nat n :: i32) 1 = Inr (of_nat (Suc n))"
  using i32_arith(1) [of n 1 oc] by simp

lemma arg_loop_behind:
  assumes "p \<le> c" and "c + length args < 2 ^ 31 - 1"
  shows "for_each (arg_step oc f) (s, of_nat c, of_nat p, True) args =
    map_ok (\<lambda>s. (s, of_nat (c + length args), of_nat p, True))
      (for_each (\<lambda>s (i, a). f s (of_nat i) a) s (enumerate (c - p + 1) args))"
  using assms
proof (induction args arbitrary: s c)
  case (Cons a args)
  have "sint (of_nat p :: i32) \<le> sint (of_nat c :: i32)"
    using Cons.prems sint_of_nat_i32 [of p] sint_of_nat_i32 [of c] by simp
  moreover have "ssub_oc oc (of_nat c) (of_nat p) = Inr (of_nat (c - p) :: i32)"
    using Cons.prems by (intro i32_arith) simp_all
  moreover have "sadd_oc oc (of_nat (c - p)) 1 = Inr (of_nat (c - p + 1) :: i32)"
    "sadd_oc oc (of_nat c) 1 = Inr (of_nat (Suc c) :: i32)"
    using Cons.prems i32_succ [of "c - p" oc] i32_succ [of c oc] by auto
  ultimately have step: "arg_step oc f (s, of_nat c, of_nat p, True) a =
      and_then (f s (of_nat (c - p + 1)) a) (\<lambda>s. Inr (s, of_nat (Suc c), of_nat p, True))"
    by (simp add: arg_step_def)
  have "Suc c - p + 1 = Suc (c - p + 1)" using Cons.prems by simp
  with Cons.IH [of "Suc c"] Cons.prems step show ?case
    by (cases "f s (of_nat (c - p + 1)) a") simp_all
qed simp

lemma arg_loop_before:
  assumes "c + length args < 2 ^ 31 - 1"
  shows "for_each (arg_step oc f) (s, of_nat c, 0, False) args =
    map_ok (\<lambda>s. (s, of_nat (c + length args),
        (if dashes \<in> set args then of_nat (c + length (takeWhile (\<lambda>a. a \<noteq> dashes) args) + 1) else 0), dashes \<in> set args))
      (for_each (\<lambda>s (i, a). f s (of_nat i) a) s (enumerate 1 (app_args args)))"
  using assms
proof (induction args arbitrary: c)
  case (Cons a args)
  have succ: "sadd_oc oc (of_nat c) 1 = Inr (of_nat (Suc c) :: i32)"
    using Cons.prems by (intro i32_succ) simp
  have lt: "\<not> sint (of_nat (Suc c) :: i32) \<le> sint (of_nat c :: i32)"
    using Cons.prems sint_of_nat_i32 [of c] sint_of_nat_i32 [of "Suc c"] by simp
  show ?case
  proof (cases "a = dashes")
    case True
    then have "arg_step oc f (s, of_nat c, 0, False) a = Inr (s, of_nat (Suc c), of_nat (Suc c), True)"
      using succ lt by (simp add: arg_step_def)
    then show ?thesis
      using True arg_loop_behind [of "Suc c" "Suc c" args oc f s] Cons.prems by (simp add: app_args_def)
  next
    case False
    then have "arg_step oc f (s, of_nat c, 0, False) a = Inr (s, of_nat (Suc c), 0, False)"
      using succ by (simp add: arg_step_def)
    then show ?thesis
      using False Cons.IH [of "Suc c"] Cons.prems by (simp add: app_args_def)
  qed
qed (simp add: app_args_def)

definition sep_pos :: "u8 list list \<Rightarrow> nat" where
  "sep_pos args = (if dashes \<in> set args then length (takeWhile (\<lambda>a. a \<noteq> dashes) args) + 1 else 0)"

lemma sep_pos_app_args: "dashes \<in> set args \<Longrightarrow> sep_pos args + length (app_args args) = length args"
proof -
  assume d: "dashes \<in> set args"
  then have "dropWhile (\<lambda>a. a \<noteq> dashes) args \<noteq> []" by auto
  moreover have "length args = length (takeWhile (\<lambda>a. a \<noteq> dashes) args) + length (dropWhile (\<lambda>a. a \<noteq> dashes) args)"
    by (metis length_append takeWhile_dropWhile_id)
  ultimately show ?thesis using d by (simp add: sep_pos_def app_args_def)
qed

lemma arg_loop_eq:
  assumes "length args < 2 ^ 31 - 1"
  shows "arg_loop oc f s args = map_ok (\<lambda>s. (s, of_nat (length args), of_nat (sep_pos args), dashes \<in> set args))
    (for_each (\<lambda>s (i, a). f s (of_nat i) a) s (enumerate 1 (app_args args)))"
  using arg_loop_before [of 0 args oc f s] assms by (simp add: arg_loop_def sep_pos_def)

text \<open>The count behind the loop of \<^verbatim>\<open>cmdsize\<close>: one more than the guest's own arguments.\<close>

lemma argc_eq:
  assumes "length args < 2 ^ 31 - 1"
  shows "(if dashes \<in> set args \<and> sint (of_nat (sep_pos args) :: i32) \<le> sint (of_nat (length args) :: i32) then
      and_then (ssub_oc oc (of_nat (length args)) (of_nat (sep_pos args))) (\<lambda>d. sadd_oc oc d 1)
    else Inr 1) = Inr (of_nat (length (app_args args) + 1) :: i32)"
proof (cases "dashes \<in> set args")
  case True
  note p = sep_pos_app_args [OF True]
  have "ssub_oc oc (of_nat (length args)) (of_nat (sep_pos args)) = Inr (of_nat (length (app_args args)) :: i32)"
  proof -
    have "sep_pos args \<le> length args" and diff: "length args - sep_pos args = length (app_args args)"
      using p by simp_all
    with i32_arith(2) [of "sep_pos args" "length args" oc] assms show ?thesis by (simp only: diff)
  qed
  moreover have "sadd_oc oc (of_nat (length (app_args args))) 1 = Inr (of_nat (Suc (length (app_args args))) :: i32)"
    using p assms by (intro i32_succ) simp
  moreover have "sint (of_nat (sep_pos args) :: i32) \<le> sint (of_nat (length args) :: i32)"
    using p assms sint_of_nat_i32 [of "sep_pos args"] sint_of_nat_i32 [of "length args"] by simp
  ultimately show ?thesis using True by simp
next
  case False
  then have "dropWhile (\<lambda>a. a \<noteq> dashes) args = []" by (simp only: dropWhile_eq_Nil_conv) auto
  then have "app_args args = []" by (simp only: app_args_def) simp
  with False show ?thesis by simp
qed

lemma env_loop_eq:
  "env_loop oc f s vars = map_ok (\<lambda>s. (s, of_nat (min 128 (length vars))))
     (for_each (\<lambda>s (i, kv). f s (of_nat i) kv) s (enumerate 0 (take 128 vars)))"
proof -
  have "for_each (env_step oc f) (s, of_nat c) vars = map_ok (\<lambda>s. (s, of_nat (min 128 (c + length vars))))
      (for_each (\<lambda>s (i, kv). f s (of_nat i) kv) s (enumerate c (take (128 - c) vars)))" if "c \<le> 128" for c s
    using that
  proof (induction vars arbitrary: s c)
    case (Cons kv vars)
    show ?case
    proof (cases "c < 128")
      case True
      have "sint (of_nat c :: i32) < int MAX_ENVC"
        using True sint_of_nat_i32 [of c] by (simp add: MAX_ENVC_def)
      moreover have "sadd_oc oc (of_nat c) 1 = Inr (of_nat (Suc c) :: i32)"
        using True by (intro i32_succ) simp
      ultimately have step: "env_step oc f (s, of_nat c) kv =
          and_then (f s (of_nat c) kv) (\<lambda>s. Inr (s, of_nat (Suc c)))"
        by (simp add: env_step_def)
      have "128 - c = Suc (128 - Suc c)" using True by simp
      then show ?thesis
        using step Cons.IH [of "Suc c"] True by (cases "f s (of_nat c) kv") simp_all
    next
      case False
      then have "c = 128" using Cons.prems by simp
      then have "env_step oc f (s, of_nat c) kv = Inr (s, of_nat c)"
        using sint_of_nat_i32 [of 128] by (simp add: env_step_def MAX_ENVC_def)
      then show ?thesis using Cons.IH [of 128] \<open>c = 128\<close> by simp
    qed
  qed (simp add: min_def)
  from this [of 0 s] show ?thesis by (simp add: env_loop_def)
qed

subsection \<open>The sizes announced to the guest\<close>

text \<open>What \<^verbatim>\<open>cmdsize\<close> writes, as offsets into the structure and values, in order.\<close>

definition argsz_writes :: "u8 list list \<Rightarrow> (nat \<times> u8 list) list" where
  "argsz_writes argv = map (\<lambda>(i, a). (4 + 4 * i, bytes_of (of_nat (length a + 1) :: i32))) (enumerate 0 argv)"

definition envsz_writes :: "(u8 list \<times> u8 list) list \<Rightarrow> (nat \<times> u8 list) list" where
  "envsz_writes vars = map (\<lambda>(i, k, v). (520 + 4 * i, bytes_of (of_nat (length k + length v + 2) :: i32)))
     (enumerate 0 (take 128 vars))"

definition cmdsize_writes :: "u8 list list \<Rightarrow> (u8 list \<times> u8 list) list \<Rightarrow> (nat \<times> u8 list) list" where
  "cmdsize_writes argv vars =
     [(0, bytes_of (0 :: i32)), (516, bytes_of (0 :: i32))] @ argsz_writes argv @
     [(0, bytes_of (of_nat (length argv) :: i32))] @ envsz_writes vars @
     [(516, bytes_of (of_nat (min 128 (length vars)) :: i32))]"

lemma scast_of_nat_i32: "i < 2 ^ 31 \<Longrightarrow> (scast (of_nat i :: i32) :: u64) = of_nat i"
  by (simp add: sint_of_nat_i32 scast_eq)

lemma set_size_store:
  assumes "i < bound" and "i < 2 ^ 31"
  shows "set_size bound (a + of_nat c) m (of_nat i) v = store_bytes m (a + of_nat (c + 4 * i)) (bytes_of v)"
proof -
  have "unat (of_nat i :: u64) = i" using assms(2) by (intro unat_of_nat_less) simp
  then show ?thesis
    using assms by (simp add: set_size_def scast_of_nat_i32 store_def add.assoc)
qed

lemma cmdsize_arg_store:
  assumes "i < 128" and "length s < 2 ^ 31 - 2"
  shows "cmdsize_arg oc args_ptr m (of_nat i) s =
    store_bytes m (args_ptr + of_nat (4 + 4 * i)) (bytes_of (of_nat (length s + 1) :: i32))"
  using assms set_size_store [of i 128 args_ptr 4 m "of_nat (length s + 1)"] i32_arith(1) [of "length s" 1 oc]
  by (simp add: cmdsize_arg_def MAX_ARGC_def layout)

lemma cmdsize_env_store:
  assumes "i < 128" and "length k + length v < 2 ^ 31 - 2"
  shows "cmdsize_env oc args_ptr m (of_nat i) (k, v) =
    store_bytes m (args_ptr + of_nat (520 + 4 * i)) (bytes_of (of_nat (length k + length v + 2) :: i32))"
  using assms set_size_store [of i 128 args_ptr 520 m "of_nat (length k + length v + 2)"]
    i32_arith(1) [of "length k + length v" 2 oc]
  by (simp add: cmdsize_env_def MAX_ENVC_def layout)

lemma cmdsize_args_writes:
  assumes "n + length argv \<le> 128" and "\<And>s. s \<in> set argv \<Longrightarrow> length s < 2 ^ 31 - 2"
  shows "for_each (\<lambda>m (i, s). cmdsize_arg oc args_ptr m (of_nat i) s) m (enumerate n argv) =
    write_fields m args_ptr (map (\<lambda>(i, a). (4 + 4 * i, bytes_of (of_nat (length a + 1) :: i32))) (enumerate n argv))"
  unfolding write_fields_def for_each_map
  by (rule for_each_cong_invariant [where I = "\<lambda>_. True"])
    (use assms in \<open>auto simp: in_set_enumerate_eq cmdsize_arg_store\<close>)

lemma cmdsize_envs_writes:
  assumes "\<And>k v. (k, v) \<in> set vars \<Longrightarrow> length k + length v < 2 ^ 31 - 2"
  shows "for_each (\<lambda>m (i, kv). cmdsize_env oc args_ptr m (of_nat i) kv) m (enumerate 0 (take 128 vars)) =
    write_fields m args_ptr (envsz_writes vars)"
  unfolding write_fields_def envsz_writes_def for_each_map
  by (rule for_each_cong_invariant [where I = "\<lambda>_. True"])
    (use assms in \<open>auto simp: in_set_enumerate_eq cmdsize_env_store dest: nth_mem\<close>)

text \<open>The strings the hypervisor was started with are within the limits of the interface.\<close>

definition strings_ok :: "u8 list \<Rightarrow> u8 list list \<Rightarrow> (u8 list \<times> u8 list) list \<Rightarrow> bool" where
  "strings_ok path args vars \<longleftrightarrow> length args < 2 ^ 31 - 1 \<and> length (app_args args) < 128 \<and>
     list_all (\<lambda>s. length s < 2 ^ 31 - 2) (path # args) \<and>
     list_all (\<lambda>(k, v). length k + length v < 2 ^ 31 - 2) vars"

lemma app_args_subset: "set (app_args args) \<subseteq> set args"
  by (auto simp: app_args_def dest: in_set_dropD set_dropWhileD)

lemma app_args_length: "length (app_args args) \<le> length args"
  by (simp add: app_args_def) (metis diff_le_self le_trans length_dropWhile_le)

lemma cmdsize_path_store:
  assumes "length path < 2 ^ 31 - 2"
  shows "cmdsize_arg oc args_ptr m 0 path = store_bytes m (args_ptr + of_nat 4) (bytes_of (of_nat (length path + 1) :: i32))"
  using cmdsize_arg_store [of 0 path oc args_ptr m] assms by simp

lemma cmdsize_count_store:
  "store m (args_ptr + SysCmdsize_argc) (v :: i32) = store_bytes m (args_ptr + of_nat 0) (bytes_of v)"
  "store m (args_ptr + SysCmdsize_envc) v = store_bytes m (args_ptr + of_nat 516) (bytes_of v)"
  by (simp_all add: store_def layout)

lemma cmdsize_eq:
  assumes ok: "strings_ok path args vars"
  shows "cmdsize oc path args vars m args_ptr = write_fields m args_ptr (cmdsize_writes (path # app_args args) vars)"
proof -
  let ?app = "app_args args"
  have lens: "length args < 2 ^ 31 - 1" "length ?app < 128" "length path < 2 ^ 31 - 2"
    "\<And>s. s \<in> set ?app \<Longrightarrow> length s < 2 ^ 31 - 2" "\<And>k v. (k, v) \<in> set vars \<Longrightarrow> length k + length v < 2 ^ 31 - 2"
    using ok app_args_subset by (auto simp: strings_ok_def list_all_iff)
  have split: "cmdsize_writes (path # ?app) vars =
      (0, bytes_of (0 :: i32)) # (516, bytes_of (0 :: i32)) # (4, bytes_of (of_nat (length path + 1) :: i32)) #
      map (\<lambda>(i, a). (4 + 4 * i, bytes_of (of_nat (length a + 1) :: i32))) (enumerate 1 ?app) @
      (0, bytes_of (of_nat (length ?app + 1) :: i32)) # envsz_writes vars @
      [(516, bytes_of (of_nat (min 128 (length vars)) :: i32))]"
    by (simp add: cmdsize_writes_def argsz_writes_def)
  note first = cmdsize_path_store [OF lens(3)] and st = cmdsize_count_store
  have app: "1 + length ?app \<le> 128" using lens(2) by simp
  have args: "for_each (\<lambda>m (i, s). cmdsize_arg oc args_ptr m (of_nat i) s) m' (enumerate 1 ?app) =
      write_fields m' args_ptr (map (\<lambda>(i, a). (4 + 4 * i, bytes_of (of_nat (length a + 1) :: i32))) (enumerate 1 ?app))" for m'
    by (rule cmdsize_args_writes [OF app]) (rule lens(4))
  have envs: "for_each (\<lambda>m (i, kv). cmdsize_env oc args_ptr m (of_nat i) kv) m' (enumerate 0 (take 128 vars)) =
      write_fields m' args_ptr (envsz_writes vars)" for m'
    by (rule cmdsize_envs_writes) (rule lens(5))
  show ?thesis
    unfolding split write_fields_Cons write_fields_append cmdsize_def st first arg_loop_eq [OF lens(1)]
      env_loop_eq args envs
      and_then_map_ok prod.case argc_eq [OF lens(1)] and_then.simps
    by (simp add: and_then_assoc)
qed

lemma in_drop_enumerate: "(i, x) \<in> set (drop n (enumerate 0 xs)) \<Longrightarrow> n \<le> i \<and> i < length xs"
  by (auto simp: in_set_conv_nth nth_enumerate_eq)

lemma in_argsz_writes:
  "(k, bs) \<in> set (drop n (argsz_writes argv)) \<Longrightarrow> \<exists>j. n \<le> j \<and> j < length argv \<and> k = 4 + 4 * j \<and> length bs = 4"
  by (auto simp: argsz_writes_def drop_map dest!: in_drop_enumerate)

lemma in_envsz_writes:
  "(k, bs) \<in> set (drop n (envsz_writes vars)) \<Longrightarrow> \<exists>j. n \<le> j \<and> j < min 128 (length vars) \<and> k = 520 + 4 * j \<and> length bs = 4"
  by (auto simp: envsz_writes_def drop_map dest!: in_drop_enumerate)

lemma cmdsize_writes_inside:
  assumes "length argv \<le> 128" and "(k, bs) \<in> set (cmdsize_writes argv vars)"
  shows "k + length bs \<le> 1032"
  using assms in_argsz_writes [of k bs 0 argv] in_envsz_writes [of k bs 0 vars]
  by (auto simp: cmdsize_writes_def)

definition cmdsize_post ::
  "u8 list list \<Rightarrow> (u8 list \<times> u8 list) list \<Rightarrow> hmem \<Rightarrow> usize \<Rightarrow> hmem \<Rightarrow> bool" where
  "cmdsize_post argv vars m args_ptr m' \<longleftrightarrow>
     load m' args_ptr = Inr (of_nat (length argv) :: i32) \<and>
     (\<forall>i < length argv. load m' (args_ptr + of_nat (4 + 4 * i)) = Inr (of_nat (length (argv ! i) + 1) :: i32)) \<and>
     load m' (args_ptr + 516) = Inr (of_nat (min 128 (length vars)) :: i32) \<and>
     (\<forall>i < min 128 (length vars). load m' (args_ptr + of_nat (520 + 4 * i)) =
        Inr (of_nat (length (fst (vars ! i)) + length (snd (vars ! i)) + 2) :: i32)) \<and>
     same_outside args_ptr 1032 m m'"

lemma cmdsize_writes_post:
  assumes wf: "mem_wf m" and in_a: "in_mem m args_ptr 1032" and len: "length argv \<le> 128"
  shows "\<exists>m'. write_fields m args_ptr (cmdsize_writes argv vars) = Inr m' \<and> cmdsize_post argv vars m args_ptr m'"
proof -
  let ?ws = "cmdsize_writes argv vars"
  obtain old where old: "load_bytes m args_ptr 1032 = Inr old" using gm.rd_ok_iff in_a by blast
  have inside: "k + length bs \<le> 1032" if "(k, bs) \<in> set ?ws" for k bs
    using that by (rule cmdsize_writes_inside [OF len])
  then obtain m' where run: "write_fields m args_ptr ?ws = Inr m'" and so: "same_outside args_ptr 1032 m m'"
    using write_fields_splices [OF wf old, of ?ws] by blast
  have read: "load m' (args_ptr + of_nat k) = Inr v"
    if "?ws = xs @ (k, bytes_of (v :: i32)) # ys" and "\<And>k' bs. (k', bs) \<in> set ys \<Longrightarrow> k' + length bs \<le> k \<or> k + 4 \<le> k'"
    for k v xs ys
  proof -
    have "load_bytes m' (args_ptr + of_nat k) (length (bytes_of v)) = Inr (bytes_of v)"
      using write_fields_read [OF wf in_a, of xs k "bytes_of v" ys m'] inside that run by simp
    then show ?thesis by (simp add: load_def from_le_to_le)
  qed
  let ?z = "[(0, bytes_of (0 :: i32)), (516, bytes_of (0 :: i32))]" and ?c = "(0 :: nat, bytes_of (of_nat (length argv) :: i32))"
  let ?e = "(516 :: nat, bytes_of (of_nat (min 128 (length vars)) :: i32))"
  have "load m' (args_ptr + of_nat 0) = Inr (of_nat (length argv) :: i32)"
    by (rule read [of "?z @ argsz_writes argv" _ _ "envsz_writes vars @ [?e]"])
      (auto simp: cmdsize_writes_def dest: in_envsz_writes [of _ _ 0, simplified])
  moreover have "load m' (args_ptr + of_nat (4 + 4 * i)) = Inr (of_nat (length (argv ! i) + 1) :: i32)"
    if i: "i < length argv" for i
  proof (rule read [of "?z @ take i (argsz_writes argv)" _ _ "drop (Suc i) (argsz_writes argv) @ ?c # envsz_writes vars @ [?e]"])
    show "?ws = (?z @ take i (argsz_writes argv)) @ (4 + 4 * i, bytes_of (of_nat (length (argv ! i) + 1) :: i32)) #
        drop (Suc i) (argsz_writes argv) @ ?c # envsz_writes vars @ [?e]"
      using id_take_nth_drop [of i "argsz_writes argv"] i
      by (simp add: cmdsize_writes_def argsz_writes_def nth_enumerate_eq)
    show "k' + length bs \<le> 4 + 4 * i \<or> 4 + 4 * i + 4 \<le> k'"
      if "(k', bs) \<in> set (drop (Suc i) (argsz_writes argv) @ ?c # envsz_writes vars @ [?e])" for k' bs
      using that in_argsz_writes [of k' bs "Suc i" argv] in_envsz_writes [of k' bs 0 vars] len i by auto
  qed
  moreover have "load m' (args_ptr + of_nat 516) = Inr (of_nat (min 128 (length vars)) :: i32)"
    by (rule read [of "?z @ argsz_writes argv @ ?c # envsz_writes vars" _ _ "[]"]) (simp_all add: cmdsize_writes_def)
  moreover have "load m' (args_ptr + of_nat (520 + 4 * i)) = Inr (of_nat (length (fst (vars ! i)) + length (snd (vars ! i)) + 2) :: i32)"
    if i: "i < min 128 (length vars)" for i
  proof (rule read [of "?z @ argsz_writes argv @ ?c # take i (envsz_writes vars)" _ _ "drop (Suc i) (envsz_writes vars) @ [?e]"])
    show "?ws = (?z @ argsz_writes argv @ ?c # take i (envsz_writes vars)) @
        (520 + 4 * i, bytes_of (of_nat (length (fst (vars ! i)) + length (snd (vars ! i)) + 2) :: i32)) #
        drop (Suc i) (envsz_writes vars) @ [?e]"
      using id_take_nth_drop [of i "envsz_writes vars"] i
      by (simp add: cmdsize_writes_def envsz_writes_def nth_enumerate_eq case_prod_unfold)
    show "k' + length bs \<le> 520 + 4 * i \<or> 520 + 4 * i + 4 \<le> k'"
      if "(k', bs) \<in> set (drop (Suc i) (envsz_writes vars) @ [?e])" for k' bs
      using that in_envsz_writes [of k' bs "Suc i" vars] by auto
  qed
  ultimately show ?thesis
    using run so by (intro exI [of _ m']) (simp add: cmdsize_post_def)
qed



subsection \<open>Copying arguments and environment\<close>

text \<open>
  The strings \<^verbatim>\<open>cmdval\<close> writes and where: \<open>ptrs\<close> and \<open>eptrs\<close> are the pointers the guest put
  into its two tables.
\<close>

definition cmdval_writes ::
  "u64 \<Rightarrow> u64 list \<Rightarrow> u64 list \<Rightarrow> u8 list list \<Rightarrow> (u8 list \<times> u8 list) list \<Rightarrow> (u64 \<times> u8 list) list" where
  "cmdval_writes base ptrs eptrs argv vars =
     map (\<lambda>(i, a). (base + ptrs ! i, a @ [0])) (enumerate 0 argv) @
     map (\<lambda>(i, k, v). (base + eptrs ! i, k @ [61] @ v @ [0])) (enumerate 0 (take 128 vars))"

text \<open>The cells \<^verbatim>\<open>cmdval\<close> reads: the two table addresses and the entries of the tables.\<close>

definition cmdval_cells :: "u64 \<Rightarrow> usize \<Rightarrow> u64 \<Rightarrow> u64 \<Rightarrow> u64 list \<Rightarrow> u64 list \<Rightarrow> (u64 \<times> u64) list" where
  "cmdval_cells base args_ptr T E ptrs eptrs =
     (args_ptr, T) # (args_ptr + 8, E) #
     map (\<lambda>(i, p). (base + T + of_nat (8 * i), p)) (enumerate 0 ptrs) @
     map (\<lambda>(i, p). (base + E + of_nat (8 * i), p)) (enumerate 0 eptrs)"

text \<open>
  A guest that did what the interface asks for: its tables lie in its memory, and it has a buffer
  for every string in its memory, no two overlapping, none overlapping the tables.
\<close>

definition cmdval_ready ::
  "hmem \<Rightarrow> usize \<Rightarrow> u64 \<Rightarrow> u64 \<Rightarrow> u64 list \<Rightarrow> u64 list \<Rightarrow> u8 list list \<Rightarrow> (u8 list \<times> u8 list) list \<Rightarrow> bool" where
  "cmdval_ready m args_ptr T E ptrs eptrs argv vars \<longleftrightarrow>
     (let ws = cmdval_writes (mem_base m) ptrs eptrs argv vars;
          cells = cmdval_cells (mem_base m) args_ptr T E ptrs eptrs in
      length ptrs = length argv \<and> length eptrs = min 128 (length vars) \<and>
      unat T + 8 * length ptrs \<le> unat (mem_size m) \<and> unat E + 8 * length eptrs \<le> unat (mem_size m) \<and>
      list_all (\<lambda>(a, v). load m a = Inr v) cells \<and>
      list_all (\<lambda>(a, bs). in_mem m a (length bs)) ws \<and>
      list_all (\<lambda>(a, bs). list_all (\<lambda>(c, v). apart a (length bs) c 8) cells) ws \<and>
      sorted_wrt (\<lambda>(a, bs) (b, cs). apart a (length bs) b (length cs)) ws)"

lemma cmdval_readyD:
  assumes "cmdval_ready m args_ptr T E ptrs eptrs argv vars"
  shows "length ptrs = length argv" and "length eptrs = min 128 (length vars)"
    and "unat T + 8 * length ptrs \<le> unat (mem_size m)" and "unat E + 8 * length eptrs \<le> unat (mem_size m)"
    and "list_all (\<lambda>(a, v). load m a = Inr v) (cmdval_cells (mem_base m) args_ptr T E ptrs eptrs)"
    and "(a, bs) \<in> set (cmdval_writes (mem_base m) ptrs eptrs argv vars) \<Longrightarrow> in_mem m a (length bs)"
    and "(a, bs) \<in> set (cmdval_writes (mem_base m) ptrs eptrs argv vars) \<Longrightarrow>
      list_all (\<lambda>(c, v). apart a (length bs) c 8) (cmdval_cells (mem_base m) args_ptr T E ptrs eptrs)"
    and "sorted_wrt (\<lambda>(a, bs) (b, cs). apart a (length bs) b (length cs)) (cmdval_writes (mem_base m) ptrs eptrs argv vars)"
  using assms by (auto simp: cmdval_ready_def Let_def list_all_iff)

text \<open>A memory in which the cells still hold what they held.\<close>

definition cells_kept :: "hmem \<Rightarrow> (u64 \<times> u64) list \<Rightarrow> hmem \<Rightarrow> bool" where
  "cells_kept m cells m' \<longleftrightarrow> mem_wf m' \<and> mem_base m' = mem_base m \<and> mem_size m' = mem_size m \<and>
     list_all (\<lambda>(a, v). load m' a = Inr v) cells"

lemma cells_kept_store:
  assumes kept: "cells_kept m cells m1" and st: "store_bytes m1 a bs = Inr m2"
    and apart: "list_all (\<lambda>(c, v). apart a (length bs) c 8) cells"
  shows "cells_kept m cells m2"
proof -
  have wf: "mem_wf m1" using kept by (simp add: cells_kept_def)
  note so = same_outsideD [OF store_bytes_same_outside [OF wf st]]
  have "load m2 c = Inr v" if cv: "(c, v) \<in> set cells" for c v
  proof -
    have "load m1 c = Inr v" and "apart a (length bs) c 8"
      using kept apart cv by (auto simp: cells_kept_def list_all_iff)
    with so(5) [of c 8] show ?thesis by (simp add: load_def)
  qed
  then show ?thesis using kept so wf by (auto simp: cells_kept_def list_all_iff)
qed

lemma copy_string_store:
  assumes kept: "cells_kept m cells m1" and "i < length ptrs" and "length ptrs < 2 ^ 31"
    and cell: "(mem_base m + T + of_nat (8 * i), ptrs ! i) \<in> set cells"
    and wf: "mem_wf m" and T: "unat T + 8 * length ptrs \<le> unat (mem_size m)"
    and buf: "in_mem m (mem_base m + ptrs ! i) n"
  shows "copy_string oc (mem_base m) (mem_base m + T) m1 (of_nat i) bs = store_bytes m1 (mem_base m + ptrs ! i) bs"
proof -
  have ui: "unat (of_nat i :: u64) = i" using assms(2,3) by (intro unat_of_nat_less) simp
  have "mul_oc oc (scast (of_nat i :: i32)) 8 = Inr (of_nat (8 * i) :: u64)"
    using assms(2,3) ui mul_oc_no_overflow(1) [of "of_nat i :: u64" 8 oc]
    by (simp add: scast_of_nat_i32 mult.commute)
  moreover have "add_oc oc (mem_base m + T) (of_nat (8 * i)) = Inr (mem_base m + T + of_nat (8 * i))"
  proof -
    have "unat (mem_base m + T) = unat (mem_base m) + unat T"
      by (rule phys_in_mem(1) [OF wf, of T 0]) (use T in simp)
    moreover have "unat (of_nat (8 * i) :: u64) = 8 * i" using assms(2,3) by (intro unat_of_nat_less) simp
    ultimately show ?thesis using T wf assms(2) by (intro add_oc_no_overflow) (simp add: mem_wf_def)
  qed
  moreover have "load m1 (mem_base m + T + of_nat (8 * i)) = Inr (ptrs ! i)"
    using kept cell by (auto simp: cells_kept_def list_all_iff)
  ultimately show ?thesis
    using host_address_in_mem [OF buf, of oc] by (simp add: copy_string_def)
qed

lemma kept_writes:
  assumes "cells_kept m cells m1" and "for_each (\<lambda>m (a, bs). store_bytes m a bs) m1 ws = Inr m2"
    and "\<And>a bs. (a, bs) \<in> set ws \<Longrightarrow> list_all (\<lambda>(c, v). apart a (length bs) c 8) cells"
  shows "cells_kept m cells m2"
  by (rule for_each_invariant [where I = "cells_kept m cells", OF _ assms(1,2)]) (use assms(3) in \<open>auto dest: cells_kept_store\<close>)

lemma copy_loop:
  assumes wf: "mem_wf m" and T: "unat T + 8 * length ptrs \<le> unat (mem_size m)"
    and kept: "cells_kept m cells m1" and len: "length ptrs < 2 ^ 31"
    and cells: "\<And>i. i < length ptrs \<Longrightarrow> (mem_base m + T + of_nat (8 * i), ptrs ! i) \<in> set cells"
    and items: "\<And>i x. (i, x) \<in> set xs \<Longrightarrow> i < length ptrs \<and> in_mem m (mem_base m + ptrs ! i) (length (g x)) \<and>
      list_all (\<lambda>(c, v). apart (mem_base m + ptrs ! i) (length (g x)) c 8) cells"
  shows "for_each (\<lambda>m' (i, x). copy_string oc (mem_base m) (mem_base m + T) m' (of_nat i) (g x)) m1 xs =
    for_each (\<lambda>m (a, bs). store_bytes m a bs) m1 (map (\<lambda>(i, x). (mem_base m + ptrs ! i, g x)) xs)"
  unfolding for_each_map
proof (rule for_each_cong_invariant [where I = "cells_kept m cells"])
  fix m' :: hmem and y :: "nat \<times> 'a"
  assume y: "y \<in> set xs" and inv: "cells_kept m cells m'"
  obtain i x where [simp]: "y = (i, x)" by (cases y)
  show "(case y of (i, x) \<Rightarrow> copy_string oc (mem_base m) (mem_base m + T) m' (of_nat i) (g x)) =
      (case (case y of (i, x) \<Rightarrow> (mem_base m + ptrs ! i, g x)) of (a, bs) \<Rightarrow> store_bytes m' a bs)"
    using copy_string_store [OF inv _ len cells wf T, where n = "length (g x)"] items [of i x] y by simp
  show "cells_kept m cells m''"
    if "(case (case y of (i, x) \<Rightarrow> (mem_base m + ptrs ! i, g x)) of (a, bs) \<Rightarrow> store_bytes m' a bs) = Inr m''" for m''
    using that items [of i x] y inv by (auto intro: cells_kept_store)
qed (rule kept)

lemma cmdval_eq:
  assumes wf: "mem_wf m" and ready: "cmdval_ready m args_ptr T E ptrs eptrs (path # app_args args) vars"
    and len: "length args < 2 ^ 31 - 1"
  shows "cmdval oc (mem_base m) path args vars m args_ptr =
    for_each (\<lambda>m (a, bs). store_bytes m a bs) m (cmdval_writes (mem_base m) ptrs eptrs (path # app_args args) vars)"
proof -
  let ?b = "mem_base m" and ?app = "app_args args"
  define cells where "cells = cmdval_cells ?b args_ptr T E ptrs eptrs"
  let ?W1 = "map (\<lambda>(i, a). (?b + ptrs ! i, a @ [0])) (enumerate 1 ?app)"
  let ?W2 = "map (\<lambda>(i, k, v). (?b + eptrs ! i, k @ [61] @ v @ [0])) (enumerate 0 (take 128 vars))"
  have ws: "cmdval_writes ?b ptrs eptrs (path # ?app) vars = (?b + ptrs ! 0, path @ [0]) # ?W1 @ ?W2"
    by (simp add: cmdval_writes_def)
  note facts = cmdval_readyD [OF ready]
  have lens: "length ptrs = Suc (length ?app)" "length eptrs = min 128 (length vars)"
    using facts(1,2) by simp_all
  note T = facts(3) and E = facts(4)
  note inm = facts(6) [unfolded ws] and apart = facts(7) [unfolded ws, folded cells_def]
  have kept: "cells_kept m cells m" using facts(5) wf by (simp add: cells_kept_def cells_def)
  have in_cells: "(args_ptr, T) \<in> set cells" "(args_ptr + 8, E) \<in> set cells"
    "\<And>i. i < length ptrs \<Longrightarrow> (?b + T + of_nat (8 * i), ptrs ! i) \<in> set cells"
    "\<And>i. i < length eptrs \<Longrightarrow> (?b + E + of_nat (8 * i), eptrs ! i) \<in> set cells"
    by (force simp: cells_def cmdval_cells_def in_set_enumerate_eq)+
  have cell: "load m' a = Inr v" if "cells_kept m cells m'" "(a, v) \<in> set cells" for m' a v
    using that by (auto simp: cells_kept_def list_all_iff)
  have tables: "host_address oc ?b T = Inr (?b + T)" "host_address oc ?b E = Inr (?b + E)"
    using T E phys_in_mem(2) [OF wf, of _ 0] by (auto intro!: host_address_in_mem [of m _ 0])
  have small: "length ptrs < 2 ^ 31" "length eptrs < 2 ^ 31"
    using lens len app_args_length [of args] by auto
  have args: "arg_loop oc (\<lambda>m i a. copy_string oc ?b (?b + T) m i (a @ [0])) m1 args =
      map_ok (\<lambda>m. (m, of_nat (length args), of_nat (sep_pos args), dashes \<in> set args))
        (for_each (\<lambda>m (a, bs). store_bytes m a bs) m1 ?W1)" if "cells_kept m cells m1" for m1
  proof -
    have items: "i < length ptrs \<and> in_mem m (?b + ptrs ! i) (length (x @ [0])) \<and>
        list_all (\<lambda>(c, v). apart (?b + ptrs ! i) (length (x @ [0])) c 8) cells"
      if ix: "(i, x) \<in> set (enumerate 1 ?app)" for i x
    proof -
      have "(?b + ptrs ! i, x @ [0]) \<in> set ?W1"
        unfolding set_map by (rule image_eqI [OF _ ix]) simp
      then have mem: "(?b + ptrs ! i, x @ [0]) \<in> set ((?b + ptrs ! 0, path @ [0]) # ?W1 @ ?W2)" by simp
      show ?thesis using inm [OF mem] apart [OF mem] ix lens by (simp add: in_set_enumerate_eq)
    qed
    have "for_each (\<lambda>m' (i, a). copy_string oc ?b (?b + T) m' (of_nat i) (a @ [0])) m1 (enumerate 1 ?app) =
        for_each (\<lambda>m (a, bs). store_bytes m a bs) m1 ?W1"
      by (rule copy_loop [OF wf T that small(1)]) (erule in_cells(3), erule items)
    then show ?thesis unfolding arg_loop_eq [OF len] by simp
  qed
  have envs: "env_loop oc (\<lambda>m i (key, val). copy_string oc ?b (?b + E) m i (key @ [61] @ val @ [0])) m2 vars =
      map_ok (\<lambda>m. (m, of_nat (min 128 (length vars)))) (for_each (\<lambda>m (a, bs). store_bytes m a bs) m2 ?W2)"
    if "cells_kept m cells m2" for m2
  proof -
    have items: "i < length eptrs \<and> in_mem m (?b + eptrs ! i) (length (case x of (k, v) \<Rightarrow> k @ [61] @ v @ [0])) \<and>
        list_all (\<lambda>(c, v). apart (?b + eptrs ! i) (length (case x of (k, v) \<Rightarrow> k @ [61] @ v @ [0])) c 8) cells"
      if ix: "(i, x) \<in> set (enumerate 0 (take 128 vars))" for i x
    proof -
      have "(?b + eptrs ! i, case x of (k, v) \<Rightarrow> k @ [61] @ v @ [0]) \<in> set ?W2"
        unfolding set_map by (rule image_eqI [OF _ ix]) (simp split: prod.splits)
      then have mem: "(?b + eptrs ! i, case x of (k, v) \<Rightarrow> k @ [61] @ v @ [0]) \<in>
          set ((?b + ptrs ! 0, path @ [0]) # ?W1 @ ?W2)" by simp
      show ?thesis using inm [OF mem] apart [OF mem] ix lens by (simp add: in_set_enumerate_eq)
    qed
    have "for_each (\<lambda>m' (i, x). copy_string oc ?b (?b + E) m' (of_nat i) (case x of (k, v) \<Rightarrow> k @ [61] @ v @ [0])) m2
          (enumerate 0 (take 128 vars)) =
        for_each (\<lambda>m (a, bs). store_bytes m a bs) m2
          (map (\<lambda>(i, x). (?b + eptrs ! i, case x of (k, v) \<Rightarrow> k @ [61] @ v @ [0])) (enumerate 0 (take 128 vars)))"
      by (rule copy_loop [OF wf E that small(2)]) (erule in_cells(4), erule items)
    then show ?thesis unfolding env_loop_eq by (simp add: case_prod_unfold)
  qed
  have first: "load m (?b + T) = Inr (ptrs ! 0)" "host_address oc ?b (ptrs ! 0) = Inr (?b + ptrs ! 0)"
    using cell [OF kept in_cells(3) [of 0]] lens host_address_in_mem [OF inm [of "?b + ptrs ! 0" "path @ [0]"]] by simp_all
  have start: "load m (args_ptr + SysCmdval_argv) = Inr T" using cell [OF kept in_cells(1)] by (simp add: layout)
  show ?thesis
  proof (cases "store_bytes m (?b + ptrs ! 0) (path @ [0])")
    case (Inr m1)
    have k1: "cells_kept m cells m1"
      using cells_kept_store [OF kept Inr] apart [of "?b + ptrs ! 0" "path @ [0]"] by simp
    show ?thesis
    proof (cases "for_each (\<lambda>m (a, bs). store_bytes m a bs) m1 ?W1")
      case Inl
      then show ?thesis
        unfolding cmdval_def ws start and_then.simps tables first Inr args [OF k1] for_each.simps for_each_append
          prod.case by simp
    next
      case W1: (Inr m2)
      have k2: "cells_kept m cells m2" by (rule kept_writes [OF k1 W1]) (rule apart, simp)
      have e: "load m2 (args_ptr + SysCmdval_envp) = Inr E" using cell [OF k2 in_cells(2)] by (simp add: layout)
      show ?thesis
        unfolding cmdval_def ws start and_then.simps tables first Inr args [OF k1] for_each.simps for_each_append
          prod.case W1 map_ok.simps e envs [OF k2] map_ok_map_ok fst_conv map_ok_ident ..
    qed
  qed (simp add: cmdval_def ws start tables first)
qed

lemma cmdval_copies:
  assumes wf: "mem_wf m" and ready: "cmdval_ready m args_ptr T E ptrs eptrs (path # app_args args) vars"
    and len: "length args < 2 ^ 31 - 1"
  shows "\<exists>m'. cmdval oc (mem_base m) path args vars m args_ptr = Inr m' \<and>
    (\<forall>(a, bs) \<in> set (cmdval_writes (mem_base m) ptrs eptrs (path # app_args args) vars).
       load_bytes m' a (length bs) = Inr bs) \<and>
    (\<forall>c n. (\<forall>(a, bs) \<in> set (cmdval_writes (mem_base m) ptrs eptrs (path # app_args args) vars).
       apart a (length bs) c n) \<longrightarrow> load_bytes m' c n = load_bytes m c n)"
proof -
  let ?ws = "cmdval_writes (mem_base m) ptrs eptrs (path # app_args args) vars"
  note facts = cmdval_readyD [OF ready]
  obtain m' where run: "for_each (\<lambda>m (a, bs). store_bytes m a bs) m ?ws = Inr m'"
    using gm.writes_total [of ?ws m] facts(6) by blast
  have "load_bytes m' a (length bs) = Inr bs" if ab: "(a, bs) \<in> set ?ws" for a bs
  proof -
    obtain xs ys where ws: "?ws = xs @ (a, bs) # ys" using split_list [OF ab] by blast
    have "apart b (length cs) a (length bs)" if "(b, cs) \<in> set ys" for b cs
    proof -
      have "apart a (length bs) b (length cs)" using facts(8) that unfolding ws by (auto simp: sorted_wrt_append)
      then show ?thesis by (auto simp: apart_def)
    qed
    then show ?thesis using gm.writes_read [OF wf, of xs a bs ys m'] run unfolding ws by blast
  qed
  moreover have "load_bytes m' c n = load_bytes m c n"
    if "\<forall>(a, bs) \<in> set ?ws. apart a (length bs) c n" for c n
    using gm.writes_apart [OF wf run, of c n] that by blast
  ultimately show ?thesis using run cmdval_eq [OF wf ready len, of oc] by auto
qed

lemma in_cmdval_writes:
  "i < length argv \<Longrightarrow> (base + ptrs ! i, argv ! i @ [0]) \<in> set (cmdval_writes base ptrs eptrs argv vars)"
  "j < min 128 (length vars) \<Longrightarrow> (base + eptrs ! j, fst (vars ! j) @ [61] @ snd (vars ! j) @ [0]) \<in>
     set (cmdval_writes base ptrs eptrs argv vars)"
proof -
  assume "i < length argv"
  then have "(i, argv ! i) \<in> set (enumerate 0 argv)" by (simp add: in_set_enumerate_eq)
  then show "(base + ptrs ! i, argv ! i @ [0]) \<in> set (cmdval_writes base ptrs eptrs argv vars)"
    unfolding cmdval_writes_def by (auto intro!: image_eqI [of _ _ "(i, argv ! i)"])
next
  assume "j < min 128 (length vars)"
  then have "(j, vars ! j) \<in> set (enumerate 0 (take 128 vars))" by (simp add: in_set_enumerate_eq)
  then show "(base + eptrs ! j, fst (vars ! j) @ [61] @ snd (vars ! j) @ [0]) \<in> set (cmdval_writes base ptrs eptrs argv vars)"
    unfolding cmdval_writes_def by (auto intro!: image_eqI [of _ _ "(j, vars ! j)"] simp: case_prod_unfold)
qed

text \<open>
  C12. \<^verbatim>\<open>cmdval\<close> fills exactly the buffers \<^verbatim>\<open>cmdsize\<close> announced: for a guest whose buffers lie in its
  memory and do not overlap, buffer \<open>i\<close> receives argument \<open>i\<close> and a zero (kernel path first), and
  environment buffer \<open>j\<close> receives key, \<^verbatim>\<open>=\<close>, value and a zero; each string has the length
  \<^verbatim>\<open>cmdsize\<close> stored for it, and no byte outside these buffers changes.
\<close>

theorem cmdval_fills_announced_buffers:
  assumes wf: "mem_wf m" and strings: "strings_ok path args vars"
    and sizes: "cmdsize oc path args vars m0 sz_ptr = Inr m1" "mem_wf m0" "in_mem m0 sz_ptr 1032"
    and ready: "cmdval_ready m args_ptr T E ptrs eptrs (path # app_args args) vars"
  shows "\<exists>m'. cmdval oc (mem_base m) path args vars m args_ptr = Inr m' \<and>
    (\<forall>i < length (path # app_args args). let bs = (path # app_args args) ! i @ [0] in
       load_bytes m' (mem_base m + ptrs ! i) (length bs) = Inr bs \<and>
       load m1 (sz_ptr + of_nat (4 + 4 * i)) = Inr (of_nat (length bs) :: i32)) \<and>
    (\<forall>j < min 128 (length vars). let bs = fst (vars ! j) @ [61] @ snd (vars ! j) @ [0] in
       load_bytes m' (mem_base m + eptrs ! j) (length bs) = Inr bs \<and>
       load m1 (sz_ptr + of_nat (520 + 4 * j)) = Inr (of_nat (length bs) :: i32)) \<and>
    (\<forall>c n. (\<forall>(a, bs) \<in> set (cmdval_writes (mem_base m) ptrs eptrs (path # app_args args) vars).
       apart a (length bs) c n) \<longrightarrow> load_bytes m' c n = load_bytes m c n)"
proof -
  let ?argv = "path # app_args args"
  have "length args < 2 ^ 31 - 1" and len: "length ?argv \<le> 128" using strings by (simp_all add: strings_ok_def)
  from cmdval_copies [OF wf ready this(1), of oc] obtain m' where run: "cmdval oc (mem_base m) path args vars m args_ptr = Inr m'"
    and copies: "\<And>a bs. (a, bs) \<in> set (cmdval_writes (mem_base m) ptrs eptrs ?argv vars) \<Longrightarrow> load_bytes m' a (length bs) = Inr bs"
    and frame: "\<forall>c n. (\<forall>(a, bs) \<in> set (cmdval_writes (mem_base m) ptrs eptrs ?argv vars). apart a (length bs) c n) \<longrightarrow>
      load_bytes m' c n = load_bytes m c n" by blast
  have post: "cmdsize_post ?argv vars m0 sz_ptr m1"
    using cmdsize_writes_post [OF sizes(2,3) len, of vars] sizes(1) unfolding cmdsize_eq [OF strings] by auto
  have "let bs = ?argv ! i @ [0] in load_bytes m' (mem_base m + ptrs ! i) (length bs) = Inr bs \<and>
      load m1 (sz_ptr + of_nat (4 + 4 * i)) = Inr (of_nat (length bs) :: i32)" if "i < length ?argv" for i
    using copies [OF in_cmdval_writes(1) [OF that]] post that unfolding cmdsize_post_def Let_def by auto
  moreover have "let bs = fst (vars ! j) @ [61] @ snd (vars ! j) @ [0] in
      load_bytes m' (mem_base m + eptrs ! j) (length bs) = Inr bs \<and>
      load m1 (sz_ptr + of_nat (520 + 4 * j)) = Inr (of_nat (length bs) :: i32)" if "j < min 128 (length vars)" for j
    using copies [OF in_cmdval_writes(2) [OF that]] post that unfolding cmdsize_post_def Let_def
    by (auto simp: add.commute add.left_commute)
  ultimately show ?thesis using run frame by blast
qed

text \<open>A guest with room for one argument behind the kernel path and one environment string.\<close>

definition sample_guest :: hmem where
  "sample_guest = \<lparr>mem_base = 0x10000, mem_size = 0x1000, mem_bytes = (\<lambda>a.
     if a = 0x10101 then 2 else if a = 0x10109 then 3 else if a = 0x10201 then 4
     else if a = 0x10208 then 0x10 else if a = 0x10209 then 4
     else if a = 0x10300 then 0x20 else if a = 0x10301 then 4 else 0)\<rparr>"

lemma sample_guest_ready:
  "cmdval_ready sample_guest 0x10100 0x200 0x300 [0x400, 0x410] [0x420] [[47, 107], [97, 98]] [([72], [48])]"
  by (simp add: cmdval_ready_def Let_def cmdval_cells_def cmdval_writes_def sample_guest_def load_def load_bytes_def
      read_bytes_def in_mem_def apart_def upt_rec)

theorem cmdval_fills_announced_buffers_witness:
  "\<exists>m'. cmdval True 0x10000 [47, 107] [[117], [45, 45], [97, 98]] [([72], [48])] sample_guest 0x10100 = Inr m' \<and>
     load_bytes m' 0x10410 3 = Inr [97, 98, 0] \<and> load_bytes m' 0x10420 4 = Inr [72, 61, 48, 0]"
proof -
  let ?m = "\<lparr>mem_base = 0x10000, mem_size = 0x1000, mem_bytes = (\<lambda>_. 0)\<rparr> :: hmem"
  let ?args = "[[117], [45, 45], [97, 98]] :: u8 list list" and ?vars = "[([72], [48])] :: (u8 list \<times> u8 list) list"
  have app: "app_args ?args = [[97, 98]]" by (simp add: app_args_def dashes_def)
  have ok: "strings_ok [47, 107] ?args ?vars" by (simp add: strings_ok_def app)
  obtain m1 where m1: "cmdsize True [47, 107] ?args ?vars ?m 0x10100 = Inr m1"
    using cmdsize_writes_post [of ?m "0x10100" "[47, 107] # app_args ?args" ?vars] cmdsize_eq [OF ok, of True ?m "0x10100"]
    by (auto simp: mem_wf_def in_mem_def app)
  have ready: "cmdval_ready sample_guest 0x10100 0x200 0x300 [0x400, 0x410] [0x420] ([47, 107] # app_args ?args) ?vars"
    unfolding app by (rule sample_guest_ready)
  have "mem_wf sample_guest" "mem_wf ?m" "in_mem ?m 0x10100 1032"
    by (simp_all add: sample_guest_def mem_wf_def in_mem_def)
  from cmdval_fills_announced_buffers [OF this(1) ok m1 this(2,3) ready] obtain m' where
    run: "cmdval True (mem_base sample_guest) [47, 107] ?args ?vars sample_guest 0x10100 = Inr m'"
    and args: "\<forall>i < length ([47, 107] # app_args ?args). let bs = ([47, 107] # app_args ?args) ! i @ [0] in
      load_bytes m' (mem_base sample_guest + [0x400, 0x410] ! i) (length bs) = Inr bs \<and>
      load m1 (0x10100 + of_nat (4 + 4 * i)) = Inr (of_nat (length bs) :: i32)"
    and envs: "\<forall>j < min 128 (length ?vars). let bs = fst (?vars ! j) @ [61] @ snd (?vars ! j) @ [0] in
      load_bytes m' (mem_base sample_guest + [0x420] ! j) (length bs) = Inr bs \<and>
      load m1 (0x10100 + of_nat (520 + 4 * j)) = Inr (of_nat (length bs) :: i32)"
    by blast
  have base: "mem_base sample_guest = 0x10000" by (simp add: sample_guest_def)
  have "load_bytes m' 0x10410 3 = Inr [97, 98, 0]"
    using args [rule_format, of 1] by (simp add: app base Let_def eval_nat_numeral)
  moreover have "load_bytes m' 0x10420 4 = Inr [72, 61, 48, 0]"
    using envs [rule_format, of 0] by (simp add: base Let_def eval_nat_numeral)
  ultimately show ?thesis using run by (auto simp: base)
qed

text \<open>
  More than 127 arguments behind the first \<^verbatim>\<open>--\<close> stop the hypervisor: the size table of the
  interface has 128 entries, one of them for the kernel path, and the command line accepts 255
  arguments.
\<close>

theorem cmdsize_too_many_arguments:
  assumes wf: "mem_wf m" and in_a: "in_mem m args_ptr 1032" and len: "length args < 2 ^ 31 - 1"
    and many: "128 \<le> length (app_args args)"
    and short: "list_all (\<lambda>s. length s < 2 ^ 31 - 2) (path # args)"
  shows "cmdsize oc path args vars m args_ptr = Inl IndexOutOfBounds"
proof -
  define xs y ys where "xs = take 127 (app_args args)" and "y = app_args args ! 127" and "ys = drop 128 (app_args args)"
  have app: "app_args args = xs @ y # ys" and xs: "length xs = 127"
    using many id_take_nth_drop [of 127 "app_args args"] by (auto simp: xs_def y_def ys_def)
  have short': "length path < 2 ^ 31 - 2" "\<And>s. s \<in> set xs \<Longrightarrow> length s < 2 ^ 31 - 2" "length y < 2 ^ 31 - 2"
    using short app_args_subset [of args] unfolding app by (auto simp: list_all_iff)
  let ?ws = "(0, bytes_of (0 :: i32)) # (516, bytes_of (0 :: i32)) # (4, bytes_of (of_nat (length path + 1) :: i32)) #
    map (\<lambda>(i, a). (4 + 4 * i, bytes_of (of_nat (length a + 1) :: i32))) (enumerate 1 xs)"
  obtain old where old: "load_bytes m args_ptr 1032 = Inr old" using gm.rd_ok_iff in_a by blast
  have "k + length bs \<le> 1032" if "(k, bs) \<in> set ?ws" for k bs
    using that xs by (auto simp: in_set_enumerate_eq)
  then obtain m2 where m2: "write_fields m args_ptr ?ws = Inr m2"
    using write_fields_splices [OF wf old, of ?ws] by blast
  have args: "for_each (\<lambda>m (i, s). cmdsize_arg oc args_ptr m (of_nat i) s) m' (enumerate 1 xs) =
      write_fields m' args_ptr (map (\<lambda>(i, a). (4 + 4 * i, bytes_of (of_nat (length a + 1) :: i32))) (enumerate 1 xs))" for m'
    by (rule cmdsize_args_writes) (use xs short' in auto)
  have stop: "cmdsize_arg oc args_ptr m' 128 y = Inl IndexOutOfBounds" for m'
    using i32_arith(1) [of "length y" 1 oc] short'(3) scast_of_nat_i32 [of 128]
    by (simp add: cmdsize_arg_def set_size_def MAX_ARGC_def)
  show ?thesis
    using m2 unfolding write_fields_Cons cmdsize_def cmdsize_count_store cmdsize_path_store [OF short'(1)]
      arg_loop_eq [OF len] app enumerate_append_eq for_each_append args
    by (auto simp: and_then_eq_Inr xs stop)
qed

theorem cmdsize_too_many_arguments_witness:
  "cmdsize False [47] (dashes # replicate 128 []) [] \<lparr>mem_base = 0x10000, mem_size = 0x1000, mem_bytes = (\<lambda>_. 0)\<rparr> 0x10100 =
   Inl IndexOutOfBounds"
  by (rule cmdsize_too_many_arguments)
    (simp_all add: mem_wf_def in_mem_def app_args_def list_all_iff dashes_def)

end
