(* ===== verification/Virtqueue.thy ===== *)
theory Virtqueue
  imports GuestMemory Consts
begin

text \<open>
  The virtqueues of the network device (\<^verbatim>\<open>src/linux/virtqueue.rs\<close>). A queue is three structures in
  guest memory at fixed distances: the descriptor table, the ring of available buffers the driver
  fills, and the ring of used buffers the device fills. Both rings start with two 16-bit words, the
  flags and a free-running index.
\<close>

subsection \<open>Rings\<close>

definition QUEUE_LIMIT :: usize where "QUEUE_LIMIT = 256"

definition VringDescriptor_addr :: u64 where [layout]: "VringDescriptor_addr = 0"
definition VringDescriptor_len :: u64 where [layout]: "VringDescriptor_len = 8"
definition VringDescriptor_flags :: u64 where [layout]: "VringDescriptor_flags = 12"
definition VringDescriptor_next :: u64 where [layout]: "VringDescriptor_next = 14"
definition VringDescriptor_size :: u64 where [layout]: "VringDescriptor_size = 16"

definition VringUsedElement_id :: u64 where [layout]: "VringUsedElement_id = 0"
definition VringUsedElement_len :: u64 where [layout]: "VringUsedElement_len = 4"
definition VringUsedElement_size :: u64 where [layout]: "VringUsedElement_size = 8"

text \<open>A ring is a pointer; the element type is a phantom parameter of the source.\<close>

record Vring =
  vring_mem :: u64

definition Vring_new :: "u64 \<Rightarrow> Vring" where
  "Vring_new a = \<lparr>vring_mem = a\<rparr>"

definition vring_flags :: "hmem \<Rightarrow> Vring \<Rightarrow> u16 res" where
  "vring_flags m r = load m (vring_mem r)"

definition vring_index :: "hmem \<Rightarrow> Vring \<Rightarrow> u16 res" where
  "vring_index m r = load m (vring_mem r + 2)"

definition advance_index :: "bool \<Rightarrow> hmem \<Rightarrow> Vring \<Rightarrow> hmem res" where
  "advance_index oc m r =
     and_then (vring_index m r) (\<lambda>i.
     and_then (add_oc oc i 1) (\<lambda>new_value.
     store m (vring_mem r + 2) new_value))"

text \<open>The address of an element; the offset is computed in 16 bits.\<close>

definition ring_elem :: "bool \<Rightarrow> u64 \<Rightarrow> Vring \<Rightarrow> u16 \<Rightarrow> u64 res" where
  "ring_elem oc size_of_T r i =
     (let elem_size = ucast size_of_T :: u16 in
      and_then (mul_oc oc i elem_size) (\<lambda>k.
      and_then (add_oc oc 4 k) (\<lambda>k.
      Inr (vring_mem r + ucast k))))"

subsection \<open>Queues\<close>

record Virtqueue =
  descriptor_table :: u64
  available_ring :: Vring
  used_ring :: Vring
  last_seen_available :: u16
  last_seen_used :: u16
  queue_size :: u16

definition align :: "bool \<Rightarrow> usize \<Rightarrow> usize \<Rightarrow> usize res" where
  "align oc addr boundary =
     and_then (add_oc oc addr boundary) (\<lambda>s.
     and_then (sub_oc oc s 1) (\<lambda>s.
     and_then (sub_oc oc boundary 1) (\<lambda>b.
     Inr (s AND NOT b))))"

definition get_available_ring_offset :: "bool \<Rightarrow> usize res" where
  "get_available_ring_offset oc = mul_oc oc VringDescriptor_size QUEUE_LIMIT"

definition get_used_ring_offset :: "bool \<Rightarrow> usize res" where
  "get_used_ring_offset oc =
     and_then (get_available_ring_offset oc) (\<lambda>a.
     and_then (add_oc oc QUEUE_LIMIT 3) (\<lambda>n.
     and_then (mul_oc oc 2 n) (\<lambda>n.
     and_then (add_oc oc a n) (\<lambda>e.
     align oc e PAGE_SIZE))))"

definition Virtqueue_new :: "bool \<Rightarrow> u64 \<Rightarrow> usize \<Rightarrow> Virtqueue res" where
  "Virtqueue_new oc mem qs =
     and_then (get_available_ring_offset oc) (\<lambda>a.
     and_then (get_used_ring_offset oc) (\<lambda>u.
     Inr \<lparr>descriptor_table = mem, available_ring = Vring_new (mem + a), used_ring = Vring_new (mem + u),
       last_seen_available = 0, last_seen_used = 0, queue_size = ucast qs\<rparr>))"

definition get_descriptor :: "Virtqueue \<Rightarrow> u16 \<Rightarrow> u64" where
  "get_descriptor q i = descriptor_table q + VringDescriptor_size * ucast i"

text \<open>
  One step of the iterator over the new entries of the available ring, and the loop that collects
  them. The loop reads the driver's index again in every step; the memory is the one the device sees
  while it runs.
\<close>

definition avail_next :: "bool \<Rightarrow> hmem \<Rightarrow> Virtqueue \<Rightarrow> (u16 option \<times> Virtqueue) res" where
  "avail_next oc m q =
     and_then (vring_index m (available_ring q)) (\<lambda>i.
     if last_seen_available q = i then Inr (None, q)
     else
       and_then (rem_oc (last_seen_available q) (queue_size q)) (\<lambda>index.
       and_then (add_oc oc (last_seen_available q) 1) (\<lambda>l.
       Inr (Some index, q\<lparr>last_seen_available := l\<rparr>))))"

definition pending :: "hmem \<Rightarrow> Virtqueue \<Rightarrow> nat" where
  "pending m q = (case vring_index m (available_ring q) of Inl _ \<Rightarrow> 0 | Inr i \<Rightarrow> unat (i - last_seen_available q))"

lemma unat_dec: "(w :: 'a::len word) \<noteq> 0 \<Longrightarrow> unat (w - 1) < unat w"
  by (simp add: unat_gt_0 measure_unat)

lemma avail_next_pending:
  assumes "avail_next oc m q = Inr (Some k, q')"
  shows "pending m q' < pending m q"
proof -
  obtain i where i: "vring_index m (available_ring q) = Inr i" "i \<noteq> last_seen_available q"
    "q' = q\<lparr>last_seen_available := last_seen_available q + 1\<rparr>"
    using assms by (auto simp: avail_next_def res_iffs split: if_splits dest: oc_results)
  have "unat (i - last_seen_available q - 1) < unat (i - last_seen_available q)"
    by (rule unat_dec) (use i(2) in simp)
  then show ?thesis using i by (simp add: pending_def diff_diff_eq)
qed

function avail_collect :: "bool \<Rightarrow> hmem \<Rightarrow> Virtqueue \<Rightarrow> u16 list \<Rightarrow> (u16 list \<times> Virtqueue) res" where
  "avail_collect oc m q send_indices =
     (case avail_next oc m q of
        Inl f \<Rightarrow> Inl f
      | Inr (None, q) \<Rightarrow> Inr (send_indices, q)
      | Inr (Some i, q) \<Rightarrow> avail_collect oc m q (send_indices @ [i]))"
  by pat_completeness auto
termination
  by (relation "measure (\<lambda>(oc, m, q, acc). pending m q)") (auto dest: avail_next_pending)

declare avail_collect.simps [simp del]

definition add_used :: "bool \<Rightarrow> hmem \<Rightarrow> Virtqueue \<Rightarrow> u32 \<Rightarrow> u32 \<Rightarrow> hmem res" where
  "add_used oc m q desc_index len =
     and_then (vring_index m (used_ring q)) (\<lambda>i.
     and_then (rem_oc i (queue_size q)) (\<lambda>tgt_index.
     and_then (ring_elem oc VringUsedElement_size (used_ring q) tgt_index) (\<lambda>used_elem.
     and_then (store m (used_elem + VringUsedElement_id) desc_index) (\<lambda>m.
     and_then (store m (used_elem + VringUsedElement_len) len) (\<lambda>m.
     advance_index oc m (used_ring q))))))"

subsection \<open>Layout\<close>

text \<open>Rounding up to a power of two.\<close>

lemma align_eq:
  fixes addr :: usize
  assumes "k < 64" and "unat addr + 2 ^ k < 2 ^ 64"
  shows "\<exists>r. align oc addr (2 ^ k) = Inr r \<and> unat r = (unat addr + 2 ^ k - 1) div 2 ^ k * 2 ^ k"
proof -
  have "unat (of_nat (2 ^ k) :: usize) = 2 ^ k" by (rule unat_of_nat_less) (use assms(2) in simp)
  then have u: "unat (2 ^ k :: usize) = 2 ^ k" by simp
  have pos: "(1 :: usize) \<le> 2 ^ k" and pos': "(1 :: usize) \<le> addr + 2 ^ k"
    using assms u one_le_power [of "2 :: nat" k] by (simp_all add: word_le_nat_alt unat_word_ariths trans_le_add2)
  let ?s = "addr + 2 ^ k - 1"
  have s: "unat ?s = unat addr + 2 ^ k - 1"
    using assms u pos' by (simp add: unat_sub word_le_nat_alt unat_word_ariths)
  have "?s AND NOT (2 ^ k - 1) = push_bit k (drop_bit k ?s)"
    by (rule bit_word_eqI) (auto simp: bit_simps simp flip: mask_eq_exp_minus_1)
  moreover have "unat (push_bit k (drop_bit k ?s)) = unat ?s div 2 ^ k * 2 ^ k"
  proof -
    have "unat ?s div 2 ^ k * 2 ^ k < 2 ^ 64"
      by (rule le_less_trans [OF div_times_less_eq_dividend]) (use unsigned_less [of ?s, where 'a = nat] in simp)
    then show ?thesis
      by (simp add: push_bit_eq_mult drop_bit_eq_div unat_word_ariths(2) unat_div u)
  qed
  ultimately show ?thesis
    using add_oc_no_overflow [of addr "2 ^ k" oc] assms u
    by (auto simp: align_def sub_oc_no_underflow pos pos' s)
qed

lemma ring_offsets:
  "get_available_ring_offset oc = Inr 4096" "get_used_ring_offset oc = Inr 8192"
  by (simp_all add: get_used_ring_offset_def get_available_ring_offset_def layout QUEUE_LIMIT_def PAGE_SIZE_def
      align_def add_oc_def mul_oc_def sub_oc_def)

lemma Virtqueue_new_eq:
  "Virtqueue_new oc a n = Inr \<lparr>descriptor_table = a, available_ring = \<lparr>vring_mem = a + 4096\<rparr>,
     used_ring = \<lparr>vring_mem = a + 8192\<rparr>, last_seen_available = 0, last_seen_used = 0, queue_size = ucast n\<rparr>"
  by (simp add: Virtqueue_new_def ring_offsets Vring_new_def)

lemma ring_elem_eq:
  assumes "s \<le> 8" and "unat i < 256"
  shows "ring_elem oc s r i = Inr (vring_mem r + of_nat (4 + unat s * unat i))"
proof -
  have s: "unat (ucast s :: u16) = unat s"
    using assms(1) by (simp add: unsigned_ucast_eq word_le_nat_alt take_bit_nat_eq_self_iff)
  have le: "unat i * unat s \<le> 255 * 8"
    by (rule mult_le_mono) (use assms in \<open>simp_all add: word_le_nat_alt\<close>)
  then have k: "mul_oc oc i (ucast s) = Inr (i * ucast s)" "unat (i * ucast s) = unat i * unat s"
    using mul_oc_no_overflow [of i "ucast s :: u16"] s by auto
  have k4: "add_oc oc 4 (i * ucast s) = Inr (4 + i * ucast s)" "unat (4 + i * ucast s) = 4 + unat i * unat s"
    using le k(2) add_oc_no_overflow [of 4 "i * ucast s" oc] unat_add_no_overflow [of 4 "i * ucast s"] by auto
  have "(ucast (4 + i * ucast s) :: u64) = of_nat (4 + unat i * unat s)"
    by (metis k4(2) of_nat_unat)
  then show ?thesis by (simp add: ring_elem_def Let_def k(1) k4(1) mult.commute)
qed

subsection \<open>The used ring\<close>

text \<open>What the driver sees of the used ring: the index and the 256 slots.\<close>

definition used_slot :: "hmem \<Rightarrow> Virtqueue \<Rightarrow> nat \<Rightarrow> (u32 \<times> u32) res" where
  "used_slot m q k =
     and_then (load m (vring_mem (used_ring q) + of_nat (4 + 8 * k))) (\<lambda>i.
     map_ok (Pair i) (load m (vring_mem (used_ring q) + of_nat (4 + 8 * k) + 4)))"

definition used_view :: "hmem \<Rightarrow> Virtqueue \<Rightarrow> u16 res \<times> (u32 \<times> u32) res list" where
  "used_view m q = (vring_index m (used_ring q), map (used_slot m q) [0..<256])"

definition used_bytes :: nat where
  "used_bytes = 4 + 8 * 256"

lemma add_used_view:
  assumes wf: "mem_wf m" and inm: "in_mem m (vring_mem (used_ring q)) used_bytes"
    and size: "queue_size q = 256" and idx: "vring_index m (used_ring q) = Inr i" and ok: "oc \<longrightarrow> unat i < 65535"
  shows "\<exists>m'. add_used oc m q d l = Inr m' \<and> same_outside (vring_mem (used_ring q)) used_bytes m m' \<and>
    used_view m' q = (Inr (i + 1), (snd (used_view m q)) [unat i mod 256 := Inr (d, l)])"
proof -
  let ?u = "vring_mem (used_ring q)" and ?k = "unat i mod 256"
  have k: "?k < 256" "unat (i mod 256) = ?k" by (simp_all add: unat_mod)
  define at where "at n = ?u + of_nat n" for n
  have at_simps: "?u + of_nat (4 + 8 * j) = at (4 + 8 * j)" "at (4 + 8 * j) + 4 = at (8 + 8 * j)" "?u + 2 = at 2" for j
    by (simp_all add: at_def algebra_simps)
  have elem: "ring_elem oc VringUsedElement_size (used_ring q) (i mod 256) = Inr (at (4 + 8 * ?k))"
    using ring_elem_eq [of VringUsedElement_size "i mod 256" oc "used_ring q"] k
    by (simp add: VringUsedElement_size_def at_def)
  have slot_at: "used_slot m' q j = and_then (load m' (at (4 + 8 * j))) (\<lambda>i. map_ok (Pair i) (load m' (at (8 + 8 * j))))"
    for m' j by (simp only: used_slot_def at_simps)
  note st = store_within [where a = ?u and n = used_bytes, folded at_def]
  note ap = within_apart [OF wf inm, folded at_def, unfolded used_bytes_def]
  obtain m1 where m1: "store m (at (4 + 8 * ?k)) d = Inr m1" "mem_wf m1" "in_mem m1 ?u used_bytes"
    "same_outside (at (4 + 8 * ?k)) 4 m m1" "same_outside ?u used_bytes m m1"
    using st [OF wf inm, of "4 + 8 * ?k" d] k by (auto simp: used_bytes_def)
  obtain m2 where m2: "store m1 (at (8 + 8 * ?k)) l = Inr m2" "mem_wf m2" "in_mem m2 ?u used_bytes"
    "same_outside (at (8 + 8 * ?k)) 4 m1 m2" "same_outside ?u used_bytes m1 m2"
    using st [OF m1(2,3), of "8 + 8 * ?k" l] k by (auto simp: used_bytes_def)
  obtain m3 where m3: "store m2 (at 2) (i + 1) = Inr m3" "mem_wf m3" "in_mem m3 ?u used_bytes"
    "same_outside (at 2) 2 m2 m3" "same_outside ?u used_bytes m2 m3"
    using st [OF m2(2,3), of 2 "i + 1"] by (auto simp: used_bytes_def)
  have idx2: "load m2 (at 2) = Inr i"
    using same_outside_load [OF m1(4), of "at 2", where 'w = 16] same_outside_load [OF m2(4), of "at 2", where 'w = 16] k idx
    by (simp add: ap vring_index_def at_simps)
  have "add_oc oc i 1 = Inr (i + 1)" using ok by (auto simp: add_oc_def)
  then have run: "add_used oc m q d l = Inr m3"
    using m1(1) m2(1) m3(1) idx idx2 k size
    by (simp add: add_used_def advance_index_def vring_index_def rem_oc_def elem at_simps(2,3)
        VringUsedElement_id_def VringUsedElement_len_def)
  have slot: "used_slot m3 q j = (if j = ?k then Inr (d, l) else used_slot m q j)" if "j < 256" for j
  proof (cases "j = ?k")
    case True
    have "load m3 (at (4 + 8 * ?k)) = Inr d"
      using load_store_u32 [OF wf m1(1)] same_outside_load [OF m2(4), of "at (4 + 8 * ?k)", where 'w = 32]
        same_outside_load [OF m3(4), of "at (4 + 8 * ?k)", where 'w = 32] k by (simp add: ap)
    moreover have "load m3 (at (8 + 8 * ?k)) = Inr l"
      using load_store_u32 [OF m1(2) m2(1)]
        same_outside_load [OF m3(4), of "at (8 + 8 * ?k)", where 'w = 32] k by (simp add: ap)
    ultimately show ?thesis using True by (simp add: slot_at)
  next
    case False
    have "load m3 (at a) = (load m (at a) :: u32 res)" if a: "a = 4 + 8 * j \<or> a = 8 + 8 * j" for a
    proof -
      have "apart (at (4 + 8 * ?k)) 4 (at a) 4" "apart (at (8 + 8 * ?k)) 4 (at a) 4" "apart (at 2) 2 (at a) 4"
        by (rule ap; use a False k(1) \<open>j < 256\<close> in linarith)+
      then show ?thesis
        using same_outside_load [OF m1(4), of "at a", where 'w = 32] same_outside_load [OF m2(4), of "at a", where 'w = 32]
          same_outside_load [OF m3(4), of "at a", where 'w = 32] by simp
    qed
    then show ?thesis using False by (simp add: slot_at)
  qed
  have "used_view m3 q = (Inr (i + 1), (snd (used_view m q)) [?k := Inr (d, l)])"
    using load_store_u16 [OF m2(2) m3(1)] k
    by (auto simp: used_view_def vring_index_def at_simps slot list_eq_iff_nth_eq nth_list_update)
  with run show ?thesis using same_outside_trans m1(5) m2(5) m3(5) by blast
qed

subsection \<open>The available ring\<close>

lemma avail_collect_eq:
  assumes "vring_index m (available_ring q) = Inr i" and "queue_size q \<noteq> 0"
    and "oc \<longrightarrow> unat (last_seen_available q) \<le> unat i"
  shows "avail_collect oc m q acc =
    Inr (acc @ map (\<lambda>j. (last_seen_available q + of_nat j) mod queue_size q) [0..<unat (i - last_seen_available q)],
      q\<lparr>last_seen_available := i\<rparr>)"
  using assms
proof (induction "unat (i - last_seen_available q)" arbitrary: q acc)
  case 0
  then have "i = last_seen_available q" by (simp add: unat_eq_zero)
  then show ?case using 0 by (subst avail_collect.simps) (simp add: avail_next_def)
next
  case (Suc n)
  let ?l = "last_seen_available q"
  have ne: "?l \<noteq> i" using Suc.hyps(2) by auto
  have "unat (i - ?l - 1) = unat (i - ?l) - unat (1 :: u16)"
    by (rule unat_sub) (use Suc.hyps(2) in \<open>simp add: word_le_nat_alt\<close>)
  then have n: "n = unat (i - (?l + 1))" using Suc.hyps(2) by (simp add: diff_diff_eq)
  have l1: "add_oc oc ?l 1 = Inr (?l + 1)" and "oc \<longrightarrow> unat (?l + 1) \<le> unat i"
  proof -
    have "unat ?l < unat i" if oc using that Suc.prems(3) ne by (simp add: order_less_le word_unat_eq_iff)
    then have "unat ?l + 1 < 2 ^ LENGTH(16)" if oc
      using that unsigned_less [of i, where 'a = nat] by simp
    then show "add_oc oc ?l 1 = Inr (?l + 1)" "oc \<longrightarrow> unat (?l + 1) \<le> unat i"
      using \<open>oc \<Longrightarrow> unat ?l < unat i\<close> by (auto simp: add_oc_def unat_word_ariths)
  qed
  then have "avail_collect oc m (q\<lparr>last_seen_available := ?l + 1\<rparr>) (acc @ [?l mod queue_size q]) =
    Inr (acc @ [?l mod queue_size q] @ map (\<lambda>j. (?l + 1 + of_nat j) mod queue_size q) [0..<n], q\<lparr>last_seen_available := i\<rparr>)"
    using Suc.hyps(1) [of "q\<lparr>last_seen_available := ?l + 1\<rparr>"] Suc.prems n by simp
  moreover have "[?l mod queue_size q] @ map (\<lambda>j. (?l + 1 + of_nat j) mod queue_size q) [0..<n] =
    map (\<lambda>j. (?l + of_nat j) mod queue_size q) [0..<Suc n]"
    by (simp add: upt_conv_Cons map_Suc_upt [symmetric] add.assoc del: upt_Suc)
  ultimately show ?case
    using Suc.prems ne l1 by (subst avail_collect.simps) (simp add: avail_next_def rem_oc_def flip: Suc.hyps(2))
qed

lemma avail_collect_queue:
  "avail_collect oc m q acc = Inr (is, q') \<Longrightarrow> queue_size q' = queue_size q"
proof (induction oc m q acc rule: avail_collect.induct)
  case (1 oc m q acc)
  from "1.prems" have run: "(case avail_next oc m q of Inl f \<Rightarrow> Inl f | Inr (None, q) \<Rightarrow> Inr (acc, q)
      | Inr (Some i, q) \<Rightarrow> avail_collect oc m q (acc @ [i])) = Inr (is, q')"
    by (subst (asm) avail_collect.simps)
  have keep: "queue_size q1 = queue_size q" if "avail_next oc m q = Inr (x, q1)" for x q1
    using that by (auto simp: avail_next_def res_iffs split: if_splits)
  show ?case
  proof (cases "avail_next oc m q")
    case (Inr r)
    obtain x q1 where r: "r = (x, q1)" by fastforce
    then show ?thesis
      using run Inr keep [of x q1] "1.IH" [of r x q1] by (cases x) simp_all
  qed (use run in simp)
qed

text \<open>With overflow checks, a driver index that has wrapped stops the device.\<close>

lemma avail_collect_wrap:
  assumes "vring_index m (available_ring q) = Inr i" and "queue_size q \<noteq> 0" and "unat i < unat (last_seen_available q)"
  shows "avail_collect True m q acc = Inl ArithOverflow"
  using assms
proof (induction "2 ^ 16 - unat (last_seen_available q)" arbitrary: q acc rule: less_induct)
  case less
  let ?l = "last_seen_available q"
  show ?case
  proof (cases "2 ^ 16 \<le> unat ?l + 1")
    case True
    then show ?thesis using less.prems
      by (subst avail_collect.simps) (auto simp: avail_next_def rem_oc_def add_oc_def)
  next
    case False
    then have "unat (?l + 1) = unat ?l + 1" by (simp add: unat_word_ariths)
    then have "avail_collect True m (q\<lparr>last_seen_available := ?l + 1\<rparr>) (acc @ [?l mod queue_size q]) = Inl ArithOverflow"
      using less.prems False by (intro less.hyps) auto
    then show ?thesis using less.prems False
      by (subst avail_collect.simps) (auto simp: avail_next_def rem_oc_def add_oc_def)
  qed
qed

subsection \<open>A sample queue\<close>

definition sample_ring :: hmem where
  "sample_ring = \<lparr>mem_base = 0x100000, mem_size = 0x4000, mem_bytes = (\<lambda>a.
     if a = 0x101002 then 3 else if a = 0x102003 then 1 else 0)\<rparr>"

definition sample_queue :: Virtqueue where
  "sample_queue = \<lparr>descriptor_table = 0x100000, available_ring = \<lparr>vring_mem = 0x101000\<rparr>,
     used_ring = \<lparr>vring_mem = 0x102000\<rparr>, last_seen_available = 1, last_seen_used = 0, queue_size = 256\<rparr>"

lemma sample_ring_facts:
  "mem_wf sample_ring" "in_mem sample_ring (vring_mem (used_ring sample_queue)) used_bytes"
  "queue_size sample_queue = 256" "vring_index sample_ring (used_ring sample_queue) = Inr 0x100"
  "vring_index sample_ring (available_ring sample_queue) = Inr 3" "last_seen_available sample_queue = 1"
  "in_mem sample_ring 0x100000 10244"
  by (simp_all add: sample_ring_def sample_queue_def mem_wf_def in_mem_def used_bytes_def vring_index_def load_def
      load_bytes_def read_bytes_def upt_rec)

subsection \<open>Properties\<close>



text \<open>
  C22. Handing a buffer back refines pushing on the driver's view of the used ring: the slot at the
  old index gets the descriptor and the length, the index goes up by one, the other 255 slots and
  all memory outside the ring are unchanged. With overflow checks the index must not be 65535,
  where the increment stops the device.
\<close>

theorem add_used_refines:
  assumes "mem_wf m" and "in_mem m (vring_mem (used_ring q)) used_bytes"
    and "queue_size q = 256" and "vring_index m (used_ring q) = Inr i" and "oc \<longrightarrow> unat i < 65535"
  shows "\<exists>m'. add_used oc m q d l = Inr m' \<and> same_outside (vring_mem (used_ring q)) used_bytes m m' \<and>
    used_view m' q = (Inr (i + 1), (snd (used_view m q)) [unat i mod 256 := Inr (d, l)])"
  using assms by (rule add_used_view)

theorem add_used_refines_witness:
  "\<exists>m'. add_used True sample_ring sample_queue 7 1 = Inr m' \<and>
     used_view m' sample_queue = (Inr 0x101, (snd (used_view sample_ring sample_queue)) [0 := Inr (7, 1)])"
  using add_used_refines [OF sample_ring_facts(1-4), of True 7 1] by auto

text \<open>
  C23. The loop over the available ring ends, and takes every new entry once, in order: the
  positions from the last one seen to the driver's index, reduced to the queue size, after which
  nothing is pending. The results are positions in the ring; the descriptor numbers the driver
  stored there are not read.
\<close>

theorem avail_collect_takes_pending:
  assumes "vring_index m (available_ring q) = Inr i" and "queue_size q \<noteq> 0"
    and "oc \<longrightarrow> unat (last_seen_available q) \<le> unat i"
  shows "\<exists>q'. avail_collect oc m q [] =
      Inr (map (\<lambda>j. (last_seen_available q + of_nat j) mod queue_size q) [0..<pending m q], q') \<and>
    q' = q\<lparr>last_seen_available := i\<rparr> \<and> pending m q' = 0"
  using avail_collect_eq [OF assms, of "[]"] assms(1) by (simp add: pending_def)

theorem avail_collect_takes_pending_witness:
  "avail_collect True sample_ring sample_queue [] = Inr ([1, 2], sample_queue\<lparr>last_seen_available := 3\<rparr>)"
proof -
  have "pending sample_ring sample_queue = 2" by (simp add: pending_def sample_ring_facts)
  then show ?thesis
    using avail_collect_takes_pending [OF sample_ring_facts(5), of True]
    by (simp add: sample_ring_facts upt_rec)
qed

text \<open>
  With overflow checks a driver index that has wrapped around stops the device: the count of
  entries seen is incremented as a 16-bit integer, although both indices are free-running.
\<close>

theorem avail_collect_wrap_panics:
  assumes "vring_index m (available_ring q) = Inr i" and "queue_size q \<noteq> 0"
    and "unat i < unat (last_seen_available q)"
  shows "avail_collect True m q [] = Inl ArithOverflow"
  using assms by (rule avail_collect_wrap)

theorem avail_collect_wrap_panics_witness:
  "avail_collect True sample_ring (sample_queue\<lparr>last_seen_available := 0xFFFF\<rparr>) [] = Inl ArithOverflow"
  by (rule avail_collect_wrap_panics [of _ _ 3]) (use sample_ring_facts in simp_all)

end
