(* ===== verification/Virtio.thy ===== *)
theory Virtio
  imports Virtqueue Translation "HOL-Library.Sublist"
begin

text \<open>
  The virtio network device on the emulated PCI bus (\<^verbatim>\<open>src/linux/virtio.rs\<close>): its configuration
  registers, the status handshake with the driver, the registration of virtqueues and the
  transmission of packets. The TAP interface and the lookup of its hardware address are arguments of
  the model, as are the constants of the virtio bindings.
\<close>

subsection \<open>Constants\<close>

definition STATUS_ACKNOWLEDGE :: u8 where [uhyve_consts]: "STATUS_ACKNOWLEDGE = 1"
definition STATUS_DRIVER :: u8 where [uhyve_consts]: "STATUS_DRIVER = 2"
definition STATUS_DRIVER_OK :: u8 where [uhyve_consts]: "STATUS_DRIVER_OK = 4"
definition STATUS_FEATURES_OK :: u8 where [uhyve_consts]: "STATUS_FEATURES_OK = 8"
definition STATUS_DRIVER_NEEDS_RESET :: u8 where [uhyve_consts]: "STATUS_DRIVER_NEEDS_RESET = 0x40"
definition STATUS_FAILED :: u8 where [uhyve_consts]: "STATUS_FAILED = 0x80"

definition VENDOR_ID_REGISTER :: nat where "VENDOR_ID_REGISTER = 0x0"
definition DEVICE_ID_REGISTER :: nat where "DEVICE_ID_REGISTER = 0x2"
definition STATUS_REGISTER :: nat where "STATUS_REGISTER = 0x6"
definition CLASS_REGISTER :: nat where "CLASS_REGISTER = 0x8"
definition BAR0_REGISTER :: nat where "BAR0_REGISTER = 0x10"
definition TX_QUEUE :: nat where "TX_QUEUE = 1"
definition IOBASE :: u16 where [uhyve_consts]: "IOBASE = 0xc000"
definition ETHARP_HWADDR_LEN :: u16 where [uhyve_consts]: "ETHARP_HWADDR_LEN = 6"

lemmas register_consts =
  VENDOR_ID_REGISTER_def DEVICE_ID_REGISTER_def STATUS_REGISTER_def CLASS_REGISTER_def BAR0_REGISTER_def TX_QUEUE_def

definition VIRTIO_PCI_HOST_FEATURES :: u16 where [uhyve_consts]: "VIRTIO_PCI_HOST_FEATURES = IOBASE"
definition VIRTIO_PCI_GUEST_FEATURES :: u16 where [uhyve_consts]: "VIRTIO_PCI_GUEST_FEATURES = IOBASE + 4"
definition VIRTIO_PCI_QUEUE_PFN :: u16 where [uhyve_consts]: "VIRTIO_PCI_QUEUE_PFN = IOBASE + 8"
definition VIRTIO_PCI_QUEUE_SEL :: u16 where [uhyve_consts]: "VIRTIO_PCI_QUEUE_SEL = IOBASE + 14"
definition VIRTIO_PCI_QUEUE_NOTIFY :: u16 where [uhyve_consts]: "VIRTIO_PCI_QUEUE_NOTIFY = IOBASE + 16"
definition VIRTIO_PCI_STATUS :: u16 where [uhyve_consts]: "VIRTIO_PCI_STATUS = IOBASE + 18"
definition VIRTIO_PCI_ISR :: u16 where [uhyve_consts]: "VIRTIO_PCI_ISR = IOBASE + 19"
definition VIRTIO_PCI_CONFIG_OFF_MSIX_OFF :: u16 where [uhyve_consts]: "VIRTIO_PCI_CONFIG_OFF_MSIX_OFF = 20"
definition VIRTIO_PCI_CONFIG_OFF_MSIX_OFF_MAX :: u16 where
  [uhyve_consts]: "VIRTIO_PCI_CONFIG_OFF_MSIX_OFF_MAX = VIRTIO_PCI_CONFIG_OFF_MSIX_OFF + 5"
definition VIRTIO_PCI_LINK_STATUS_MSIX_OFF :: u16 where
  [uhyve_consts]: "VIRTIO_PCI_LINK_STATUS_MSIX_OFF = ETHARP_HWADDR_LEN + VIRTIO_PCI_CONFIG_OFF_MSIX_OFF"

subsection \<open>The host's side\<close>

text \<open>
  \<open>'w\<close> is the state of the host, \<open>'i\<close> a TAP interface. Creating an interface and sending can fail;
  a hardware address is six bytes.
\<close>

record ('w, 'i) net_host =
  iface_new :: "'w \<Rightarrow> (io_error + 'i) \<times> 'w"
  iface_name :: "'i \<Rightarrow> string"
  iface_send :: "'w \<Rightarrow> 'i \<Rightarrow> u8 list \<Rightarrow> (io_error + usize) \<times> 'w"
  mac_address_by_name :: "'w \<Rightarrow> string \<Rightarrow> io_error + u8 list option"
  sizeof_virtio_net_hdr :: usize
  VIRTIO_NET_F_STATUS :: u32
  VIRTIO_NET_F_MAC :: u32

definition HOST_FEATURES :: "('w, 'i) net_host \<Rightarrow> u32" where
  "HOST_FEATURES nh = push_bit (unat (VIRTIO_NET_F_STATUS nh)) 1 OR push_bit (unat (VIRTIO_NET_F_MAC nh)) 1"

subsection \<open>The device\<close>

record 'i VirtioNetPciDevice =
  registers :: "u8 list"
  requested_features :: u32
  selected_queue_num :: u16
  virt_queues :: "Virtqueue list"
  iface :: "'i option"
  mac_addr :: "u8 list"

text \<open>The register macros: little-endian values in the byte array, each index checked.\<close>

definition read_u16 :: "u8 list \<Rightarrow> nat \<Rightarrow> u16 res" where
  "read_u16 rs a =
     and_then (index rs a) (\<lambda>lo.
     and_then (index rs (a + 1)) (\<lambda>hi.
     Inr (ucast lo OR push_bit 8 (ucast hi))))"

definition write_u16 :: "u8 list \<Rightarrow> nat \<Rightarrow> u16 \<Rightarrow> u8 list res" where
  "write_u16 rs a v =
     and_then (index_set rs a (ucast (v AND 0xFF))) (\<lambda>rs.
     index_set rs (a + 1) (ucast (drop_bit 8 v AND 0xFF)))"

definition VirtioNetPciDevice_new :: "'i VirtioNetPciDevice res" where
  "VirtioNetPciDevice_new =
     and_then (write_u16 (replicate 0x40 0) VENDOR_ID_REGISTER 0x1AF4) (\<lambda>rs.
     and_then (write_u16 rs DEVICE_ID_REGISTER 0x1000) (\<lambda>rs.
     and_then (write_u16 rs (CLASS_REGISTER + 2) 0x0200) (\<lambda>rs.
     and_then (write_u16 rs BAR0_REGISTER IOBASE) (\<lambda>rs.
     and_then (index_set rs STATUS_REGISTER STATUS_DRIVER_NEEDS_RESET) (\<lambda>rs.
     Inr \<lparr>registers = rs, requested_features = 0, selected_queue_num = 0, virt_queues = [], iface = None,
       mac_addr = replicate 6 0\<rparr>)))))"

definition handle_read :: "'i VirtioNetPciDevice \<Rightarrow> u32 \<Rightarrow> u8 list \<Rightarrow> u8 list res" where
  "handle_read d address dest =
     and_then (slice_range (unat address) (length (registers d)) (length (registers d))) (\<lambda>_.
     let tail = drop (unat address) (registers d) in
     and_then (slice_range 0 (length dest) (length tail)) (\<lambda>_.
     Inr (take (length dest) tail)))"

definition handle_write :: "'i VirtioNetPciDevice \<Rightarrow> u32 \<Rightarrow> u8 list \<Rightarrow> 'i VirtioNetPciDevice res" where
  "handle_write d address dest =
     for_each (\<lambda>d (i, var). map_ok (\<lambda>rs. d\<lparr>registers := rs\<rparr>) (index_set (registers d) (unat address + i) var))
       d (enumerate 0 dest)"

definition read_status_reg :: "'i VirtioNetPciDevice \<Rightarrow> u8 res" where
  "read_status_reg d = index (registers d) STATUS_REGISTER"

definition write_status_reg :: "'i VirtioNetPciDevice \<Rightarrow> u8 \<Rightarrow> 'i VirtioNetPciDevice res" where
  "write_status_reg d status =
     map_ok (\<lambda>rs. d\<lparr>registers := rs\<rparr>) (index_set (registers d) STATUS_REGISTER status)"

definition set_needs_reset :: "'i VirtioNetPciDevice \<Rightarrow> 'i VirtioNetPciDevice res" where
  "set_needs_reset d =
     and_then (read_status_reg d) (\<lambda>s. write_status_reg d (s OR STATUS_DRIVER_NEEDS_RESET))"

definition read_status :: "'i VirtioNetPciDevice \<Rightarrow> u8 list \<Rightarrow> u8 list res" where
  "read_status d dest = handle_read d (of_nat STATUS_REGISTER AND 0x3FFF) dest"

definition read_mac_byte :: "'i VirtioNetPciDevice \<Rightarrow> u8 list \<Rightarrow> u16 \<Rightarrow> u8 list res" where
  "read_mac_byte d dest i =
     and_then (index (mac_addr d) (unat i)) (\<lambda>b. index_set dest 0 b)"

subsection \<open>The handshake\<close>

definition get_mac_addr :: "('w, 'i) net_host \<Rightarrow> 'w \<Rightarrow> 'i VirtioNetPciDevice \<Rightarrow> 'i VirtioNetPciDevice res" where
  "get_mac_addr nh w d =
     (case iface d of
        Some tap \<Rightarrow>
          (case mac_address_by_name nh w (iface_name nh tap) of
             Inr (Some ma) \<Rightarrow> Inr (d\<lparr>mac_addr := ma\<rparr>)
           | Inr None \<Rightarrow> set_needs_reset d
           | Inl e \<Rightarrow> set_needs_reset d)
      | None \<Rightarrow> Inr d)"

definition write_status_reset :: "'i VirtioNetPciDevice \<Rightarrow> u8 list \<Rightarrow> 'i VirtioNetPciDevice res" where
  "write_status_reset d dest =
     and_then (index dest 0) (\<lambda>b.
     if b = STATUS_ACKNOWLEDGE then write_status_reg d b else Inr d)"

definition write_status_acknowledge :: "'i VirtioNetPciDevice \<Rightarrow> u8 list \<Rightarrow> 'i VirtioNetPciDevice res" where
  "write_status_acknowledge d dest =
     and_then (index dest 0) (\<lambda>b.
     if b = STATUS_ACKNOWLEDGE OR STATUS_DRIVER then write_status_reg d b else Inr d)"

definition write_status_features :: "'i VirtioNetPciDevice \<Rightarrow> u8 list \<Rightarrow> 'i VirtioNetPciDevice res" where
  "write_status_features d dest =
     and_then (index dest 0) (\<lambda>b.
     if b = STATUS_ACKNOWLEDGE OR STATUS_DRIVER OR STATUS_FEATURES_OK then write_status_reg d b else Inr d)"

definition write_status_ok ::
  "('w, 'i) net_host \<Rightarrow> 'w \<Rightarrow> 'i VirtioNetPciDevice \<Rightarrow> u8 list \<Rightarrow> ('w \<times> 'i VirtioNetPciDevice) res" where
  "write_status_ok nh w d dest =
     and_then (index dest 0) (\<lambda>b.
     if b = STATUS_ACKNOWLEDGE OR STATUS_DRIVER OR STATUS_FEATURES_OK OR STATUS_DRIVER_OK then
       and_then (write_status_reg d b) (\<lambda>d.
       case iface_new nh w of
         (Inr tap, w) \<Rightarrow> map_ok (Pair w) (get_mac_addr nh w (d\<lparr>iface := Some tap\<rparr>))
       | (Inl err, w) \<Rightarrow>
           and_then (set_needs_reset d) (\<lambda>d.
           map_ok (Pair w) (get_mac_addr nh w (d\<lparr>iface := None\<rparr>))))
     else Inr (w, d))"

definition write_status ::
  "('w, 'i) net_host \<Rightarrow> 'w \<Rightarrow> 'i VirtioNetPciDevice \<Rightarrow> u8 list \<Rightarrow> ('w \<times> 'i VirtioNetPciDevice) res" where
  "write_status nh w d dest =
     and_then (read_status_reg d) (\<lambda>status.
     and_then (index dest 0) (\<lambda>b.
     if b = 0 then
       and_then (write_status_reg d 0) (\<lambda>d.
       Inr (w, d\<lparr>requested_features := 0, selected_queue_num := 0, virt_queues := [], iface := None\<rparr>))
     else if status = STATUS_DRIVER_NEEDS_RESET \<or> status = 0 then map_ok (Pair w) (write_status_reset d dest)
     else if status = STATUS_ACKNOWLEDGE then map_ok (Pair w) (write_status_acknowledge d dest)
     else if status = STATUS_ACKNOWLEDGE OR STATUS_DRIVER then map_ok (Pair w) (write_status_features d dest)
     else if status = STATUS_ACKNOWLEDGE OR STATUS_DRIVER OR STATUS_FEATURES_OK then write_status_ok nh w d dest
     else Inr (w, d)))"

subsection \<open>Features and queues\<close>

text \<open>
  Some handlers read a whole integer through the pointer of the data slice. \<open>rest\<close> are the bytes
  behind the slice in the shared page; the read is defined as far as slice and rest reach.
\<close>

definition read_ptr :: "u8 list \<Rightarrow> u8 list \<Rightarrow> 'a::len word res" where
  "read_ptr dest rest =
     (if LENGTH('a) div 8 \<le> length (dest @ rest) then Inr (from_le (take (LENGTH('a) div 8) (dest @ rest)))
      else Inl BadAccess)"

definition write_selected_queue ::
  "'i VirtioNetPciDevice \<Rightarrow> u8 list \<Rightarrow> u8 list \<Rightarrow> 'i VirtioNetPciDevice res" where
  "write_selected_queue d dest rest = map_ok (\<lambda>n. d\<lparr>selected_queue_num := n\<rparr>) (read_ptr dest rest)"

definition write_pfn ::
  "bool \<Rightarrow> usize \<Rightarrow> 'i VirtioNetPciDevice \<Rightarrow> u8 list \<Rightarrow> u8 list \<Rightarrow> 'i VirtioNetPciDevice res" where
  "write_pfn oc vm_start d dest rest =
     and_then (read_status_reg d) (\<lambda>status.
     if status AND STATUS_FEATURES_OK \<noteq> 0 \<and> status AND STATUS_DRIVER_OK = 0
        \<and> unat (selected_queue_num d) = length (virt_queues d) then
       and_then (read_ptr dest rest) (\<lambda>gpa.
       and_then (host_address oc vm_start gpa) (\<lambda>hva.
       and_then (Virtqueue_new oc hva QUEUE_LIMIT) (\<lambda>queue.
       Inr (d\<lparr>virt_queues := virt_queues d @ [queue]\<rparr>))))
     else Inr d)"

definition write_requested_features ::
  "('w, 'i) net_host \<Rightarrow> 'i VirtioNetPciDevice \<Rightarrow> u8 list \<Rightarrow> u8 list \<Rightarrow> 'i VirtioNetPciDevice res" where
  "write_requested_features nh d dest rest =
     and_then (read_status_reg d) (\<lambda>status.
     if status = STATUS_ACKNOWLEDGE OR STATUS_DRIVER then
       and_then (read_ptr dest rest) (\<lambda>f.
       Inr (d\<lparr>requested_features := (requested_features d OR f) AND HOST_FEATURES nh\<rparr>))
     else Inr d)"

definition copy_prefix :: "u8 list \<Rightarrow> u8 list \<Rightarrow> u8 list res" where
  "copy_prefix dest bs =
     and_then (slice_range 0 (length bs) (length dest)) (\<lambda>_. Inr (bs @ drop (length bs) dest))"

definition read_requested_features :: "'i VirtioNetPciDevice \<Rightarrow> u8 list \<Rightarrow> u8 list res" where
  "read_requested_features d dest =
     and_then (read_status_reg d) (\<lambda>status.
     if status = STATUS_ACKNOWLEDGE OR STATUS_DRIVER then copy_prefix dest (bytes_of (requested_features d))
     else Inr dest)"

definition read_link_status :: "'i VirtioNetPciDevice \<Rightarrow> u8 list \<Rightarrow> u8 list res" where
  "read_link_status d dest =
     and_then (read_status_reg d) (\<lambda>status.
     if status AND STATUS_FAILED \<noteq> 0 \<or> status AND STATUS_DRIVER_NEEDS_RESET \<noteq> 0 then index_set dest 0 0
     else (case iface d of Some _ \<Rightarrow> index_set dest 0 1 | None \<Rightarrow> index_set dest 0 0))"

definition read_host_features :: "('w, 'i) net_host \<Rightarrow> u8 list \<Rightarrow> u8 list res" where
  "read_host_features nh dest = copy_prefix dest (bytes_of (HOST_FEATURES nh))"

definition reset_interrupt :: "'i VirtioNetPciDevice \<Rightarrow> 'i VirtioNetPciDevice" where
  "reset_interrupt d = d"

subsection \<open>Transmission\<close>

text \<open>
  One packet. The address field of the descriptor is dereferenced as a host address before the
  value found there is translated; the model gives that access a result only inside guest memory.
  Allocating more than \<^verbatim>\<open>isize::MAX\<close> bytes panics.
\<close>

definition send_packet ::
  "bool \<Rightarrow> ('w, 'i) net_host \<Rightarrow> usize \<Rightarrow> Virtqueue \<Rightarrow> hmem \<times> 'w \<times> 'i VirtioNetPciDevice \<Rightarrow> u16 \<Rightarrow>
     (hmem \<times> 'w \<times> 'i VirtioNetPciDevice) res" where
  "send_packet oc nh vm_start tx_queue = (\<lambda>(m, w, d) i.
     let desc = get_descriptor tx_queue i in
     and_then (load m (desc + VringDescriptor_addr)) (\<lambda>addr.
     and_then (load m addr) (\<lambda>gpa.
     and_then (host_address oc vm_start gpa) (\<lambda>hva.
     and_then
       (case iface d of
          Some tap \<Rightarrow>
            and_then (load m (desc + VringDescriptor_len) :: u32 res) (\<lambda>len.
            and_then (sub_oc oc (ucast len) (sizeof_virtio_net_hdr nh)) (\<lambda>n.
            and_then (if unat n < 2 ^ 63 then Inr () else Inl ExplicitPanic) (\<lambda>_.
            and_then (load_bytes m hva (unat n)) (\<lambda>slice.
            Inr (snd (iface_send nh w tap slice), d)))))
        | None \<Rightarrow> map_ok (Pair w) (set_needs_reset d)) (\<lambda>(w, d).
     map_ok (\<lambda>m. (m, w, d)) (add_used oc m tx_queue (ucast i) 1))))))"

definition send_available_packets ::
  "bool \<Rightarrow> ('w, 'i) net_host \<Rightarrow> usize \<Rightarrow> hmem \<times> 'w \<times> 'i VirtioNetPciDevice \<Rightarrow>
     (hmem \<times> 'w \<times> 'i VirtioNetPciDevice) res" where
  "send_available_packets oc nh vm_start = (\<lambda>(m, w, d).
     and_then (index (virt_queues d) TX_QUEUE) (\<lambda>tx_queue.
     and_then (avail_collect oc m tx_queue []) (\<lambda>(send_indices, tx_queue).
     and_then (for_each (send_packet oc nh vm_start tx_queue) (m, w, d) send_indices) (\<lambda>(m, w, d).
     Inr (m, w, d\<lparr>virt_queues := (virt_queues d)[TX_QUEUE := tx_queue]\<rparr>)))))"

definition handle_notify_output ::
  "bool \<Rightarrow> ('w, 'i) net_host \<Rightarrow> usize \<Rightarrow> hmem \<times> 'w \<times> 'i VirtioNetPciDevice \<Rightarrow> u8 list \<Rightarrow>
     (hmem \<times> 'w \<times> 'i VirtioNetPciDevice) res" where
  "handle_notify_output oc nh vm_start = (\<lambda>(m, w, d) dest.
     and_then (read_u16 dest 0) (\<lambda>tx_num.
     if tx_num = 1 then
       and_then (read_status_reg d) (\<lambda>status.
       if status AND STATUS_DRIVER_OK = STATUS_DRIVER_OK then send_available_packets oc nh vm_start (m, w, d)
       else Inr (m, w, d))
     else Inr (m, w, d)))"

subsection \<open>The handshake as an automaton\<close>

text \<open>
  The states the driver and the device go through, and what a status byte does in each. \<open>up\<close> says
  whether the TAP interface could be created and its hardware address found.
\<close>

datatype phase = ResetNeeded | Initial | Acknowledged | DriverFound | FeaturesAccepted | Running | Broken

fun phase_status :: "phase \<Rightarrow> u8" where
  "phase_status ResetNeeded = 0x40"
| "phase_status Initial = 0"
| "phase_status Acknowledged = 1"
| "phase_status DriverFound = 3"
| "phase_status FeaturesAccepted = 0xB"
| "phase_status Running = 0xF"
| "phase_status Broken = 0x4F"

definition handshake :: "bool \<Rightarrow> phase \<Rightarrow> u8 \<Rightarrow> phase" where
  "handshake up p b =
     (if b = 0 then Initial
      else if (p = ResetNeeded \<or> p = Initial) \<and> b = 1 then Acknowledged
      else if p = Acknowledged \<and> b = 3 then DriverFound
      else if p = DriverFound \<and> b = 0xB then FeaturesAccepted
      else if p = FeaturesAccepted \<and> b = 0xF then (if up then Running else Broken)
      else p)"

definition tap_result :: "('w, 'i) net_host \<Rightarrow> 'w \<Rightarrow> 'i option \<times> u8 list option" where
  "tap_result nh w =
     (case iface_new nh w of
        (Inl e, w) \<Rightarrow> (None, None)
      | (Inr tap, w) \<Rightarrow>
          (Some tap, case mac_address_by_name nh w (iface_name nh tap) of Inr (Some ma) \<Rightarrow> Some ma | _ \<Rightarrow> None))"

definition link_up :: "('w, 'i) net_host \<Rightarrow> 'w \<Rightarrow> bool" where
  "link_up nh w \<longleftrightarrow> snd (tap_result nh w) \<noteq> None"

definition status :: "'i VirtioNetPciDevice \<Rightarrow> u8" where
  "status d = registers d ! 6"

lemma phase_status_inj [simp]: "phase_status p = phase_status p' \<longleftrightarrow> p = p'"
  by (cases p; cases p') simp_all

lemma status_regs:
  assumes "length (registers d) = 64"
  shows "read_status_reg d = Inr (status d)"
    and "write_status_reg d s = Inr (d\<lparr>registers := (registers d)[6 := s]\<rparr>)"
    and "set_needs_reset d = Inr (d\<lparr>registers := (registers d)[6 := status d OR 0x40]\<rparr>)"
  using assms
  by (simp_all add: read_status_reg_def write_status_reg_def set_needs_reset_def index_def index_set_def status_def
      STATUS_REGISTER_def STATUS_DRIVER_NEEDS_RESET_def)

text \<open>The effect of a status byte on the whole device.\<close>

definition after_status :: "('w, 'i) net_host \<Rightarrow> 'w \<Rightarrow> phase \<Rightarrow> u8 \<Rightarrow> 'i VirtioNetPciDevice \<Rightarrow> 'i VirtioNetPciDevice" where
  "after_status nh w p b d =
     (let d' = d\<lparr>registers := (registers d)[6 := phase_status (handshake (link_up nh w) p b)]\<rparr> in
      if b = 0 then d'\<lparr>requested_features := 0, selected_queue_num := 0, virt_queues := [], iface := None\<rparr>
      else if p = FeaturesAccepted \<and> b = 0xF then
        d'\<lparr>iface := fst (tap_result nh w), mac_addr := (case snd (tap_result nh w) of Some ma \<Rightarrow> ma | None \<Rightarrow> mac_addr d)\<rparr>
      else d')"

lemma write_status_effect:
  assumes len: "length (registers d) = 64" and p: "status d = phase_status p"
  shows "\<exists>w'. write_status nh w d (b # bs) = Inr (w', after_status nh w p b d)"
proof (cases "p = FeaturesAccepted \<and> b = 0xF")
  case True
  then show ?thesis
    using assms
    by (auto simp: write_status_def status_regs index_def uhyve_consts write_status_ok_def after_status_def handshake_def
        link_up_def tap_result_def get_mac_addr_def status_def split: prod.splits sum.splits option.splits)
next
  case False
  have same: "(registers d)[6 := status d] = registers d" by (simp add: status_def)
  from False show ?thesis
    using assms same
    by (cases p) (auto simp: write_status_def status_regs index_def uhyve_consts write_status_reset_def
        write_status_acknowledge_def write_status_features_def write_status_ok_def after_status_def handshake_def Let_def)
qed

subsection \<open>Sequences of operations\<close>

text \<open>
  What a guest can make the device do: a write to its configuration registers, to one of the virtio
  ports, and a notification. Reading changes nothing.
\<close>

datatype dev_op =
    ConfigWrite u32 "u8 list"
  | StatusWrite "u8 list"
  | FeaturesWrite "u8 list" "u8 list"
  | SelectQueue "u8 list" "u8 list"
  | QueuePfn "u8 list" "u8 list"
  | Notify "u8 list"

fun dev_exec ::
  "bool \<Rightarrow> ('w, 'i) net_host \<Rightarrow> usize \<Rightarrow> hmem \<times> 'w \<times> 'i VirtioNetPciDevice \<Rightarrow> dev_op \<Rightarrow>
     (hmem \<times> 'w \<times> 'i VirtioNetPciDevice) res" where
  "dev_exec oc nh vm_start (m, w, d) (ConfigWrite a bs) = map_ok (\<lambda>d. (m, w, d)) (handle_write d a bs)"
| "dev_exec oc nh vm_start (m, w, d) (StatusWrite bs) = map_ok (Pair m) (write_status nh w d bs)"
| "dev_exec oc nh vm_start (m, w, d) (FeaturesWrite bs rest) = map_ok (\<lambda>d. (m, w, d)) (write_requested_features nh d bs rest)"
| "dev_exec oc nh vm_start (m, w, d) (SelectQueue bs rest) = map_ok (\<lambda>d. (m, w, d)) (write_selected_queue d bs rest)"
| "dev_exec oc nh vm_start (m, w, d) (QueuePfn bs rest) = map_ok (\<lambda>d. (m, w, d)) (write_pfn oc vm_start d bs rest)"
| "dev_exec oc nh vm_start (m, w, d) (Notify bs) = handle_notify_output oc nh vm_start (m, w, d) bs"

text \<open>What holds of the device whatever the guest does.\<close>

definition dev_wf :: "('w, 'i) net_host \<Rightarrow> 'i VirtioNetPciDevice \<Rightarrow> bool" where
  "dev_wf nh d \<longleftrightarrow> length (registers d) = 64 \<and> length (mac_addr d) = 6 \<and>
     requested_features d AND NOT (HOST_FEATURES nh) = 0 \<and> (\<forall>q \<in> set (virt_queues d). queue_size q = 256)"

definition mac_six :: "('w, 'i) net_host \<Rightarrow> bool" where
  "mac_six nh \<longleftrightarrow> (\<forall>w n ma. mac_address_by_name nh w n = Inr (Some ma) \<longrightarrow> length ma = 6)"

lemma VirtioNetPciDevice_new_eq:
  "VirtioNetPciDevice_new = Inr \<lparr>registers = (replicate 64 0)[0 := 0xF4, 1 := 0x1A, 2 := 0, 3 := 0x10, 10 := 0, 11 := 2,
       16 := 0, 17 := 0xC0, 6 := 0x40],
     requested_features = 0, selected_queue_num = 0, virt_queues = [], iface = None, mac_addr = replicate 6 0\<rparr>"
  by (simp add: VirtioNetPciDevice_new_def write_u16_def index_set_def register_consts uhyve_consts)

lemma handle_write_keeps:
  assumes "handle_write d a bs = Inr d'"
  shows "length (registers d') = length (registers d) \<and> mac_addr d' = mac_addr d \<and>
    requested_features d' = requested_features d \<and> virt_queues d' = virt_queues d \<and> iface d' = iface d"
  by (rule for_each_invariant [OF _ _ assms [unfolded handle_write_def],
        where I = "\<lambda>d'. length (registers d') = length (registers d) \<and> mac_addr d' = mac_addr d \<and>
          requested_features d' = requested_features d \<and> virt_queues d' = virt_queues d \<and> iface d' = iface d"])
    (auto simp: map_ok_eq_Inr index_set_eq_Inr)

lemma write_status_keeps:
  assumes "write_status nh w d bs = Inr (w', d')" and "mac_six nh" and "dev_wf nh d"
  shows "dev_wf nh d'"
  using assms
  by (auto simp: write_status_def dev_wf_def res_iffs status_regs write_status_reset_def write_status_acknowledge_def
      write_status_features_def write_status_ok_def get_mac_addr_def mac_six_def
      split: if_splits prod.splits sum.splits option.splits)

lemma send_packet_keeps:
  assumes "send_packet oc nh vm_start q (m, w, d) i = Inr (m', w', d')" and "length (registers d) = 64"
  shows "(if iface d = None then d' = d\<lparr>registers := (registers d)[6 := status d OR 0x40]\<rparr> else d' = d)"
  using assms by (auto simp: send_packet_def Let_def res_iffs status_regs split: option.splits if_splits)

lemma send_available_packets_keeps:
  assumes "send_available_packets oc nh vm_start (m, w, d) = Inr (m', w', d')" and "dev_wf nh d"
  shows "\<exists>rs. d' = d\<lparr>registers := rs, virt_queues := virt_queues d'\<rparr> \<and> length rs = 64 \<and>
    rs ! 6 \<in> {status d, status d OR 0x40} \<and> length (virt_queues d') = length (virt_queues d) \<and> dev_wf nh d'"
proof -
  obtain q idxs q' d1 where q: "index (virt_queues d) TX_QUEUE = Inr q" "avail_collect oc m q [] = Inr (idxs, q')"
    "for_each (send_packet oc nh vm_start q') (m, w, d) idxs = Inr (m', w', d1)"
    "d' = d1\<lparr>virt_queues := (virt_queues d1)[TX_QUEUE := q']\<rparr>"
    using assms(1) by (auto simp: send_available_packets_def res_iffs)
  let ?I = "\<lambda>(m :: hmem, w :: 'a, d1). \<exists>rs. d1 = d\<lparr>registers := rs\<rparr> \<and> length rs = 64 \<and> rs ! 6 \<in> {status d, status d OR 0x40}"
  have "?I (m', w', d1)"
  proof (rule for_each_invariant [where I = ?I, OF _ _ q(3)])
    show "?I (m, w, d)" using assms(2) by (intro case_prodI exI [of _ "registers d"]) (simp add: dev_wf_def status_def)
  next
    fix s x s' assume I: "?I s" and run: "send_packet oc nh vm_start q' s x = Inr s'"
    obtain m1 w1 d1 m2 w2 d2 where s: "s = (m1, w1, d1)" "s' = (m2, w2, d2)" by (metis prod_cases3)
    with I obtain rs where rs: "d1 = d\<lparr>registers := rs\<rparr>" "length rs = 64" "rs ! 6 \<in> {status d, status d OR 0x40}" by auto
    have "if iface d1 = None then d2 = d1\<lparr>registers := (registers d1)[6 := status d1 OR 0x40]\<rparr> else d2 = d1"
      by (rule send_packet_keeps) (use run s rs in auto)
    then have "d2 = d\<lparr>registers := rs\<rparr> \<or> d2 = d\<lparr>registers := rs[6 := rs ! 6 OR 0x40]\<rparr>"
      using rs(1) by (auto simp: status_def split: if_splits)
    moreover have "rs ! 6 OR 0x40 \<in> {status d, status d OR 0x40}" using rs(3) by (auto simp: or.assoc)
    moreover have "length (rs[6 := rs ! 6 OR 0x40]) = 64" "rs[6 := rs ! 6 OR 0x40] ! 6 = rs ! 6 OR 0x40" using rs(2) by simp_all
    ultimately have "\<exists>rs. d2 = d\<lparr>registers := rs\<rparr> \<and> length rs = 64 \<and> rs ! 6 \<in> {status d, status d OR 0x40}"
      using rs(2,3) by metis
    then show "?I s'" by (simp add: s)
  qed
  moreover have "queue_size q' = 256"
    using q(1) assms(2) avail_collect_queue [OF q(2)] by (auto simp: index_eq_Inr dev_wf_def)
  ultimately show ?thesis using assms(2) q(4)
    by (auto simp: dev_wf_def status_def dest!: set_update_subset_insert [THEN subsetD])
qed

lemma dev_exec_wf:
  assumes "dev_exec oc nh vm_start (m, w, d) op = Inr (m', w', d')" and "mac_six nh" and "dev_wf nh d"
  shows "dev_wf nh d'"
proof (cases op)
  case (ConfigWrite a bs)
  then show ?thesis using assms by (auto simp: map_ok_eq_Inr dev_wf_def dest!: handle_write_keeps)
next
  case (StatusWrite bs)
  then show ?thesis using assms by (auto simp: map_ok_eq_Inr intro: write_status_keeps)
next
  case (FeaturesWrite bs rest)
  then show ?thesis using assms
    by (auto simp: map_ok_eq_Inr res_iffs write_requested_features_def dev_wf_def bit_eq_iff bit_simps split: if_splits)
next
  case (SelectQueue bs rest)
  then show ?thesis using assms by (auto simp: map_ok_eq_Inr write_selected_queue_def dev_wf_def)
next
  case (QueuePfn bs rest)
  then show ?thesis using assms
    by (auto simp: map_ok_eq_Inr res_iffs write_pfn_def dev_wf_def Virtqueue_new_eq QUEUE_LIMIT_def split: if_splits)
next
  case (Notify bs)
  then have "d' = d \<or> send_available_packets oc nh vm_start (m, w, d) = Inr (m', w', d')"
    using assms(1) by (auto simp: handle_notify_output_def res_iffs split: if_splits)
  then show ?thesis using send_available_packets_keeps [OF _ assms(3)] assms(3) by blast
qed

subsection \<open>The order of the handshake\<close>

text \<open>
  The status bytes a guest has written since it last reset the device, and the bytes that lead to
  each phase. Without writes to the configuration registers the phase, the queues, the interface and
  the features fit together, and the bytes of the phase were written in their order.
\<close>

fun status_bytes :: "dev_op \<Rightarrow> u8 list" where
  "status_bytes (StatusWrite (b # bs)) = [b]"
| "status_bytes _ = []"

fun is_config_write :: "dev_op \<Rightarrow> bool" where
  "is_config_write (ConfigWrite _ _) = True"
| "is_config_write _ = False"

definition since_reset :: "u8 list \<Rightarrow> u8 list" where
  "since_reset bs = rev (takeWhile (\<lambda>b. b \<noteq> 0) (rev bs))"

fun path :: "phase \<Rightarrow> u8 list" where
  "path ResetNeeded = []"
| "path Initial = []"
| "path Acknowledged = [1]"
| "path DriverFound = [1, 3]"
| "path FeaturesAccepted = [1, 3, 0xB]"
| "path Running = [1, 3, 0xB, 0xF]"
| "path Broken = [1, 3, 0xB, 0xF]"

definition in_phase :: "phase \<Rightarrow> 'i VirtioNetPciDevice \<Rightarrow> bool" where
  "in_phase p d \<longleftrightarrow> status d = phase_status p \<and>
     (virt_queues d \<noteq> [] \<longrightarrow> p \<in> {FeaturesAccepted, Running, Broken}) \<and>
     (iface d \<noteq> None \<longrightarrow> p \<in> {Running, Broken}) \<and>
     (requested_features d \<noteq> 0 \<longrightarrow> p \<in> {DriverFound, FeaturesAccepted, Running, Broken})"

lemma since_reset_snoc: "since_reset (bs @ [b]) = (if b = 0 then [] else since_reset bs @ [b])"
  by (simp add: since_reset_def)

lemma path_handshake:
  assumes "subseq (path p) (since_reset bs)"
  shows "subseq (path (handshake up p b)) (since_reset (bs @ [b]))"
proof -
  have mono: "subseq xs (since_reset bs @ [b])" if "subseq xs (since_reset bs)" for xs
    using that by (metis append.right_neutral list_emb_append_mono list_emb_Nil)
  have ext: "subseq (xs @ [b]) (since_reset bs @ [b])" if "subseq xs (since_reset bs)" for xs
    using that by (simp add: list_emb_append_mono)
  show ?thesis
    using assms mono ext [of "path p"] by (cases p) (auto simp: since_reset_snoc handshake_def)
qed

lemma phase_cases: "p \<in> {FeaturesAccepted, Running, Broken} \<longleftrightarrow> phase_status p AND 8 \<noteq> 0"
  "p \<in> {Running, Broken} \<longleftrightarrow> phase_status p AND 4 \<noteq> 0"
  by (cases p; simp)+

lemma after_status_in_phase:
  assumes "in_phase p d" and "length (registers d) = 64"
  shows "in_phase (handshake (link_up nh w) p b) (after_status nh w p b d)"
  using assms
  by (cases p) (auto simp: in_phase_def after_status_def Let_def status_def handshake_def)

lemma dev_exec_in_phase:
  assumes run: "dev_exec oc nh vm_start (m, w, d) op = Inr (m', w', d')" and "\<not> is_config_write op"
    and p: "in_phase p d" and wf: "dev_wf nh d" and path: "subseq (path p) (since_reset bs)"
  shows "\<exists>p'. in_phase p' d' \<and> subseq (path p') (since_reset (bs @ status_bytes op))"
proof (cases op)
  case (StatusWrite cs)
  then obtain b cs' where cs: "cs = b # cs'"
    using run wf by (cases cs) (auto simp: write_status_def index_def map_ok_eq_Inr status_regs dev_wf_def)
  have "d' = after_status nh w p b d"
    using write_status_effect [of d p nh w b cs'] run StatusWrite cs wf p
    by (auto simp: dev_wf_def in_phase_def map_ok_eq_Inr)
  then show ?thesis
    using after_status_in_phase [OF p] path_handshake [OF path] wf StatusWrite cs
    by (intro exI [of _ "handshake (link_up nh w) p b"]) (simp add: dev_wf_def)
next
  case (FeaturesWrite cs rest)
  then have "in_phase p d'"
    using run p wf
    by (cases p) (auto simp: map_ok_eq_Inr res_iffs write_requested_features_def in_phase_def dev_wf_def status_regs
        uhyve_consts status_def split: if_splits)
  then show ?thesis using path FeaturesWrite by auto
next
  case (SelectQueue cs rest)
  then have "in_phase p d'" using run p by (auto simp: map_ok_eq_Inr write_selected_queue_def in_phase_def status_def)
  then show ?thesis using path SelectQueue by auto
next
  case (QueuePfn cs rest)
  then have "in_phase p d'"
    using run p wf
    by (cases p) (auto simp: map_ok_eq_Inr res_iffs write_pfn_def in_phase_def dev_wf_def status_regs
        uhyve_consts status_def split: if_splits)
  then show ?thesis using path QueuePfn by auto
next
  case (Notify cs)
  then consider "d' = d" | "status d AND 4 \<noteq> 0" "send_available_packets oc nh vm_start (m, w, d) = Inr (m', w', d')"
    using run wf by (auto simp: handle_notify_output_def res_iffs status_regs dev_wf_def uhyve_consts split: if_splits)
  then have "in_phase p d' \<or> (p = Running \<and> in_phase Broken d')"
  proof cases
    case 1
    then show ?thesis using p by simp
  next
    case 2
    then have pr: "p \<in> {Running, Broken}" using p phase_cases(2) [of p] by (simp add: in_phase_def)
    obtain rs where "d' = d\<lparr>registers := rs, virt_queues := virt_queues d'\<rparr>" "rs ! 6 \<in> {status d, status d OR 0x40}"
      "length (virt_queues d') = length (virt_queues d)"
      using send_available_packets_keeps [OF 2(2) wf] by blast
    then have "status d' \<in> {status d, status d OR 0x40}" "iface d' = iface d" "requested_features d' = requested_features d"
      by (metis VirtioNetPciDevice.select_convs VirtioNetPciDevice.surjective VirtioNetPciDevice.update_convs status_def)+
    then show ?thesis using pr p by (auto simp: in_phase_def)
  qed
  then show ?thesis using path Notify by auto
qed (use assms in simp)

subsection \<open>Sending\<close>

text \<open>
  The packet a position of the transmit queue stands for, reading the descriptor the way the device
  does, all of it away from the used ring; and an interface that accepts every packet, \<open>sent\<close>
  observing what it got.
\<close>

definition tx_packet :: "('w, 'i) net_host \<Rightarrow> hmem \<Rightarrow> Virtqueue \<Rightarrow> u16 \<Rightarrow> u8 list \<Rightarrow> bool" where
  "tx_packet nh m q i bs \<longleftrightarrow> (\<exists>addr gpa len.
     load m (get_descriptor q i) = Inr addr \<and> load m addr = Inr gpa \<and> load m (get_descriptor q i + 8) = Inr (len :: u32) \<and>
     sizeof_virtio_net_hdr nh \<le> ucast len \<and>
     load_bytes m (mem_base m + gpa) (unat len - unat (sizeof_virtio_net_hdr nh)) = Inr bs \<and>
     apart (vring_mem (used_ring q)) used_bytes (get_descriptor q i) 8 \<and>
     apart (vring_mem (used_ring q)) used_bytes (get_descriptor q i + 8) 4 \<and>
     apart (vring_mem (used_ring q)) used_bytes addr 8 \<and>
     apart (vring_mem (used_ring q)) used_bytes (mem_base m + gpa) (unat len - unat (sizeof_virtio_net_hdr nh)))"

definition accepts_packets :: "('w, 'i) net_host \<Rightarrow> ('w \<Rightarrow> u8 list list) \<Rightarrow> bool" where
  "accepts_packets nh sent \<longleftrightarrow> (\<forall>w tap bs. sent (snd (iface_send nh w tap bs)) = sent w @ [bs])"

lemma tx_packet_same_outside:
  assumes "tx_packet nh m q i bs" and so: "same_outside (vring_mem (used_ring q)) used_bytes m m'"
  shows "tx_packet nh m' q i bs"
proof -
  note loads = same_outside_load [OF so, where 'w = 64] same_outside_load [OF so, where 'w = 32]
  obtain addr gpa and len :: u32 where "load m (get_descriptor q i) = Inr addr" "load m addr = Inr gpa"
    "load m (get_descriptor q i + 8) = Inr len" "sizeof_virtio_net_hdr nh \<le> ucast len"
    "load_bytes m (mem_base m + gpa) (unat len - unat (sizeof_virtio_net_hdr nh)) = Inr bs"
    "apart (vring_mem (used_ring q)) used_bytes (get_descriptor q i) 8"
    "apart (vring_mem (used_ring q)) used_bytes (get_descriptor q i + 8) 4"
    "apart (vring_mem (used_ring q)) used_bytes addr 8"
    "apart (vring_mem (used_ring q)) used_bytes (mem_base m + gpa) (unat len - unat (sizeof_virtio_net_hdr nh))"
    using assms(1) unfolding tx_packet_def by blast
  then show ?thesis
    unfolding tx_packet_def same_outsideD(2) [OF so]
    by (intro exI [of _ addr] exI [of _ gpa] exI [of _ len]) (simp add: loads same_outsideD(5) [OF so])
qed

lemma send_packet_sends:
  assumes "tx_packet nh m q i bs" and "iface d = Some tap" and "accepts_packets nh sent"
    and used: "mem_wf m" "in_mem m (vring_mem (used_ring q)) used_bytes" "queue_size q = 256"
      "vring_index m (used_ring q) = Inr u" "oc \<longrightarrow> unat u < 65535"
  shows "\<exists>m' w'. send_packet oc nh (mem_base m) q (m, w, d) i = Inr (m', w', d) \<and> sent w' = sent w @ [bs] \<and>
    vring_index m' (used_ring q) = Inr (u + 1) \<and> same_outside (vring_mem (used_ring q)) used_bytes m m'"
proof -
  obtain addr gpa and len :: u32 where l: "load m (get_descriptor q i) = Inr addr" "load m addr = Inr gpa"
    "load m (get_descriptor q i + 8) = Inr len" "sizeof_virtio_net_hdr nh \<le> ucast len"
    and bs: "load_bytes m (mem_base m + gpa) (unat len - unat (sizeof_virtio_net_hdr nh)) = Inr bs"
    using assms(1) unfolding tx_packet_def by blast
  have "in_mem m (mem_base m + gpa) (unat len - unat (sizeof_virtio_net_hdr nh))" using bs gm.rd_ok_iff by blast
  then have hva: "host_address oc (mem_base m) gpa = Inr (mem_base m + gpa)" by (rule host_address_in_mem)
  let ?n = "ucast len - sizeof_virtio_net_hdr nh :: usize"
  have n: "unat ?n = unat len - unat (sizeof_virtio_net_hdr nh)"
    using unat_sub [OF l(4)] unat_ucast_up [of len, where 'b = 64] by simp
  then have small: "unat ?n < 2 ^ 63" using unsigned_less [of len, where 'a = nat] by simp
  obtain m' where m': "add_used oc m q (ucast i) 1 = Inr m'" "same_outside (vring_mem (used_ring q)) used_bytes m m'"
    "used_view m' q = (Inr (u + 1), (snd (used_view m q)) [unat u mod 256 := Inr (ucast i, 1)])"
    using add_used_view [OF used] by blast
  have "send_packet oc nh (mem_base m) q (m, w, d) i = Inr (m', snd (iface_send nh w tap bs), d)"
    using l hva small bs assms(2) m'(1)
    by (simp add: send_packet_def Let_def layout sub_oc_no_underflow n)
  then show ?thesis using m' assms(3) by (auto simp: accepts_packets_def used_view_def)
qed

lemma send_packets_sends:
  assumes "list_all2 (tx_packet nh m q) idxs pkts" and d: "iface d = Some tap" and snd: "accepts_packets nh sent"
    and "mem_wf m" and "in_mem m (vring_mem (used_ring q)) used_bytes" and size: "queue_size q = 256"
    and "vring_index m (used_ring q) = Inr u" and "oc \<longrightarrow> unat u + length idxs \<le> 65535"
  shows "\<exists>m' w'. for_each (send_packet oc nh (mem_base m) q) (m, w, d) idxs = Inr (m', w', d) \<and> sent w' = sent w @ pkts \<and>
    vring_index m' (used_ring q) = Inr (u + of_nat (length idxs)) \<and> same_outside (vring_mem (used_ring q)) used_bytes m m'"
  using assms(1,4,5,7,8)
proof (induction idxs arbitrary: pkts m w u)
  case (Cons i idxs)
  from Cons.prems(1) obtain bs pkts' where hyps: "pkts = bs # pkts'" "tx_packet nh m q i bs" "list_all2 (tx_packet nh m q) idxs pkts'"
    by (auto simp: list_all2_Cons1)
  have "oc \<longrightarrow> unat u < 65535" using Cons.prems(5) by auto
  from send_packet_sends [OF hyps(2) d snd Cons.prems(2,3) size Cons.prems(4) this]
  obtain m1 w1 where s1: "send_packet oc nh (mem_base m) q (m, w, d) i = Inr (m1, w1, d)" "sent w1 = sent w @ [bs]"
    "vring_index m1 (used_ring q) = Inr (u + 1)" and so: "same_outside (vring_mem (used_ring q)) used_bytes m m1"
    by blast
  note sD = same_outsideD [OF so]
  have all2: "list_all2 (tx_packet nh m1 q) idxs pkts'"
    by (rule list_all2_mono [OF hyps(3)]) (rule tx_packet_same_outside [OF _ so])
  have room: "oc \<longrightarrow> unat (u + 1) + length idxs \<le> 65535"
    using Cons.prems(5) unat_add_no_overflow [of u 1] by auto
  obtain m' w' where "for_each (send_packet oc nh (mem_base m1) q) (m1, w1, d) idxs = Inr (m', w', d)"
    "sent w' = sent w1 @ pkts'" "vring_index m' (used_ring q) = Inr (u + 1 + of_nat (length idxs))"
    "same_outside (vring_mem (used_ring q)) used_bytes m1 m'"
    using Cons.IH [OF all2, of "u + 1" w1] room Cons.prems(2,3) s1(3) sD(1,4) by auto
  then show ?case
    using s1 sD(2) so hyps(1) by (auto simp: add.assoc intro: same_outside_trans)
qed auto

lemma notify_sends:
  assumes q: "length (virt_queues d) \<ge> 2" "virt_queues d ! 1 = q" and live: "length (registers d) = 64" "status d AND 4 = 4"
    and "iface d = Some tap" and "accepts_packets nh sent"
    and "mem_wf m" and "in_mem m (vring_mem (used_ring q)) used_bytes" and size: "queue_size q = 256"
    and "vring_index m (used_ring q) = Inr u" and "oc \<longrightarrow> unat u + pending m q \<le> 65535"
    and avail: "vring_index m (available_ring q) = Inr i" "oc \<longrightarrow> unat (last_seen_available q) \<le> unat i"
    and "list_all2 (tx_packet nh m q) (map (\<lambda>j. (last_seen_available q + of_nat j) mod 256) [0..<pending m q]) pkts"
  shows "\<exists>m' w'. handle_notify_output oc nh (mem_base m) (m, w, d) (1 # 0 # rest) =
      Inr (m', w', d\<lparr>virt_queues := (virt_queues d)[1 := q\<lparr>last_seen_available := i\<rparr>]\<rparr>) \<and>
    sent w' = sent w @ pkts \<and> vring_index m' (used_ring q) = Inr (u + of_nat (length pkts)) \<and>
    same_outside (vring_mem (used_ring q)) used_bytes m m'"
proof -
  let ?q' = "q\<lparr>last_seen_available := i\<rparr>" and ?idxs = "map (\<lambda>j. (last_seen_available q + of_nat j) mod 256) [0..<pending m q]"
  have desc: "get_descriptor ?q' k = get_descriptor q k" for k by (simp add: get_descriptor_def)
  have "tx_packet nh m ?q' = tx_packet nh m q" by (intro ext) (simp add: tx_packet_def desc)
  with send_packets_sends [of nh m ?q' ?idxs pkts d tap sent u oc w] assms obtain m' w' where
    run: "for_each (send_packet oc nh (mem_base m) ?q') (m, w, d) ?idxs = Inr (m', w', d)"
    and post: "sent w' = sent w @ pkts" "vring_index m' (used_ring q) = Inr (u + of_nat (pending m q))"
      "same_outside (vring_mem (used_ring q)) used_bytes m m'"
    by auto
  have "avail_collect oc m q [] = Inr (?idxs, ?q')"
    using avail_collect_eq [OF avail(1) _ avail(2), of "[]"] avail(1) by (simp add: size pending_def)
  moreover have "length pkts = pending m q" using assms(14) by (auto dest: list_all2_lengthD)
  ultimately show ?thesis
    using q run post live
    by (auto simp: handle_notify_output_def read_u16_def index_def status_regs uhyve_consts send_available_packets_def TX_QUEUE_def)
qed

subsection \<open>Properties\<close>

text \<open>
  C21. The status register refines the virtio handshake: in every phase, a status byte takes the
  register to the phase the automaton gives, never stops the device, and a zero byte resets the
  features, the queues and the interface.
\<close>

theorem write_status_refines_handshake:
  assumes "length (registers d) = 64" and "status d = phase_status p"
  shows "\<exists>w' d'. write_status nh w d (b # bs) = Inr (w', d') \<and>
    status d' = phase_status (handshake (link_up nh w) p b) \<and>
    (b = 0 \<longrightarrow> requested_features d' = 0 \<and> virt_queues d' = [] \<and> iface d' = None) \<and>
    (b \<noteq> 0 \<longrightarrow> requested_features d' = requested_features d \<and> virt_queues d' = virt_queues d)"
proof -
  obtain w' where "write_status nh w d (b # bs) = Inr (w', after_status nh w p b d)"
    using write_status_effect [OF assms, of nh w b bs] by blast
  then show ?thesis using assms(1) by (auto simp: after_status_def status_def Let_def)
qed

definition sample_net :: "(u8 list list, unit) net_host" where
  "sample_net = \<lparr>iface_new = (\<lambda>w. (Inr (), w)), iface_name = (\<lambda>_. ''tap0''), iface_send = (\<lambda>w tap bs. (Inr (of_nat (length bs)), w @ [bs])),
     mac_address_by_name = (\<lambda>w n. Inr (Some [2, 0, 0, 0, 0, 1])), sizeof_virtio_net_hdr = 10,
     VIRTIO_NET_F_STATUS = 16, VIRTIO_NET_F_MAC = 5\<rparr>"

definition sample_device :: "u8 \<Rightarrow> unit option \<Rightarrow> Virtqueue list \<Rightarrow> unit VirtioNetPciDevice" where
  "sample_device s tap qs = \<lparr>registers = (replicate 64 0)[6 := s], requested_features = 0, selected_queue_num = 0,
     virt_queues = qs, iface = tap, mac_addr = replicate 6 0\<rparr>"

lemma sample_net_laws: "mac_six sample_net" "accepts_packets sample_net (\<lambda>w. w)" "link_up sample_net w"
  by (simp_all add: mac_six_def accepts_packets_def sample_net_def link_up_def tap_result_def)

theorem write_status_refines_handshake_witness:
  "\<exists>w' d'. write_status sample_net [] (sample_device 0xB None []) [0xF] = Inr (w', d') \<and> status d' = 0xF"
  using write_status_refines_handshake [of "sample_device 0xB None []" FeaturesAccepted sample_net "[]" "0xF" "[]"]
  by (auto simp: sample_device_def status_def handshake_def sample_net_laws)

text \<open>
  C20. Whatever sequence of writes to its configuration registers, its ports and its queues a guest
  makes, a device that still runs has its 64 registers and a six-byte hardware address, has accepted
  only features the host offers, and every queue it has registered has 256 entries.
\<close>

theorem device_invariant:
  assumes "mac_six nh" and "VirtioNetPciDevice_new = Inr d"
    and "for_each (dev_exec oc nh vm_start) (m, w, d) ops = Inr (m', w', d')"
  shows "length (registers d') = 64 \<and> length (mac_addr d') = 6 \<and>
    requested_features d' AND NOT (HOST_FEATURES nh) = 0 \<and> (\<forall>q \<in> set (virt_queues d'). queue_size q = 256)"
proof -
  have "case (m', w', d') of (m, w, d) \<Rightarrow> dev_wf nh d"
  proof (rule for_each_invariant [OF _ _ assms(3)])
    show "case (m, w, d) of (m, w, d) \<Rightarrow> dev_wf nh d"
      using assms(2) by (auto simp: VirtioNetPciDevice_new_eq dev_wf_def)
  qed (use assms(1) in \<open>auto intro: dev_exec_wf\<close>)
  then show ?thesis by (simp add: dev_wf_def)
qed

theorem device_invariant_witness:
  "\<exists>d m' w' d'. VirtioNetPciDevice_new = Inr d \<and>
     for_each (dev_exec True sample_net 0) (sample_ring, [], d) [StatusWrite [1], StatusWrite [3]] = Inr (m', w', d') \<and>
     requested_features d' AND NOT (HOST_FEATURES sample_net) = 0"
proof -
  obtain d where d: "VirtioNetPciDevice_new = Inr (d :: unit VirtioNetPciDevice)" "length (registers d) = 64" "status d = phase_status ResetNeeded"
    by (simp add: VirtioNetPciDevice_new_eq status_def)
  obtain w1 where 1: "write_status sample_net [] d [1] = Inr (w1, after_status sample_net [] ResetNeeded 1 d)"
    using write_status_effect [OF d(2,3), of sample_net "[]" 1 "[]"] by blast
  let ?d1 = "after_status sample_net [] ResetNeeded 1 d"
  have d1: "length (registers ?d1) = 64" "status ?d1 = phase_status Acknowledged"
    using d(2) by (simp_all add: after_status_def status_def handshake_def Let_def)
  obtain w2 where 2: "write_status sample_net w1 ?d1 [3] = Inr (w2, after_status sample_net w1 Acknowledged 3 ?d1)"
    using write_status_effect [OF d1, of sample_net w1 3 "[]"] by blast
  have "for_each (dev_exec True sample_net 0) (sample_ring, [], d) [StatusWrite [1], StatusWrite [3]] =
      Inr (sample_ring, w2, after_status sample_net w1 Acknowledged 3 ?d1)"
    by (simp add: 1 2)
  with device_invariant [OF sample_net_laws(1) d(1) this] d(1) show ?thesis by blast
qed

text \<open>
  As long as the guest leaves the configuration registers alone, the device is ready for
  transmission only after the whole handshake, in order: \<^verbatim>\<open>DRIVER_OK\<close> in the status register means
  that the bytes 1, 3, 0xB and 0xF were written in this order since the last reset; queues are
  registered only once the features are accepted, and the interface exists only with \<^verbatim>\<open>DRIVER_OK\<close>.
\<close>

theorem driver_ok_needs_handshake:
  assumes "mac_six nh" and "VirtioNetPciDevice_new = Inr d" and "\<not> list_ex is_config_write ops"
    and "for_each (dev_exec oc nh vm_start) (m, w, d) ops = Inr (m', w', d')"
  shows "(status d' AND 4 \<noteq> 0 \<longrightarrow> subseq [1, 3, 0xB, 0xF] (since_reset (concat (map status_bytes ops)))) \<and>
    (virt_queues d' \<noteq> [] \<longrightarrow> status d' AND 8 \<noteq> 0) \<and> (iface d' \<noteq> None \<longrightarrow> status d' AND 4 \<noteq> 0)"
proof -
  have "\<exists>p. in_phase p d' \<and> dev_wf nh d' \<and> subseq (path p) (since_reset (concat (map status_bytes ops)))"
    using assms(3,4)
  proof (induction ops arbitrary: m' w' d' rule: rev_induct)
    case Nil
    then have "d' = d" by simp
    with assms(2) have "in_phase ResetNeeded d' \<and> dev_wf nh d'"
      by (auto simp: VirtioNetPciDevice_new_eq in_phase_def dev_wf_def status_def)
    then show ?case by (intro exI [of _ ResetNeeded]) simp
  next
    case (snoc op ops)
    from snoc.prems(2) obtain m1 w1 d1 where run: "for_each (dev_exec oc nh vm_start) (m, w, d) ops = Inr (m1, w1, d1)"
      "dev_exec oc nh vm_start (m1, w1, d1) op = Inr (m', w', d')"
      by (auto simp: for_each_append and_then_eq_Inr)
    obtain p where p: "in_phase p d1" "dev_wf nh d1" "subseq (path p) (since_reset (concat (map status_bytes ops)))"
      using snoc.IH [OF _ run(1)] snoc.prems(1) by auto
    have "\<not> is_config_write op" using snoc.prems(1) by simp
    from dev_exec_in_phase [OF run(2) this p] dev_exec_wf [OF run(2) assms(1) p(2)] show ?case by auto
  qed
  then obtain p where p: "in_phase p d'" "subseq (path p) (since_reset (concat (map status_bytes ops)))" by blast
  then show ?thesis
    using phase_cases [of p] by (cases p) (auto simp: in_phase_def)
qed

theorem driver_ok_needs_handshake_witness:
  "\<exists>d m' w' d'. VirtioNetPciDevice_new = Inr d \<and>
     for_each (dev_exec True sample_net 0) (sample_ring, [], d) [SelectQueue [0] [0], StatusWrite [1]] = Inr (m', w', d') \<and>
     (status d' AND 4 \<noteq> 0 \<longrightarrow> subseq [1, 3, 0xB, 0xF] [1])"
proof -
  let ?ops = "[SelectQueue [0] [0], StatusWrite [1]]"
  obtain d where d: "VirtioNetPciDevice_new = Inr (d :: unit VirtioNetPciDevice)" "length (registers d) = 64" "status d = phase_status ResetNeeded"
    by (simp add: VirtioNetPciDevice_new_eq status_def)
  let ?d = "d\<lparr>selected_queue_num := 0\<rparr>"
  have d1: "length (registers ?d) = 64" "status ?d = phase_status ResetNeeded" using d by (simp_all add: status_def)
  obtain w1 where 1: "write_status sample_net [] ?d [1] = Inr (w1, after_status sample_net [] ResetNeeded 1 ?d)"
    using write_status_effect [OF d1, of sample_net "[]" 1 "[]"] by blast
  have run: "for_each (dev_exec True sample_net 0) (sample_ring, [], d) ?ops =
      Inr (sample_ring, w1, after_status sample_net [] ResetNeeded 1 ?d)"
    by (simp add: 1 write_selected_queue_def read_ptr_def)
  have "since_reset (concat (map status_bytes ?ops)) = [1]" by (simp add: since_reset_def)
  with driver_ok_needs_handshake [OF sample_net_laws(1) d(1) _ run] d(1) run show ?thesis by auto
qed

text \<open>
  A guest that completes the handshake without registering two queues and then notifies the
  transmit queue stops the virtual machine: the notification indexes the list of queues unchecked.
\<close>

theorem notify_without_queue_panics:
  assumes "length (registers d) = 64" and "status d AND 4 = 4" and "length (virt_queues d) < 2"
  shows "handle_notify_output oc nh vm_start (m, w, d) (1 # 0 # rest) = Inl IndexOutOfBounds"
  using assms
  by (simp add: handle_notify_output_def read_u16_def index_def status_regs uhyve_consts send_available_packets_def TX_QUEUE_def)

theorem notify_without_queue_panics_witness:
  "handle_notify_output False sample_net 0x100000 (sample_ring, [], sample_device 0xF (Some ()) []) [1, 0] = Inl IndexOutOfBounds"
  by (rule notify_without_queue_panics) (simp_all add: sample_device_def status_def)


definition sample_tx :: hmem where
  "sample_tx = \<lparr>mem_base = 0x100000, mem_size = 0x4000, mem_bytes = (\<lambda>a.
     if a = 0x100011 \<or> a = 0x100021 then 0x30 else if a = 0x100012 \<or> a = 0x100022 then 0x10
     else if a = 0x100018 \<or> a = 0x100028 then 12
     else if a = 0x101002 then 3
     else if a = 0x103001 then 0x31 else if a = 0x103100 then 5 else if a = 0x103101 then 6 else 0)\<rparr>"

lemma sample_tx_facts:
  "mem_wf sample_tx" "in_mem sample_tx 0x102000 used_bytes" "mem_base sample_tx = 0x100000"
  "load sample_tx 0x102002 = Inr (0 :: u16)" "load sample_tx 0x101002 = Inr (3 :: u16)"
  "load sample_tx 0x100010 = Inr (0x103000 :: u64)" "load sample_tx 0x100018 = Inr (12 :: u32)"
  "load sample_tx 0x100020 = Inr (0x103000 :: u64)" "load sample_tx 0x100028 = Inr (12 :: u32)"
  "load sample_tx 0x103000 = Inr (0x3100 :: u64)" "load_bytes sample_tx 0x103100 2 = Inr [5, 6]"
  by (simp_all add: sample_tx_def mem_wf_def in_mem_def used_bytes_def load_def load_bytes_def read_bytes_def upt_rec)

lemma sample_tx_packets: "tx_packet sample_net sample_tx sample_queue 1 [5, 6]" "tx_packet sample_net sample_tx sample_queue 2 [5, 6]"
  unfolding tx_packet_def
  by (rule exI [of _ "0x103000"], rule exI [of _ "0x3100"], rule exI [of _ 12],
      simp add: get_descriptor_def sample_queue_def layout sample_tx_facts sample_net_def apart_def used_bytes_def)+


end
