(* ===== verification/Vcpu_Linux.thy ===== *)
theory Vcpu_Linux
  imports Vcpu_Setup Cmdline Virtio
begin

text \<open>
  The exit loop of a virtual processor on Linux (\<^verbatim>\<open>r#continue\<close> and \<^verbatim>\<open>run\<close> of \<^verbatim>\<open>src/linux/vcpu.rs\<close>):
  running the guest until it exits, serving port accesses by the hypercalls and the virtio device,
  and stopping on an exit request, a debug event or a signal.
\<close>

subsection \<open>State\<close>

definition PCI_CONFIG_DATA_PORT :: u16 where [uhyve_consts]: "PCI_CONFIG_DATA_PORT = 0xCFC"
definition PCI_CONFIG_ADDRESS_PORT :: u16 where [uhyve_consts]: "PCI_CONFIG_ADDRESS_PORT = 0xCF8"

text \<open>
  The sending half of the channel to the network thread, as far as a sender sees it: the messages
  not yet received, and whether the receiver still exists.
\<close>

record channel =
  chan_queue :: "usize list"
  chan_receiver :: bool

definition chan_send :: "channel \<Rightarrow> usize \<Rightarrow> channel res" where
  "chan_send c x = (if chan_receiver c then Inr (c\<lparr>chan_queue := chan_queue c @ [x]\<rparr>) else Inl UnwrapFailed)"

text \<open>
  What the loop changes: guest memory, the virtio device and the channel, shared with the other
  processors, the configuration address, and the bytes of the last input in the page shared with
  the kernel.
\<close>

record 'i UhyveCPU =
  cpu_mem :: hmem
  cpu_virtio_device :: "'i VirtioNetPciDevice"
  cpu_tx :: "channel option"
  cpu_pci_addr :: "u32 option"
  cpu_io_page :: "u8 list"

text \<open>
  Why the guest stopped running. The data of a port access are the bytes of the slice and the rest
  of the page behind it.
\<close>

datatype 'd VcpuExit =
    Hlt
  | Shutdown
  | IoIn u16 "u8 list" "u8 list"
  | IoOut u16 "u8 list" "u8 list"
  | DebugExit 'd
  | InternalError
  | OtherExit

datatype 'd VcpuStopReason = DebugStop 'd | Exit i32 | Kick

text \<open>
  The surroundings: the calls of the host, the network host, running the guest, which gets the
  input bytes and changes guest memory, the conversion of an I/O error to an error number, the
  number of \<^verbatim>\<open>EINTR\<close>, the path of the kernel, and the arguments and environment of the process.
\<close>

record ('w, 'i, 'd) surroundings =
  libc_calls :: "'w libc"
  net :: "('w, 'i) net_host"
  vcpu_run :: "u8 list \<Rightarrow> hmem \<Rightarrow> 'w \<Rightarrow> (i32 + 'd VcpuExit) \<times> hmem \<times> 'w"
  errno_of_io :: "io_error \<Rightarrow> i32"
  EINTR :: i32
  kernel_path :: "u8 list"
  process_args :: "u8 list list"
  process_vars :: "(u8 list \<times> u8 list) list"

subsection \<open>Input\<close>

text \<open>Storing a 32-bit value through the pointer of the data slice, and storing into the slice.\<close>

definition write_ptr_u32 :: "u8 list \<Rightarrow> u8 list \<Rightarrow> u32 \<Rightarrow> u8 list res" where
  "write_ptr_u32 addr rest x =
     (if 4 \<le> length (addr @ rest) then Inr (to_le 4 x @ drop 4 (addr @ rest)) else Inl BadAccess)"

definition io_in ::
  "('w, 'i, 'd) surroundings \<Rightarrow> bool \<Rightarrow> 'i UhyveCPU \<Rightarrow> u16 \<Rightarrow> u8 list \<Rightarrow> u8 list \<Rightarrow> 'i UhyveCPU res" where
  "io_in env oc c port addr rest =
     (let dev = cpu_virtio_device c;
          into_slice = map_ok (\<lambda>bs. c\<lparr>cpu_io_page := bs @ rest\<rparr>);
          no_device = map_ok (\<lambda>bs. c\<lparr>cpu_io_page := bs\<rparr>) (write_ptr_u32 addr rest 0xffffffff) in
      if port = PCI_CONFIG_DATA_PORT then
        (case cpu_pci_addr c of
           Some pci_addr \<Rightarrow>
             if pci_addr AND 0x1ff800 = 0 then into_slice (handle_read dev (pci_addr AND 0x3ff) addr)
             else no_device
         | None \<Rightarrow> no_device)
      else if port = PCI_CONFIG_ADDRESS_PORT then into_slice (Inr addr)
      else if port = VIRTIO_PCI_STATUS then into_slice (read_status dev addr)
      else if port = VIRTIO_PCI_HOST_FEATURES then into_slice (read_host_features (net env) addr)
      else if port = VIRTIO_PCI_GUEST_FEATURES then into_slice (read_requested_features dev addr)
      else if VIRTIO_PCI_CONFIG_OFF_MSIX_OFF \<le> port \<and> port \<le> VIRTIO_PCI_CONFIG_OFF_MSIX_OFF_MAX then
        and_then (sub_oc oc port VIRTIO_PCI_CONFIG_OFF_MSIX_OFF) (\<lambda>i. into_slice (read_mac_byte dev addr i))
      else if port = VIRTIO_PCI_ISR then into_slice (Inr addr)
      else if port = VIRTIO_PCI_LINK_STATUS_MSIX_OFF then into_slice (read_link_status dev addr)
      else into_slice (Inr addr))"

subsection \<open>Output\<close>

text \<open>The address of the arguments of a hypercall: the 32-bit value written, as a host address.\<close>

definition data_addr :: "bool \<Rightarrow> usize \<Rightarrow> u8 list \<Rightarrow> u8 list \<Rightarrow> usize res" where
  "data_addr oc vm_start addr rest =
     and_then (read_ptr addr rest :: u32 res) (\<lambda>a. host_address oc vm_start (ucast a))"

text \<open>
  A write to a port: the state to go on with, or the reason to stop. \<^const>\<open>None\<close> stands for a
  handler that does not return.
\<close>

definition on_mem :: "'i UhyveCPU \<Rightarrow> 'w \<Rightarrow> hmem res \<Rightarrow> (i32 failure + 'd VcpuStopReason option \<times> 'i UhyveCPU \<times> 'w) option" where
  "on_mem c w r = Some (panics (map_ok (\<lambda>m. (None, c\<lparr>cpu_mem := m\<rparr>, w)) r))"

definition on_mem_host ::
  "'i UhyveCPU \<Rightarrow> (hmem \<times> 'w) res \<Rightarrow> (i32 failure + 'd VcpuStopReason option \<times> 'i UhyveCPU \<times> 'w) option" where
  "on_mem_host c r = Some (panics (map_ok (\<lambda>(m, w). (None, c\<lparr>cpu_mem := m\<rparr>, w)) r))"

definition on_dev ::
  "'i UhyveCPU \<Rightarrow> 'w \<Rightarrow> 'i VirtioNetPciDevice res \<Rightarrow> (i32 failure + 'd VcpuStopReason option \<times> 'i UhyveCPU \<times> 'w) option" where
  "on_dev c w r = Some (panics (map_ok (\<lambda>d. (None, c\<lparr>cpu_virtio_device := d\<rparr>, w)) r))"

fun host_errors :: "(io_error \<Rightarrow> i32) \<Rightarrow> io_error failure + 'a \<Rightarrow> i32 failure + 'a" where
  "host_errors conv (Inl (Panic f)) = Inl (Panic f)"
| "host_errors conv (Inl (Err e)) = Inl (Err (conv e))"
| "host_errors conv (Inr x) = Inr x"

definition io_out ::
  "('w, 'i, 'd) surroundings \<Rightarrow> bool \<Rightarrow> usize \<Rightarrow> 'i UhyveCPU \<Rightarrow> 'w \<Rightarrow> u16 \<Rightarrow> u8 list \<Rightarrow> u8 list \<Rightarrow>
     (i32 failure + 'd VcpuStopReason option \<times> 'i UhyveCPU \<times> 'w) option" where
  "io_out env oc vm_start c w port addr rest =
     (let m = cpu_mem c; dev = cpu_virtio_device c; lc = libc_calls env; args = data_addr oc vm_start addr rest in
      if port = UHYVE_UART_PORT then
        Some (map_ok (\<lambda>w. (None, c, w)) (host_errors (errno_of_io env) (uart lc w addr)))
      else if port = UHYVE_PORT_CMDSIZE then
        on_mem c w (and_then args (cmdsize oc (kernel_path env) (process_args env) (process_vars env) m))
      else if port = UHYVE_PORT_CMDVAL then
        on_mem c w (and_then args (cmdval oc vm_start (kernel_path env) (process_args env) (process_vars env) m))
      else if port = UHYVE_PORT_NETWRITE then
        (case cpu_tx c of
           Some tx_channel \<Rightarrow> Some (panics (map_ok (\<lambda>t. (None, c\<lparr>cpu_tx := Some t\<rparr>, w)) (chan_send tx_channel 1)))
         | None \<Rightarrow> Some (Inr (None, c, w)))
      else if port = UHYVE_PORT_EXIT then
        Some (panics (map_ok (\<lambda>code. (Some (Exit code), c, w)) (and_then args (exit_code m))))
      else if port = UHYVE_PORT_OPEN then on_mem_host c (and_then args (open_file lc oc vm_start m w))
      else if port = UHYVE_PORT_WRITE then
        (case args of
           Inl f \<Rightarrow> Some (Inl (Panic f))
         | Inr p \<Rightarrow> map_option (\<lambda>r. map_ok (\<lambda>w. (None, c, w)) (host_errors (errno_of_io env) r)) (write_file lc oc vm_start m w p))
      else if port = UHYVE_PORT_READ then on_mem_host c (and_then args (read_file lc oc vm_start m w))
      else if port = UHYVE_PORT_UNLINK then on_mem_host c (and_then args (unlink lc oc vm_start m w))
      else if port = UHYVE_PORT_LSEEK then on_mem_host c (and_then args (lseek lc m w))
      else if port = UHYVE_PORT_CLOSE then on_mem_host c (and_then args (close lc m w))
      else if port = PCI_CONFIG_DATA_PORT then
        (case cpu_pci_addr c of
           Some pci_addr \<Rightarrow>
             if pci_addr AND 0x1ff800 = 0 then on_dev c w (handle_write dev (pci_addr AND 0x3ff) addr)
             else Some (Inr (None, c, w))
         | None \<Rightarrow> Some (Inr (None, c, w)))
      else if port = PCI_CONFIG_ADDRESS_PORT then
        Some (panics (map_ok (\<lambda>a. (None, c\<lparr>cpu_pci_addr := Some a\<rparr>, w)) (read_ptr addr rest)))
      else if port = VIRTIO_PCI_STATUS then
        Some (panics (map_ok (\<lambda>(w, d). (None, c\<lparr>cpu_virtio_device := d\<rparr>, w)) (write_status (net env) w dev addr)))
      else if port = VIRTIO_PCI_GUEST_FEATURES then on_dev c w (write_requested_features (net env) dev addr rest)
      else if port = VIRTIO_PCI_QUEUE_NOTIFY then
        Some (panics (map_ok (\<lambda>(m, w, d). (None, c\<lparr>cpu_mem := m, cpu_virtio_device := d\<rparr>, w))
          (handle_notify_output oc (net env) vm_start (m, w, dev) addr)))
      else if port = VIRTIO_PCI_QUEUE_SEL then on_dev c w (write_selected_queue dev addr rest)
      else if port = VIRTIO_PCI_QUEUE_PFN then on_dev c w (write_pfn oc vm_start dev addr rest)
      else Some (Inl (Panic ExplicitPanic)))"

subsection \<open>The loop\<close>

text \<open>One exit of the guest.\<close>

definition handle_exit ::
  "('w, 'i, 'd) surroundings \<Rightarrow> bool \<Rightarrow> usize \<Rightarrow> 'i UhyveCPU \<Rightarrow> 'w \<Rightarrow> i32 + 'd VcpuExit \<Rightarrow>
     (i32 failure + 'd VcpuStopReason option \<times> 'i UhyveCPU \<times> 'w) option" where
  "handle_exit env oc vm_start c w r =
     (case r of
        Inr Hlt \<Rightarrow> Some (Inr (None, c, w))
      | Inr Shutdown \<Rightarrow> Some (Inr (Some (Exit 0), c, w))
      | Inr (IoIn port addr rest) \<Rightarrow> Some (panics (map_ok (\<lambda>c. (None, c, w)) (io_in env oc c port addr rest)))
      | Inr (IoOut port addr rest) \<Rightarrow> io_out env oc vm_start c w port addr rest
      | Inr (DebugExit debug) \<Rightarrow> Some (Inr (Some (DebugStop debug), c, w))
      | Inr InternalError \<Rightarrow> Some (Inl (Panic ExplicitPanic))
      | Inr OtherExit \<Rightarrow> Some (Inl (Panic UnimplementedCode))
      | Inl errno \<Rightarrow> if errno = EINTR env then Some (Inr (Some Kick, c, w)) else Some (Inl (Err errno)))"

definition run_guest ::
  "('w, 'i, 'd) surroundings \<Rightarrow> 'i UhyveCPU \<Rightarrow> 'w \<Rightarrow> (i32 + 'd VcpuExit) \<times> 'i UhyveCPU \<times> 'w" where
  "run_guest env c w =
     (case vcpu_run env (cpu_io_page c) (cpu_mem c) w of (r, m, w) \<Rightarrow> (r, c\<lparr>cpu_mem := m\<rparr>, w))"

partial_function (option) continue ::
  "('w, 'i, 'd) surroundings \<Rightarrow> bool \<Rightarrow> usize \<Rightarrow> 'i UhyveCPU \<Rightarrow> 'w \<Rightarrow>
     (i32 failure + 'd VcpuStopReason \<times> 'i UhyveCPU \<times> 'w) option" where
  "continue env oc vm_start c w =
     (case run_guest env c w of (r, c, w) \<Rightarrow>
        Option.bind (handle_exit env oc vm_start c w r) (\<lambda>res.
        case res of
          Inl e \<Rightarrow> Some (Inl e)
        | Inr (Some reason, c, w) \<Rightarrow> Some (Inr (reason, c, w))
        | Inr (None, c, w) \<Rightarrow> continue env oc vm_start c w))"

definition run ::
  "('w, 'i, 'd) surroundings \<Rightarrow> bool \<Rightarrow> usize \<Rightarrow> 'i UhyveCPU \<Rightarrow> 'w \<Rightarrow>
     (i32 failure + i32 option \<times> 'i UhyveCPU \<times> 'w) option" where
  "run env oc vm_start c w =
     map_option (\<lambda>r. and_then r (\<lambda>(reason, c, w).
       case reason of
         DebugStop _ \<Rightarrow> Inl (Panic UnreachableCode)
       | Exit code \<Rightarrow> Inr (Some code, c, w)
       | Kick \<Rightarrow> Inr (None, c, w))) (continue env oc vm_start c w)"

text \<open>The slice of host memory behind a guest-virtual address, as the debugger uses it.\<close>

definition memory :: "bool \<Rightarrow> usize \<Rightarrow> hmem \<Rightarrow> u64 \<Rightarrow> usize res" where
  "memory oc vm_start m start_addr =
     and_then (virt_to_phys oc vm_start m start_addr) (host_address oc vm_start)"

subsection \<open>Guest memory stays where it is\<close>

text \<open>
  The place of guest memory in the host, which no service changes: the addresses the processors and
  the network threads computed at start stay valid.
\<close>

definition span :: "hmem \<Rightarrow> u64 \<times> u64" where
  "span m = (mem_base m, mem_size m)"

named_theorems keeps_span \<open>operations that leave guest memory in its place\<close>

lemma store_bytes_span [keeps_span]: "store_bytes m a bs = Inr m' \<Longrightarrow> span m' = span m"
  by (auto simp: store_bytes_def span_def split: if_splits)

lemma store_span [keeps_span]: "store m a w = Inr m' \<Longrightarrow> span m' = span m"
  unfolding store_def by (rule store_bytes_span)

lemma file_calls_span [keeps_span]:
  "unlink lc oc vs m w p = Inr (m', w') \<Longrightarrow> span m' = span m"
  "open_file lc oc vs m w p = Inr (m', w') \<Longrightarrow> span m' = span m"
  "close lc m w p = Inr (m', w') \<Longrightarrow> span m' = span m"
  "lseek lc m w p = Inr (m', w') \<Longrightarrow> span m' = span m"
  "read_file lc oc vs m w p = Inr (m', w') \<Longrightarrow> span m' = span m"
  by (auto simp: unlink_def open_file_def close_def lseek_def read_file_def res_iffs Let_def case_prod_unfold dest!: keeps_span)

lemma arg_loop_keeps:
  assumes "arg_loop oc f s args = Inr (s', rest)" and keep: "\<And>s i a s'. f s i a = Inr s' \<Longrightarrow> g s' = g s"
  shows "g s' = g s"
proof -
  have "g (fst (s', rest)) = g s"
  proof (rule for_each_invariant [OF _ _ assms(1) [unfolded arg_loop_def], where I = "\<lambda>t. g (fst t) = g s"])
    fix t x t' assume "g (fst t) = g s" and "arg_step oc f t x = Inr t'"
    then show "g (fst t') = g s"
      by (cases t) (auto simp: arg_step_def and_then_eq_Inr map_ok_eq_Inr split: if_splits dest!: keep)
  qed simp
  then show ?thesis by simp
qed

lemma env_loop_keeps:
  assumes "env_loop oc f s vars = Inr (s', rest)" and keep: "\<And>s i a s'. f s i a = Inr s' \<Longrightarrow> g s' = g s"
  shows "g s' = g s"
proof -
  have "g (fst (s', rest)) = g s"
  proof (rule for_each_invariant [OF _ _ assms(1) [unfolded env_loop_def], where I = "\<lambda>t. g (fst t) = g s"])
    fix t x t' assume "g (fst t) = g s" and "env_step oc f t x = Inr t'"
    then show "g (fst t') = g s"
      by (cases t) (auto simp: env_step_def and_then_eq_Inr map_ok_eq_Inr split: if_splits dest!: keep)
  qed simp
  then show ?thesis by simp
qed

lemma size_steps_span [keeps_span]:
  "cmdsize_arg oc p m i a = Inr m' \<Longrightarrow> span m' = span m"
  "cmdsize_env oc p m i kv = Inr m' \<Longrightarrow> span m' = span m"
  "copy_string oc vs t m i bs = Inr m' \<Longrightarrow> span m' = span m"
  by (auto simp: cmdsize_arg_def cmdsize_env_def copy_string_def set_size_def res_iffs split: if_splits prod.splits dest!: keeps_span)

lemma cmdsize_span [keeps_span]:
  assumes "cmdsize oc pth args vars m p = Inr m'"
  shows "span m' = span m"
proof -
  obtain m1 m2 m3 m4 r4 m5 m6 r6 and a b c :: i32 where 1: "store m (p + SysCmdsize_argc) a = Inr m1"
    "store m1 (p + SysCmdsize_envc) a = Inr m2" "cmdsize_arg oc p m2 0 pth = Inr m3"
    "arg_loop oc (cmdsize_arg oc p) m3 args = Inr (m4, r4)" "store m4 (p + SysCmdsize_argc) b = Inr m5"
    "env_loop oc (cmdsize_env oc p) m5 vars = Inr (m6, r6)" "store m6 (p + SysCmdsize_envc) c = Inr m'"
    using assms by (auto simp: cmdsize_def and_then_eq_Inr)
  have "span m4 = span m3" by (rule arg_loop_keeps [OF 1(4)]) (rule size_steps_span(1))
  moreover have "span m6 = span m5" by (rule env_loop_keeps [OF 1(6)]) (rule size_steps_span(2))
  ultimately show ?thesis using 1(1,2,3,5,7) by (simp add: keeps_span)
qed

lemma cmdval_span [keeps_span]:
  assumes "cmdval oc vs pth args vars m p = Inr m'"
  shows "span m' = span m"
proof -
  obtain argv envp ptr m1 m2 r2 r3 where 1: "store_bytes m ptr (pth @ [0]) = Inr m1"
    "arg_loop oc (\<lambda>m i argument. copy_string oc vs argv m i (argument @ [0])) m1 args = Inr (m2, r2)"
    "env_loop oc (\<lambda>m i (key, val). copy_string oc vs envp m i (key @ [61] @ val @ [0])) m2 vars = Inr (m', r3)"
    using assms by (auto simp: cmdval_def res_iffs split: prod.splits)
  have "span m2 = span m1" by (rule arg_loop_keeps [OF 1(2)]) (rule size_steps_span(3))
  moreover have "span m' = span m2"
    by (rule env_loop_keeps [OF 1(3)]) (auto split: prod.splits dest: size_steps_span(3))
  ultimately show ?thesis using store_bytes_span [OF 1(1)] by simp
qed

lemma add_used_span [keeps_span]: "add_used oc m q d l = Inr m' \<Longrightarrow> span m' = span m"
  by (auto simp: add_used_def advance_index_def res_iffs dest!: store_span)

lemma notify_span [keeps_span]:
  assumes "handle_notify_output oc nh vs (m, w, d) bs = Inr (m', w', d')"
  shows "span m' = span m"
proof -
  have step: "send_packet oc nh vs q s i = Inr s' \<Longrightarrow> span (fst s') = span (fst s)"
    for q i and s s' :: "hmem \<times> 'a \<times> 'b VirtioNetPciDevice"
    by (auto simp: send_packet_def Let_def res_iffs split: prod.splits dest!: add_used_span)
  have "span (fst (m', w', d')) = span m"
    if "for_each (send_packet oc nh vs q) (m, w, d) idxs = Inr (m', w', d')" for q idxs d'
    by (rule for_each_invariant [OF _ _ that, where I = "\<lambda>s. span (fst s) = span m"]) (auto dest: step)
  then show ?thesis
    using assms by (auto simp: handle_notify_output_def send_available_packets_def res_iffs split: if_splits)
qed

subsection \<open>Invariants of the loop\<close>

lemma dev_calls_wf:
  assumes "mac_six nh" and "dev_wf nh d"
  shows "handle_write d a bs = Inr d' \<Longrightarrow> dev_wf nh d'"
    and "write_status nh w d bs = Inr (w', d') \<Longrightarrow> dev_wf nh d'"
    and "write_requested_features nh d bs rest = Inr d' \<Longrightarrow> dev_wf nh d'"
    and "write_selected_queue d bs rest = Inr d' \<Longrightarrow> dev_wf nh d'"
    and "write_pfn oc vs d bs rest = Inr d' \<Longrightarrow> dev_wf nh d'"
    and "handle_notify_output oc nh vs (m, w, d) bs = Inr (m', w', d') \<Longrightarrow> dev_wf nh d'"
  using dev_exec_wf [OF _ assms, of oc vs m w "ConfigWrite a bs" m w d']
    dev_exec_wf [OF _ assms, of oc vs m w "StatusWrite bs" m w' d']
    dev_exec_wf [OF _ assms, of oc vs m w "FeaturesWrite bs rest" m w d']
    dev_exec_wf [OF _ assms, of oc vs m w "SelectQueue bs rest" m w d']
    dev_exec_wf [OF _ assms, of oc vs m w "QueuePfn bs rest" m w d']
    dev_exec_wf [OF _ assms, of oc vs m w "Notify bs" m' w' d']
  by (simp_all add: map_ok_eq_Inr)

text \<open>What holds of a processor between two exits.\<close>

definition cpu_inv :: "('w, 'i, 'd) surroundings \<Rightarrow> u64 \<times> u64 \<Rightarrow> 'i UhyveCPU \<Rightarrow> bool" where
  "cpu_inv env sp c \<longleftrightarrow> span (cpu_mem c) = sp \<and> dev_wf (net env) (cpu_virtio_device c)"

lemma io_in_inv: "io_in env oc c port addr rest = Inr c' \<Longrightarrow> cpu_inv env sp c \<Longrightarrow> cpu_inv env sp c'"
  by (auto simp: io_in_def Let_def cpu_inv_def map_ok_eq_Inr and_then_eq_Inr split: if_splits option.splits)

lemma on_simps:
  "on_mem c w r = Some (Inr (x, c', w')) \<longleftrightarrow> (\<exists>m. r = Inr m \<and> x = None \<and> c' = c\<lparr>cpu_mem := m\<rparr> \<and> w' = w)"
  "on_mem_host c r2 = Some (Inr (x, c', w')) \<longleftrightarrow> (\<exists>m. r2 = Inr (m, w') \<and> x = None \<and> c' = c\<lparr>cpu_mem := m\<rparr>)"
  "on_dev c w r3 = Some (Inr (x, c', w')) \<longleftrightarrow> (\<exists>d. r3 = Inr d \<and> x = None \<and> c' = c\<lparr>cpu_virtio_device := d\<rparr> \<and> w' = w)"
  by (auto simp: on_mem_def on_mem_host_def on_dev_def panics_eq_Inr map_ok_eq_Inr)

lemma io_out_inv:
  assumes "io_out env oc vs c w port addr rest = Some (Inr (x, c', w'))" and "mac_six (net env)" and "cpu_inv env sp c"
  shows "cpu_inv env sp c'"
proof -
  note wf = dev_calls_wf [OF assms(2), of "cpu_virtio_device c"]
  show ?thesis
    using assms(1,3) unfolding io_out_def Let_def
    by (simp only: split: if_splits option.splits sum.splits)
      (auto simp: on_simps cpu_inv_def panics_eq_Inr map_ok_eq_Inr and_then_eq_Inr dest: keeps_span wf)
qed

lemma handle_exit_inv:
  assumes "handle_exit env oc vs c w r = Some (Inr (x, c', w'))" and "mac_six (net env)" and "cpu_inv env sp c"
  shows "cpu_inv env sp c'"
  using assms
  by (auto simp: handle_exit_def panics_eq_Inr map_ok_eq_Inr split: sum.splits VcpuExit.splits if_splits
      intro: io_in_inv io_out_inv)

definition keeps_place :: "('w, 'i, 'd) surroundings \<Rightarrow> bool" where
  "keeps_place env \<longleftrightarrow> (\<forall>page m w. span (fst (snd (vcpu_run env page m w))) = span m)"

lemma run_guest_inv:
  assumes "run_guest env c w = (r, c', w')" and "keeps_place env" and "cpu_inv env sp c"
  shows "cpu_inv env sp c'"
proof -
  obtain m where "vcpu_run env (cpu_io_page c) (cpu_mem c) w = (r, m, w')" "c' = c\<lparr>cpu_mem := m\<rparr>"
    using assms(1) by (auto simp: run_guest_def split: prod.splits)
  moreover from this(1) have "span m = span (cpu_mem c)"
    using assms(2) unfolding keeps_place_def by (metis fst_conv snd_conv)
  ultimately show ?thesis using assms(3) by (simp add: cpu_inv_def)
qed

lemma continue_inv:
  assumes "continue env oc vs c w = Some (Inr (reason, c', w'))" and "keeps_place env" and "mac_six (net env)" and "cpu_inv env sp c"
  shows "cpu_inv env sp c'"
proof -
  let ?P = "\<lambda>env (oc :: bool) (vs :: usize) c (w :: 'c) (y :: i32 failure + 'a VcpuStopReason \<times> 'b UhyveCPU \<times> 'c).
      keeps_place env \<longrightarrow> mac_six (net env) \<longrightarrow>
      cpu_inv env sp c \<longrightarrow> y = Inr (reason, c', w') \<longrightarrow> cpu_inv env sp c'"
  have "?P env oc vs c w (Inr (reason, c', w'))"
  proof (rule continue.raw_induct [where P = ?P, OF _ assms(1)], goal_cases)
    case (1 cont env oc vs c w y)
    show ?case
    proof (intro impI)
      assume laws: "keeps_place env" "mac_six (net env)" and c: "cpu_inv env sp c" and y: "y = Inr (reason, c', w')"
      obtain r c1 w1 where run: "run_guest env c w = (r, c1, w1)" by (metis prod_cases3)
      have c1: "cpu_inv env sp c1" by (rule run_guest_inv [OF run laws(1) c])
      obtain res where res: "handle_exit env oc vs c1 w1 r = Some res" using 1(2) run by (auto simp: bind_eq_Some_conv)
      obtain x c2 w2 where xr: "res = Inr (x, c2, w2)" using 1(2) run y res by (cases res) auto
      with res have x: "handle_exit env oc vs c1 w1 r = Some (Inr (x, c2, w2))"
        "(case x of Some reason \<Rightarrow> Some (Inr (reason, c2, w2)) | None \<Rightarrow> cont env oc vs c2 w2) = Some y"
        using 1(2) run by (simp_all split: option.splits)
      have c2: "cpu_inv env sp c2" by (rule handle_exit_inv [OF x(1) laws(2) c1])
      show "cpu_inv env sp c'"
      proof (cases x)
        case None
        then have "cont env oc vs c2 w2 = Some y" using x(2) by simp
        from 1(1) [OF this] laws c2 y show ?thesis by blast
      next
        case (Some a)
        then show ?thesis using x(2) c2 y by simp
      qed
    qed
  qed
  then show ?thesis using assms by blast
qed

subsection \<open>Single exits\<close>

lemma read_ptr_u32 [simp]: "read_ptr (to_le 4 a) rest = Inr (a :: u32)"
  by (simp add: read_ptr_def from_le_to_le)

lemma data_addr_eq:
  assumes "in_mem m (mem_base m + ucast (a :: u32)) n"
  shows "data_addr oc (mem_base m) (to_le 4 a) rest = Inr (mem_base m + ucast a)"
  using host_address_in_mem [OF assms] by (simp add: data_addr_def)

lemmas out_ports = UHYVE_UART_PORT_def UHYVE_PORT_CMDSIZE_def UHYVE_PORT_CMDVAL_def UHYVE_PORT_NETWRITE_def UHYVE_PORT_EXIT_def
  UHYVE_PORT_OPEN_def UHYVE_PORT_WRITE_def

lemma exit_request:
  assumes "load (cpu_mem c) (mem_base (cpu_mem c) + ucast (a :: u32)) = Inr (code :: i32)"
  shows "handle_exit env oc (mem_base (cpu_mem c)) c w (Inr (IoOut UHYVE_PORT_EXIT (to_le 4 a) rest)) = Some (Inr (Some (Exit code), c, w))"
proof -
  have "in_mem (cpu_mem c) (mem_base (cpu_mem c) + ucast a) 4"
    using assms gm.rd_ok_iff [of "cpu_mem c" "mem_base (cpu_mem c) + ucast a" 4] by (auto simp: load_def map_ok_eq_Inr)
  from data_addr_eq [OF this] assms show ?thesis
    by (simp add: handle_exit_def io_out_def out_ports exit_code_def SysExit_arg_def)
qed

lemma run_unfold:
  assumes "run_guest env c w = (r, c1, w1)" and "handle_exit env oc vs c1 w1 r = Some res"
  shows "continue env oc vs c w =
    (case res of Inl e \<Rightarrow> Some (Inl e) | Inr (Some reason, c, w) \<Rightarrow> Some (Inr (reason, c, w)) | Inr (None, c, w) \<Rightarrow> continue env oc vs c w)"
  using assms by (subst continue.simps) simp

lemma write_request:
  assumes "mem_wf m" and "m = cpu_mem c" and "rw_args m (mem_base m + ucast (a :: u32)) fd buf len"
    and "virt_to_phys oc (mem_base m) m buf = Inr buffer" and "load_bytes m (mem_base m + buffer) (unat len) = Inr bs"
    and "posix_write (libc_calls env) out fd"
  shows "\<exists>w'. handle_exit env oc (mem_base m) c w (Inr (IoOut UHYVE_PORT_WRITE (to_le 4 a) rest)) = Some (Inr (None, c, w')) \<and>
    out w' = out w @ bs"
proof -
  obtain w' where w': "write_loop (libc_calls env) oc (mem_base m) m fd buffer len w 0 = Some (Inr w')" "out w' = out w @ bs"
    using write_loop_delivers [OF assms(6,1,5), of 0 oc w] by auto
  have "in_mem m (mem_base m + ucast a) 4"
    using assms(3) gm.rd_ok_iff [of m "mem_base m + ucast a" 4] by (auto simp: rw_args_def load_def map_ok_eq_Inr)
  from data_addr_eq [OF this] w'(1) have
    "handle_exit env oc (mem_base m) c w (Inr (IoOut UHYVE_PORT_WRITE (to_le 4 a) rest)) = Some (Inr (None, c, w'))"
    using write_file_eq [OF assms(3,4), of "libc_calls env" w] by (simp add: handle_exit_def io_out_def out_ports assms(2))
  with w'(2) show ?thesis by blast
qed

subsection \<open>A sample guest\<close>

text \<open>
  A guest that asks for a write as long as the file holds a single byte, and then exits. The host's
  state is the contents of the file.
\<close>

definition sample_net2 :: "(u8 list, unit) net_host" where
  "sample_net2 = \<lparr>iface_new = (\<lambda>w. (Inr (), w)), iface_name = (\<lambda>_. ''tap0''), iface_send = (\<lambda>w tap bs. (Inr (of_nat (length bs)), w)),
     mac_address_by_name = (\<lambda>w n. Inr (Some [2, 0, 0, 0, 0, 1])), sizeof_virtio_net_hdr = 10,
     VIRTIO_NET_F_STATUS = 16, VIRTIO_NET_F_MAC = 5\<rparr>"

definition sample_env :: "(u8 list, unit, unit) surroundings" where
  "sample_env = \<lparr>libc_calls = sample_libc, net = sample_net2,
     vcpu_run = (\<lambda>page m w. (Inr (if length w = 1 then IoOut UHYVE_PORT_WRITE (to_le 4 (0x100 :: u32)) []
       else IoOut UHYVE_PORT_EXIT (to_le 4 (0x300 :: u32)) []), m, w)),
     errno_of_io = (\<lambda>_. 5), EINTR = 4, kernel_path = [47], process_args = [], process_vars = []\<rparr>"

definition sample_cpu :: "unit UhyveCPU" where
  "sample_cpu = \<lparr>cpu_mem = sample_caller, cpu_virtio_device = sample_device 0 None [], cpu_tx = None, cpu_pci_addr = Some 0,
     cpu_io_page = []\<rparr>"

lemma sample_exit_code: "load sample_caller 0x100300 = Inr (0 :: i32)"
  by (simp add: sample_caller_def load_def load_bytes_def read_bytes_def in_mem_def upt_rec)

lemma sample_env_laws: "keeps_place sample_env" "mac_six (net sample_env)" "dev_wf (net sample_env) (cpu_virtio_device sample_cpu)"
  by (simp_all add: keeps_place_def sample_env_def mac_six_def sample_net2_def dev_wf_def sample_cpu_def sample_device_def)

lemma sample_guest_exits:
  assumes "length w \<noteq> 1"
  shows "run_guest sample_env sample_cpu w = (Inr (IoOut UHYVE_PORT_EXIT (to_le 4 (0x300 :: u32)) []), sample_cpu, w)"
  using assms by (simp add: run_guest_def sample_env_def sample_cpu_def)

lemma sample_run: "run sample_env oc 0x100000 sample_cpu [] = Some (Inr (Some 0, sample_cpu, []))"
proof -
  have base: "mem_base (cpu_mem sample_cpu) = 0x100000" "cpu_mem sample_cpu = sample_caller"
    by (simp_all add: sample_cpu_def sample_caller_facts)
  have "handle_exit sample_env oc 0x100000 sample_cpu [] (Inr (IoOut UHYVE_PORT_EXIT (to_le 4 (0x300 :: u32)) [])) =
      Some (Inr (Some (Exit 0), sample_cpu, []))"
    using exit_request [of sample_cpu "0x300" 0 sample_env oc "[]" "[]"] by (simp add: base sample_caller_facts sample_exit_code)
  from run_unfold [OF sample_guest_exits this] show ?thesis by (simp add: run_def)
qed

subsection \<open>Properties\<close>





text \<open>
  C6. A guest that writes a buffer and then exits: the run ends with the guest's exit code, after
  the file has received exactly the bytes of the buffer. Between the two exits the guest may do
  anything to its memory but does not touch the file.
\<close>

theorem write_then_exit:
  assumes "run_guest env c w = (Inr (IoOut UHYVE_PORT_WRITE (to_le 4 (a :: u32)) rest), c1, w1)" and "out w1 = out w"
    and "m = cpu_mem c1" and "mem_wf m" and "rw_args m (mem_base m + ucast a) fd buf len"
    and "virt_to_phys oc (mem_base m) m buf = Inr buffer" and "load_bytes m (mem_base m + buffer) (unat len) = Inr bs"
    and "posix_write (libc_calls env) out fd"
    and "\<And>w2. out w2 = out w @ bs \<Longrightarrow> \<exists>b rest' c3 w3. run_guest env c1 w2 = (Inr (IoOut UHYVE_PORT_EXIT (to_le 4 (b :: u32)) rest'), c3, w3) \<and>
      out w3 = out w2 \<and> mem_base (cpu_mem c3) = mem_base m \<and> load (cpu_mem c3) (mem_base m + ucast b) = Inr code"
  shows "\<exists>c3 w3. run env oc (mem_base m) c w = Some (Inr (Some code, c3, w3)) \<and> out w3 = out w @ bs"
proof -
  obtain w2 where h1: "handle_exit env oc (mem_base m) c1 w1 (Inr (IoOut UHYVE_PORT_WRITE (to_le 4 a) rest)) = Some (Inr (None, c1, w2))"
    and w2: "out w2 = out w @ bs"
    using write_request [OF assms(4,3,5-8), of w1 rest] assms(2) by auto
  obtain b rest' c3 w3 where g2: "run_guest env c1 w2 = (Inr (IoOut UHYVE_PORT_EXIT (to_le 4 (b :: u32)) rest'), c3, w3)"
    and w3: "out w3 = out w2" "mem_base (cpu_mem c3) = mem_base m" "load (cpu_mem c3) (mem_base m + ucast b) = Inr code"
    using assms(9) [OF w2] by blast
  have h2: "handle_exit env oc (mem_base m) c3 w3 (Inr (IoOut UHYVE_PORT_EXIT (to_le 4 b) rest')) = Some (Inr (Some (Exit code), c3, w3))"
    using exit_request [of c3 b code env oc w3 rest'] w3 by simp
  have "continue env oc (mem_base m) c w = Some (Inr (Exit code, c3, w3))"
    using run_unfold [OF assms(1) h1] run_unfold [OF g2 h2] by simp
  then show ?thesis using w2 w3 by (auto simp: run_def)
qed

theorem write_then_exit_witness:
  "\<exists>c' w'. run sample_env True 0x100000 sample_cpu [1] = Some (Inr (Some 0, c', w')) \<and> w' = [1, 7, 8, 9]"
proof -
  have cpu: "cpu_mem sample_cpu = sample_caller" by (simp add: sample_cpu_def)
  have g1: "run_guest sample_env sample_cpu [1] = (Inr (IoOut UHYVE_PORT_WRITE (to_le 4 (0x100 :: u32)) []), sample_cpu, [1])"
    by (simp add: run_guest_def sample_env_def sample_cpu_def)
  have pre: "rw_args sample_caller (mem_base sample_caller + ucast (0x100 :: u32)) 1 0x200 3"
    "virt_to_phys True (mem_base sample_caller) sample_caller 0x200 = Inr 0x200"
    "load_bytes sample_caller (mem_base sample_caller + 0x200) (unat (3 :: u64)) = Inr [7, 8, 9]"
    "posix_write (libc_calls sample_env) (\<lambda>w. w) 1"
    by (simp_all add: sample_caller_facts sample_env_def sample_posix_write)
  have "\<exists>b rest' c3 w3. run_guest sample_env sample_cpu w2 = (Inr (IoOut UHYVE_PORT_EXIT (to_le 4 (b :: u32)) rest'), c3, w3) \<and>
      w3 = w2 \<and> mem_base (cpu_mem c3) = mem_base sample_caller \<and> load (cpu_mem c3) (mem_base sample_caller + ucast b) = Inr (0 :: i32)"
    if "w2 = [1] @ [7, 8, 9]" for w2
    using sample_guest_exits [of w2] that by (auto simp: cpu sample_caller_facts sample_exit_code intro!: exI [of _ "0x300"])
  from write_then_exit [OF g1 _ cpu [symmetric] sample_caller_ready(1) pre this]
  show ?thesis by (simp add: sample_caller_facts)
qed

text \<open>
  The guest finds the network device on the bus: with a configuration address of the first
  device, a four-byte read gives vendor 0x1AF4 and device 0x1000, and any other device or bus
  number reads as all ones. A read that goes past the 64 registers of the device, which the ten
  address bits kept allow, stops the hypervisor.
\<close>

theorem pci_config_read:
  assumes "length (registers (cpu_virtio_device c)) = 64" and "cpu_pci_addr c = Some a"
  shows "(VirtioNetPciDevice_new = Inr (cpu_virtio_device c) \<longrightarrow> a AND 0x1fffff = 0 \<longrightarrow> length addr = 4 \<longrightarrow>
      io_in env oc c PCI_CONFIG_DATA_PORT addr rest = Inr (c\<lparr>cpu_io_page := [0xF4, 0x1A, 0x00, 0x10] @ rest\<rparr>)) \<and>
    (a AND 0x1ff800 \<noteq> 0 \<longrightarrow> length addr = 4 \<longrightarrow>
      io_in env oc c PCI_CONFIG_DATA_PORT addr rest = Inr (c\<lparr>cpu_io_page := [0xFF, 0xFF, 0xFF, 0xFF] @ rest\<rparr>)) \<and>
    (a AND 0x1ff800 = 0 \<longrightarrow> 64 < unat (a AND 0x3ff) + length addr \<longrightarrow>
      io_in env oc c PCI_CONFIG_DATA_PORT addr rest = Inl IndexOutOfBounds)"
proof (intro conjI impI)
  have low: "a AND 0x1ff800 = 0" "a AND 0x3ff = 0" if "a AND 0x1fffff = 0"
  proof -
    have "a AND 0x1ff800 = (a AND 0x1fffff) AND 0x1ff800" "a AND 0x3ff = (a AND 0x1fffff) AND 0x3ff"
      by (simp_all add: and.assoc)
    then show "a AND 0x1ff800 = 0" "a AND 0x3ff = 0" using that by simp_all
  qed
  assume new: "VirtioNetPciDevice_new = Inr (cpu_virtio_device c)" and a: "a AND 0x1fffff = 0" and len: "length addr = 4"
  have "registers (cpu_virtio_device c) = (replicate 64 0)[0 := 0xF4, 1 := 0x1A, 2 := 0, 3 := 0x10, 10 := 0, 11 := 2,
       16 := 0, 17 := 0xC0, 6 := 0x40]"
    using new by (simp add: VirtioNetPciDevice_new_eq) (metis VirtioNetPciDevice.select_convs(1))
  then have "take 4 (registers (cpu_virtio_device c)) = [0xF4, 0x1A, 0x00, 0x10]"
    by (simp add: numeral_eq_Suc)
  then show "io_in env oc c PCI_CONFIG_DATA_PORT addr rest = Inr (c\<lparr>cpu_io_page := [0xF4, 0x1A, 0x00, 0x10] @ rest\<rparr>)"
    using assms len low [OF a] by (simp add: io_in_def handle_read_def slice_range_def Let_def)
next
  assume "a AND 0x1ff800 \<noteq> 0" and "length addr = 4"
  then show "io_in env oc c PCI_CONFIG_DATA_PORT addr rest = Inr (c\<lparr>cpu_io_page := [0xFF, 0xFF, 0xFF, 0xFF] @ rest\<rparr>)"
    using assms by (simp add: io_in_def write_ptr_u32_def Let_def to_le_def upt_rec)
next
  assume "a AND 0x1ff800 = 0" and "64 < unat (a AND 0x3ff) + length addr"
  then show "io_in env oc c PCI_CONFIG_DATA_PORT addr rest = Inl IndexOutOfBounds"
    using assms by (auto simp: io_in_def handle_read_def slice_range_def Let_def)
qed

theorem pci_config_read_witness:
  "io_in sample_env True (sample_cpu\<lparr>cpu_pci_addr := Some 0x100\<rparr>) PCI_CONFIG_DATA_PORT [0, 0, 0, 0] [] = Inl IndexOutOfBounds"
  using pci_config_read [of "sample_cpu\<lparr>cpu_pci_addr := Some 0x100\<rparr>" "0x100" "[0, 0, 0, 0]" sample_env True "[]"]
  by (simp add: sample_cpu_def sample_device_def)

end
