(* ===== verification/Network.thy ===== *)
theory Network
  imports Transitions Consts
begin

text \<open>
  The shared-memory network of a guest (\<^verbatim>\<open>src/shared_queue.rs\<close> and \<^verbatim>\<open>UhyveNetwork\<close> in
  \<^verbatim>\<open>src/linux/uhyve.rs\<close>): two rings of eight packets in guest memory, one filled by a reader thread
  from the TAP device and emptied by the guest, one filled by the guest and emptied by a writer thread
  that the guest wakes over a channel. The threads take one volatile access at a time; their steps
  interleave with those of the guest.
\<close>

subsection \<open>The ring\<close>

definition MAX_PACKET :: nat where
  "MAX_PACKET = unat UHYVE_NET_MTU + 34"

record QueueInner =
  q_len :: u16
  q_data :: "u8 list"

record SharedQueue =
  sq_read :: usize
  sq_written :: usize
  sq_inner :: "QueueInner list"

definition SharedQueue_init :: "SharedQueue \<Rightarrow> SharedQueue" where
  "SharedQueue_init q = q\<lparr>sq_read := 0, sq_written := 0, sq_inner := map (\<lambda>i. i\<lparr>q_len := 0\<rparr>) (sq_inner q)\<rparr>"

text \<open>
  Sizes and places: the two counters have a cache line each; the receive ring is at
  \<^verbatim>\<open>SHAREDQUEUE_START\<close>, the transmit ring behind it.
\<close>

definition sizeof_QueueInner :: usize where [layout]: "sizeof_QueueInner = 2 + (UHYVE_NET_MTU + 34)"
definition sizeof_SharedQueue :: usize where [layout]: "sizeof_SharedQueue = 64 + 64 + UHYVE_QUEUE_SIZE * sizeof_QueueInner"

definition rx_queue_addr :: "usize \<Rightarrow> usize" where
  "rx_queue_addr start = start"

definition tx_queue_addr :: "bool \<Rightarrow> usize \<Rightarrow> usize res" where
  "tx_queue_addr oc start = and_then (align_up oc sizeof_SharedQueue 64) (\<lambda>n. add_oc oc start n)"

text \<open>What the ring holds: the packets between the two counters.\<close>

definition packet :: "QueueInner \<Rightarrow> u8 list" where
  "packet e = take (unat (q_len e)) (q_data e)"

definition slot :: "SharedQueue \<Rightarrow> usize \<Rightarrow> QueueInner" where
  "slot q i = sq_inner q ! (unat i mod 8)"

definition items :: "SharedQueue \<Rightarrow> u8 list list" where
  "items q = map (\<lambda>i. packet (slot q (sq_read q + of_nat i))) [0..<unat (sq_written q - sq_read q)]"

definition room :: "SharedQueue \<Rightarrow> bool" where
  "room q \<longleftrightarrow> unat (sq_written q - sq_read q) < 8"

definition queue_wf :: "SharedQueue \<Rightarrow> bool" where
  "queue_wf q \<longleftrightarrow> length (sq_inner q) = 8 \<and> (\<forall>e \<in> set (sq_inner q). length (q_data e) = MAX_PACKET) \<and>
     unat (sq_written q - sq_read q) \<le> 8"

definition fill :: "SharedQueue \<Rightarrow> QueueInner \<Rightarrow> SharedQueue" where
  "fill q e = q\<lparr>sq_inner := (sq_inner q)[unat (sq_written q) mod 8 := e]\<rparr>"

definition publish :: "SharedQueue \<Rightarrow> SharedQueue" where
  "publish q = q\<lparr>sq_written := sq_written q + 1\<rparr>"

definition consume :: "SharedQueue \<Rightarrow> SharedQueue" where
  "consume q = q\<lparr>sq_read := sq_read q + 1\<rparr>"

subsection \<open>The contract of a ring\<close>

text \<open>
  One producer and one consumer: filling the free slot is invisible, publishing appends what the
  slot holds, consuming drops the first item and leaves the free slot alone.
\<close>

locale ring_buffer =
  fixes wf :: "'q \<Rightarrow> bool" and entries :: "'q \<Rightarrow> 'a list" and has_room :: "'q \<Rightarrow> bool"
    and put :: "'q \<Rightarrow> 'e \<Rightarrow> 'q" and free_slot :: "'q \<Rightarrow> 'e" and pub :: "'q \<Rightarrow> 'q" and drop_first :: "'q \<Rightarrow> 'q"
    and val :: "'e \<Rightarrow> 'a" and ok :: "'e \<Rightarrow> bool"
  assumes put_wf: "wf q \<Longrightarrow> ok e \<Longrightarrow> wf (put q e)"
    and put_entries: "wf q \<Longrightarrow> has_room q \<Longrightarrow> entries (put q e) = entries q"
    and put_room: "has_room (put q e) = has_room q"
    and put_slot: "wf q \<Longrightarrow> free_slot (put q e) = e"
    and pub_wf: "wf q \<Longrightarrow> has_room q \<Longrightarrow> wf (pub q)"
    and pub_entries: "wf q \<Longrightarrow> has_room q \<Longrightarrow> entries (pub q) = entries q @ [val (free_slot q)]"
    and drop_wf: "wf q \<Longrightarrow> entries q \<noteq> [] \<Longrightarrow> wf (drop_first q)"
    and drop_entries: "wf q \<Longrightarrow> entries q \<noteq> [] \<Longrightarrow> entries (drop_first q) = tl (entries q)"
    and drop_room: "wf q \<Longrightarrow> entries q \<noteq> [] \<Longrightarrow> has_room (drop_first q)"
    and drop_slot: "free_slot (drop_first q) = free_slot q"
begin

text \<open>What went in is what came out and what is still there, in order.\<close>

lemma log_pub:
  assumes "produced = consumed @ entries q @ [val (free_slot q)]" and "wf q" and "has_room q"
  shows "produced = consumed @ entries (pub q)"
  using assms by (simp add: pub_entries)

lemma log_drop:
  assumes "produced = consumed @ entries q @ inflight" and "wf q" and "entries q \<noteq> []"
  shows "produced = (consumed @ [hd (entries q)]) @ entries (drop_first q) @ inflight"
  using assms by (simp add: drop_entries)

lemma put_pub:
  assumes "wf q" and "has_room q" and "ok e"
  shows "entries (pub (put q e)) = entries q @ [val e]" and "wf (pub (put q e))"
  using assms by (simp_all add: pub_entries put_wf put_room put_slot put_entries pub_wf)

end

lemma unat_add_mod8: "unat (a + of_nat i :: usize) mod 8 = (unat a + i) mod 8"
proof -
  have "unat (a + of_nat i) = (unat a + i) mod 2 ^ 64"
    by (simp add: unat_word_ariths unat_of_nat take_bit_nat_def mod_add_right_eq)
  then show ?thesis by (simp add: mod_mod_cancel)
qed

lemma unat_distance: "i \<le> unat (b - a :: usize) \<Longrightarrow> unat (b - (a + of_nat i)) = unat (b - a) - i"
proof -
  assume i: "i \<le> unat (b - a)"
  then have u: "unat (of_nat i :: usize) = i"
    using unsigned_less [of "b - a", where 'a = nat] by (intro unat_of_nat_less) simp
  with i have "of_nat i \<le> b - a" by (simp add: word_le_nat_alt)
  from unat_sub [OF this] show ?thesis by (simp add: u diff_diff_eq)
qed

lemma items_fill:
  assumes "queue_wf q" and "room q"
  shows "items (fill q e) = items q"
proof -
  have "slot (fill q e) (sq_read q + of_nat i) = slot q (sq_read q + of_nat i)" if "i < unat (sq_written q - sq_read q)" for i
  proof -
    let ?n = "unat (sq_written q - sq_read q)"
    have w: "sq_written q = sq_read q + of_nat ?n" by simp
    have "(unat (sq_read q) + ?n) mod 8 \<noteq> (unat (sq_read q) + i) mod 8"
      using that assms(2) nat_dvd_not_less [of "?n - i" 8] by (auto simp: room_def mod_eq_dvd_iff_nat)
    then have "unat (sq_written q) mod 8 \<noteq> unat (sq_read q + of_nat i) mod 8"
      using unat_add_mod8 [of "sq_read q" ?n] unat_add_mod8 [of "sq_read q" i] w by metis
    then show ?thesis by (simp add: slot_def fill_def)
  qed
  then show ?thesis by (auto simp: items_def fill_def)
qed

interpretation sq: ring_buffer queue_wf items room fill "\<lambda>q. slot q (sq_written q)" publish consume packet
  "\<lambda>e. length (q_data e) = MAX_PACKET"
proof unfold_locales
  fix q :: SharedQueue and e :: QueueInner
  let ?n = "unat (sq_written q - sq_read q)"
  have dist1: "sq_written q + 1 - sq_read q = (sq_written q - sq_read q) + 1" by simp
  have room1: "unat (sq_written q + 1 - sq_read q) = ?n + 1" if "room q"
    using that unfolding dist1 room_def by (simp add: unat_word_ariths)
  show "queue_wf (fill q e)" if "queue_wf q" "length (q_data e) = MAX_PACKET"
    using that by (auto simp: queue_wf_def fill_def dest!: set_update_subset_insert [THEN subsetD])
  show "items (fill q e) = items q" if "queue_wf q" "room q" using that by (rule items_fill)
  show "room (fill q e) = room q" by (simp add: room_def fill_def)
  show "slot (fill q e) (sq_written (fill q e)) = e" if "queue_wf q" using that by (simp add: slot_def fill_def queue_wf_def)
  show "queue_wf (publish q)" if "queue_wf q" "room q"
    using that room1 by (simp add: queue_wf_def publish_def room_def)
  show "items (publish q) = items q @ [packet (slot q (sq_written q))]" if "queue_wf q" "room q"
    using room1 [OF that(2)] by (simp add: items_def publish_def slot_def)
  have pos: "items q \<noteq> [] \<longleftrightarrow> 0 < ?n" by (simp add: items_def)
  have dec: "unat (sq_written q - (sq_read q + 1)) = ?n - 1" if "0 < ?n"
    using unat_distance [of 1 "sq_written q" "sq_read q"] that by simp
  show "queue_wf (consume q)" if "queue_wf q" "items q \<noteq> []"
    using that dec pos by (auto simp: queue_wf_def consume_def)
  show "room (consume q)" if "queue_wf q" "items q \<noteq> []"
    using that dec pos by (auto simp: queue_wf_def consume_def room_def)
  show "items (consume q) = tl (items q)" if "queue_wf q" "items q \<noteq> []"
  proof -
    have "[0..<?n] = 0 # map Suc [0..<?n - 1]" using that(2) pos by (simp add: upt_conv_Cons map_Suc_upt)
    then show ?thesis using that(2) pos dec
      by (simp add: items_def consume_def slot_def add.assoc)
  qed
  show "slot (consume q) (sq_written (consume q)) = slot q (sq_written q)" by (simp add: consume_def slot_def)
qed

subsection \<open>The reader thread\<close>

text \<open>
  Where the reader thread is in its loop, with its local variables; the logs record what the TAP
  device delivered and what the guest took out of the ring.
\<close>

datatype rx_pc =
    RxTop
  | RxHaveWritten usize
  | RxReceive usize
  | RxLen usize u16
  | RxPublish usize
  | RxNotify
  | RxPanicked

record rx_state =
  rx_q :: SharedQueue
  rx_at :: rx_pc
  rx_in :: "u8 list list"
  rx_out :: "u8 list list"
  rx_events :: nat

definition set_slot :: "SharedQueue \<Rightarrow> usize \<Rightarrow> QueueInner \<Rightarrow> SharedQueue" where
  "set_slot q i e = q\<lparr>sq_inner := (sq_inner q)[unat (i mod UHYVE_QUEUE_SIZE) := e]\<rparr>"

text \<open>
  One access of the thread. \<open>tap\<close> is the answer of the device where it is asked: a packet, cut to
  the buffer, or an error.
\<close>

definition rx_thread :: "bool \<Rightarrow> u8 list option \<Rightarrow> rx_state \<Rightarrow> rx_state" where
  "rx_thread oc tap s =
     (let q = rx_q s in
      case rx_at s of
        RxTop \<Rightarrow> s\<lparr>rx_at := RxHaveWritten (sq_written q)\<rparr>
      | RxHaveWritten written \<Rightarrow>
          (case sub_oc oc written (sq_read q) of
             Inl f \<Rightarrow> s\<lparr>rx_at := RxPanicked\<rparr>
           | Inr distance \<Rightarrow> if distance < UHYVE_QUEUE_SIZE then s\<lparr>rx_at := RxReceive written\<rparr> else s\<lparr>rx_at := RxTop\<rparr>)
      | RxReceive written \<Rightarrow>
          (case tap of
             None \<Rightarrow> s\<lparr>rx_at := RxPanicked\<rparr>
           | Some p \<Rightarrow>
               let p = take MAX_PACKET p; e = slot q written in
               s\<lparr>rx_q := set_slot q written (e\<lparr>q_data := p @ drop (length p) (q_data e)\<rparr>), rx_in := rx_in s @ [p],
                 rx_at := RxLen written (of_nat (length p))\<rparr>)
      | RxLen written n \<Rightarrow>
          s\<lparr>rx_q := set_slot q written ((slot q written)\<lparr>q_len := n\<rparr>), rx_at := RxPublish written\<rparr>
      | RxPublish written \<Rightarrow>
          (case add_oc oc written 1 of
             Inl f \<Rightarrow> s\<lparr>rx_at := RxPanicked\<rparr>
           | Inr w \<Rightarrow> s\<lparr>rx_q := q\<lparr>sq_written := w\<rparr>, rx_at := RxNotify\<rparr>)
      | RxNotify \<Rightarrow> s\<lparr>rx_events := rx_events s + 1, rx_at := RxTop\<rparr>
      | RxPanicked \<Rightarrow> s)"

text \<open>The guest takes a packet out when there is one.\<close>

inductive rx_step :: "bool \<Rightarrow> rx_state \<Rightarrow> rx_state \<Rightarrow> bool" for oc where
  thread: "rx_step oc s (rx_thread oc tap s)"
| guest: "items (rx_q s) \<noteq> [] \<Longrightarrow> rx_step oc s (s\<lparr>rx_q := consume (rx_q s), rx_out := rx_out s @ [hd (items (rx_q s))]\<rparr>)"

inductive_cases rx_stepE: "rx_step oc s s'"

definition fresh_queue :: "SharedQueue \<Rightarrow> bool" where
  "fresh_queue q \<longleftrightarrow> length (sq_inner q) = 8 \<and> (\<forall>e \<in> set (sq_inner q). length (q_data e) = MAX_PACKET)"

definition rx_start :: "rx_state \<Rightarrow> bool" where
  "rx_start s \<longleftrightarrow> (\<exists>q. fresh_queue q \<and> s = \<lparr>rx_q = SharedQueue_init q, rx_at = RxTop, rx_in = [], rx_out = [], rx_events = 0\<rparr>)"

text \<open>The packet the thread has received but not yet published.\<close>

definition rx_inflight :: "rx_state \<Rightarrow> u8 list list" where
  "rx_inflight s =
     (case rx_at s of
        RxLen written n \<Rightarrow> [take (unat n) (q_data (slot (rx_q s) written))]
      | RxPublish written \<Rightarrow> [packet (slot (rx_q s) written)]
      | _ \<Rightarrow> [])"

fun rx_local :: "rx_pc \<Rightarrow> usize option" where
  "rx_local (RxHaveWritten w) = Some w"
| "rx_local (RxReceive w) = Some w"
| "rx_local (RxLen w n) = Some w"
| "rx_local (RxPublish w) = Some w"
| "rx_local _ = None"

fun rx_filling :: "rx_pc \<Rightarrow> bool" where
  "rx_filling (RxReceive w) = True"
| "rx_filling (RxLen w n) = True"
| "rx_filling (RxPublish w) = True"
| "rx_filling _ = False"

definition rx_inv :: "rx_state \<Rightarrow> bool" where
  "rx_inv s \<longleftrightarrow> queue_wf (rx_q s) \<and> (\<forall>w. rx_local (rx_at s) = Some w \<longrightarrow> w = sq_written (rx_q s)) \<and>
     (rx_filling (rx_at s) \<longrightarrow> room (rx_q s)) \<and>
     (rx_at s \<noteq> RxPanicked \<longrightarrow> rx_in s = rx_out s @ items (rx_q s) @ rx_inflight s) \<and>
     (\<exists>fl. rx_in s = rx_out s @ items (rx_q s) @ fl \<and> length fl \<le> 1)"

lemma queue_size_mod: "unat (w mod UHYVE_QUEUE_SIZE) = unat w mod 8"
  by (simp add: UHYVE_QUEUE_SIZE_def unat_mod)

lemma set_slot_fill: "set_slot q (sq_written q) e = fill q e"
  by (simp add: set_slot_def fill_def queue_size_mod)

lemma slot_wf: "queue_wf q \<Longrightarrow> length (q_data (slot q i)) = MAX_PACKET"
  by (simp add: queue_wf_def slot_def)

lemma init_queue_wf: "fresh_queue q \<Longrightarrow> queue_wf (SharedQueue_init q)" "items (SharedQueue_init q) = []"
  by (auto simp: queue_wf_def SharedQueue_init_def fresh_queue_def items_def)

lemma rx_thread_inv:
  assumes inv: "rx_inv s"
  shows "rx_inv (rx_thread oc tap s)"
proof -
  let ?q = "rx_q s"
  have wf: "queue_wf ?q" using inv by (simp add: rx_inv_def)
  show ?thesis
  proof (cases "rx_at s")
    case (RxHaveWritten w)
    then have w: "w = sq_written ?q" "rx_in s = rx_out s @ items ?q" using inv by (auto simp: rx_inv_def rx_inflight_def)
    have "room ?q" if "w - sq_read ?q < UHYVE_QUEUE_SIZE"
      using that w(1) by (simp add: room_def word_less_nat_alt UHYVE_QUEUE_SIZE_def)
    then show ?thesis
      using RxHaveWritten w wf
      by (auto simp: rx_thread_def rx_inv_def rx_inflight_def sub_oc_def Let_def)
  next
    case (RxReceive w)
    then have w: "w = sq_written ?q" "room ?q" "rx_in s = rx_out s @ items ?q" using inv by (auto simp: rx_inv_def rx_inflight_def)
    show ?thesis
    proof (cases tap)
      case None
      then show ?thesis using RxReceive inv by (auto simp: rx_thread_def rx_inv_def)
    next
      case (Some p)
      define pk where "pk = take MAX_PACKET p"
      let ?e = "slot ?q w"
      let ?e' = "?e\<lparr>q_data := pk @ drop (length pk) (q_data ?e)\<rparr>"
      have pk: "length pk \<le> MAX_PACKET" by (simp add: pk_def)
      have len: "length (q_data ?e') = MAX_PACKET" using slot_wf [OF wf, of w] pk by simp
      have small: "unat (of_nat (length pk) :: u16) = length pk"
        by (rule unat_of_nat_less) (use pk in \<open>simp add: MAX_PACKET_def UHYVE_NET_MTU_def\<close>)
      define q' where "q' = fill ?q ?e'"
      have q': "queue_wf q'" "items q' = items ?q" "room q'" "sq_written q' = w" "slot q' w = ?e'"
        using sq.put_wf [OF wf len] sq.put_entries [OF wf w(2), of ?e'] sq.put_room [of ?q ?e'] sq.put_slot [OF wf, of ?e'] w(1,2)
        by (simp_all add: q'_def) (simp_all add: fill_def)
      have "rx_thread oc tap s = s\<lparr>rx_q := q', rx_in := rx_in s @ [pk], rx_at := RxLen w (of_nat (length pk))\<rparr>"
        using RxReceive Some w(1) by (simp add: rx_thread_def Let_def q'_def flip: set_slot_fill pk_def)
      then show ?thesis using q' w small by (simp add: rx_inv_def rx_inflight_def)
    qed
  next
    case (RxLen w n)
    then have w: "w = sq_written ?q" "room ?q" "rx_in s = rx_out s @ items ?q @ [take (unat n) (q_data (slot ?q w))]"
      using inv by (auto simp: rx_inv_def rx_inflight_def)
    let ?e' = "(slot ?q w)\<lparr>q_len := n\<rparr>"
    have len: "length (q_data ?e') = MAX_PACKET" using slot_wf [OF wf, of w] by simp
    define q' where "q' = fill ?q ?e'"
    have q': "queue_wf q'" "items q' = items ?q" "room q'" "sq_written q' = w" "slot q' w = ?e'"
      using sq.put_wf [OF wf len] sq.put_entries [OF wf w(2), of ?e'] sq.put_room [of ?q ?e'] sq.put_slot [OF wf, of ?e'] w(1,2)
      by (simp_all add: q'_def) (simp_all add: fill_def)
    have "rx_thread oc tap s = s\<lparr>rx_q := q', rx_at := RxPublish w\<rparr>"
      using RxLen w(1) by (simp add: rx_thread_def Let_def q'_def flip: set_slot_fill)
    then show ?thesis using q' w by (simp add: rx_inv_def rx_inflight_def packet_def)
  next
    case (RxPublish w)
    then have w: "w = sq_written ?q" "room ?q" "rx_in s = rx_out s @ items ?q @ [packet (slot ?q w)]"
      using inv by (auto simp: rx_inv_def rx_inflight_def)
    then show ?thesis
      using RxPublish sq.pub_wf [OF wf w(2)] sq.pub_entries [OF wf w(2)] wf
      by (auto simp: rx_thread_def Let_def rx_inv_def rx_inflight_def add_oc_def publish_def)
  qed (use inv in \<open>auto simp: rx_thread_def rx_inv_def rx_inflight_def Let_def\<close>)
qed

lemma rx_guest_inv:
  assumes "rx_inv s" and ne: "items (rx_q s) \<noteq> []"
  shows "rx_inv (s\<lparr>rx_q := consume (rx_q s), rx_out := rx_out s @ [hd (items (rx_q s))]\<rparr>)"
proof -
  have wf: "queue_wf (rx_q s)" using assms(1) by (simp add: rx_inv_def)
  have "rx_inflight (s\<lparr>rx_q := consume (rx_q s), rx_out := rx_out s @ [hd (items (rx_q s))]\<rparr>) = rx_inflight s"
    by (auto simp: rx_inflight_def slot_def consume_def split: rx_pc.splits)
  moreover obtain x xs where "items (rx_q s) = x # xs" using ne by (cases "items (rx_q s)") auto
  moreover obtain q' where "q' = consume (rx_q s)" by simp
  moreover from this have "sq_written q' = sq_written (rx_q s)" by (simp add: consume_def)
  ultimately show ?thesis
    using assms(1) sq.drop_wf [OF wf ne] sq.drop_room [OF wf ne] sq.drop_entries [OF wf ne]
    by (simp add: rx_inv_def)
qed

lemma rx_reach_inv: "reach rx_start (rx_step oc) s \<Longrightarrow> rx_inv s"
proof (induction rule: reach_invariant)
  case (start s)
  then show ?case by (auto simp: rx_start_def rx_inv_def rx_inflight_def init_queue_wf)
next
  case (step s s')
  from step(3,2) show ?case by (elim rx_stepE) (simp_all add: rx_thread_inv rx_guest_inv)
qed

subsection \<open>The writer thread\<close>

text \<open>
  The writer thread sleeps on the channel, which holds one message, takes one packet per message and
  confirms it by advancing the read counter. \<open>tx_ring\<close> says that the guest has published a packet
  and not yet written to the network port.
\<close>

datatype tx_pc =
    TxRecv
  | TxWoken
  | TxHaveWritten usize
  | TxSend usize
  | TxConfirm usize
  | TxPanicked

record tx_state =
  tx_q :: SharedQueue
  tx_at :: tx_pc
  tx_chan :: "usize list"
  tx_ring :: bool
  tx_in :: "u8 list list"
  tx_out :: "u8 list list"

text \<open>One access of the thread; \<open>accepted\<close> is the answer of the device where it is asked to send.\<close>

definition tx_thread :: "bool \<Rightarrow> bool \<Rightarrow> tx_state \<Rightarrow> tx_state" where
  "tx_thread oc accepted s =
     (let q = tx_q s in
      case tx_at s of
        TxRecv \<Rightarrow> (case tx_chan s of [] \<Rightarrow> s | v # vs \<Rightarrow> s\<lparr>tx_chan := vs, tx_at := TxWoken\<rparr>)
      | TxWoken \<Rightarrow> s\<lparr>tx_at := TxHaveWritten (sq_written q)\<rparr>
      | TxHaveWritten written \<Rightarrow>
          (case sub_oc oc written (sq_read q) of
             Inl f \<Rightarrow> s\<lparr>tx_at := TxPanicked\<rparr>
           | Inr distance \<Rightarrow> if distance > 0 then s\<lparr>tx_at := TxSend (sq_read q)\<rparr> else s\<lparr>tx_at := TxRecv\<rparr>)
      | TxSend read \<Rightarrow>
          (let e = slot q (read mod UHYVE_QUEUE_SIZE); len = unat (q_len e) in
           case slice_range 0 len (length (q_data e)) of
             Inl f \<Rightarrow> s\<lparr>tx_at := TxPanicked\<rparr>
           | Inr _ \<Rightarrow>
               if accepted then s\<lparr>tx_out := tx_out s @ [take len (q_data e)], tx_at := TxConfirm read\<rparr>
               else s\<lparr>tx_at := TxPanicked\<rparr>)
      | TxConfirm read \<Rightarrow>
          (case add_oc oc read 1 of
             Inl f \<Rightarrow> s\<lparr>tx_at := TxPanicked\<rparr>
           | Inr r \<Rightarrow> s\<lparr>tx_q := q\<lparr>sq_read := r\<rparr>, tx_at := TxRecv\<rparr>)
      | TxPanicked \<Rightarrow> s)"

definition packet_ok :: "QueueInner \<Rightarrow> bool" where
  "packet_ok e \<longleftrightarrow> length (q_data e) = MAX_PACKET \<and> unat (q_len e) \<le> MAX_PACKET"

text \<open>
  A guest that follows the protocol: it publishes a packet where there is room, then writes to the
  network port, which waits while the channel is full.
\<close>

inductive tx_step :: "bool \<Rightarrow> tx_state \<Rightarrow> tx_state \<Rightarrow> bool" for oc where
  thread: "tx_step oc s (tx_thread oc accepted s)"
| guest_publish: "room (tx_q s) \<Longrightarrow> \<not> tx_ring s \<Longrightarrow> packet_ok e \<Longrightarrow>
    tx_step oc s (s\<lparr>tx_q := publish (fill (tx_q s) e), tx_in := tx_in s @ [packet e], tx_ring := True\<rparr>)"
| guest_ring: "tx_ring s \<Longrightarrow> tx_chan s = [] \<Longrightarrow> tx_step oc s (s\<lparr>tx_chan := [1], tx_ring := False\<rparr>)"

inductive_cases tx_stepE: "tx_step oc s s'"

definition tx_start :: "tx_state \<Rightarrow> bool" where
  "tx_start s \<longleftrightarrow> (\<exists>q. fresh_queue q \<and>
     s = \<lparr>tx_q = SharedQueue_init q, tx_at = TxRecv, tx_chan = [], tx_ring = False, tx_in = [], tx_out = []\<rparr>)"

definition tx_busy :: "tx_state \<Rightarrow> nat" where
  "tx_busy s = (if tx_at s = TxRecv then 0 else 1)"

fun tx_local_ok :: "tx_pc \<Rightarrow> SharedQueue \<Rightarrow> bool" where
  "tx_local_ok (TxSend r) q = (r = sq_read q)"
| "tx_local_ok (TxConfirm r) q = (r = sq_read q)"
| "tx_local_ok _ q = True"

fun tx_seen_ok :: "tx_pc \<Rightarrow> SharedQueue \<Rightarrow> bool" where
  "tx_seen_ok (TxHaveWritten w) q = (w \<noteq> sq_read q)"
| "tx_seen_ok _ q = True"

definition tx_sent :: "tx_state \<Rightarrow> u8 list list" where
  "tx_sent s = (case tx_at s of TxConfirm r \<Rightarrow> [hd (items (tx_q s))] | _ \<Rightarrow> [])"

definition tx_inv :: "tx_state \<Rightarrow> bool" where
  "tx_inv s \<longleftrightarrow> queue_wf (tx_q s) \<and> (\<forall>e \<in> set (sq_inner (tx_q s)). packet_ok e) \<and> length (tx_chan s) \<le> 1 \<and>
     (\<exists>conf. tx_in s = conf @ items (tx_q s) \<and> (tx_at s \<noteq> TxPanicked \<longrightarrow> tx_out s = conf @ tx_sent s) \<and>
        (tx_at s = TxPanicked \<longrightarrow> tx_out s = conf \<or> items (tx_q s) \<noteq> [] \<and> tx_out s = conf @ [hd (items (tx_q s))])) \<and>
     (tx_at s \<noteq> TxPanicked \<longrightarrow> tx_local_ok (tx_at s) (tx_q s) \<and> tx_seen_ok (tx_at s) (tx_q s) \<and>
        length (items (tx_q s)) = length (tx_chan s) + tx_busy s + (if tx_ring s then 1 else 0))"

lemma hd_items: "items q \<noteq> [] \<Longrightarrow> hd (items q) = packet (slot q (sq_read q))"
  by (simp add: items_def hd_map hd_upt)

lemma items_empty_iff: "items q = [] \<longleftrightarrow> sq_written q = sq_read q"
  by (auto simp: items_def unat_eq_zero)

lemma slot_mod: "slot q (r mod UHYVE_QUEUE_SIZE) = slot q r"
  by (simp add: slot_def queue_size_mod)

lemma slot_in: "queue_wf q \<Longrightarrow> slot q i \<in> set (sq_inner q)"
  by (simp add: queue_wf_def slot_def)

lemma tx_thread_inv:
  assumes inv: "tx_inv s"
  shows "tx_inv (tx_thread oc accepted s)"
proof -
  let ?q = "tx_q s"
  have wf: "queue_wf ?q" and ok: "\<forall>e \<in> set (sq_inner ?q). packet_ok e" using inv by (auto simp: tx_inv_def)
  show ?thesis
  proof (cases "tx_at s")
    case TxRecv
    then show ?thesis
      using inv by (cases "tx_chan s") (auto simp: tx_thread_def tx_inv_def tx_busy_def tx_sent_def)
  next
    case TxWoken
    then have "items ?q \<noteq> []" using inv by (auto simp: tx_inv_def tx_busy_def)
    then show ?thesis
      using TxWoken inv by (auto simp: tx_thread_def tx_inv_def tx_busy_def tx_sent_def items_empty_iff)
  next
    case (TxHaveWritten w)
    then have "w \<noteq> sq_read ?q" using inv by (auto simp: tx_inv_def)
    then have "0 < w - sq_read ?q" by (simp add: word_neq_0_conv [symmetric])
    then have "tx_thread oc accepted s \<in> {s\<lparr>tx_at := TxPanicked\<rparr>, s\<lparr>tx_at := TxSend (sq_read ?q)\<rparr>}"
      using TxHaveWritten by (auto simp: tx_thread_def sub_oc_def Let_def)
    then show ?thesis
      using inv TxHaveWritten by (auto simp: tx_inv_def tx_busy_def tx_sent_def)
  next
    case (TxSend r)
    then have r: "r = sq_read ?q" "items ?q \<noteq> []" using inv by (auto simp: tx_inv_def tx_busy_def)
    have "packet_ok (slot ?q r)" using ok slot_in [OF wf] by blast
    then have "slice_range 0 (unat (q_len (slot ?q r))) (length (q_data (slot ?q r))) = Inr ()"
      by (simp add: slice_range_def packet_ok_def)
    then show ?thesis
      using TxSend inv r hd_items [OF r(2)]
      by (auto simp: tx_thread_def tx_inv_def tx_busy_def tx_sent_def Let_def slot_mod packet_def)
  next
    case (TxConfirm r)
    then have r: "r = sq_read ?q" "items ?q \<noteq> []" using inv by (auto simp: tx_inv_def tx_busy_def)
    obtain x xs where xs: "items ?q = x # xs" using r(2) by (cases "items ?q") auto
    have c: "queue_wf (consume ?q)" "items (consume ?q) = xs" using sq.drop_wf [OF wf r(2)] sq.drop_entries [OF wf r(2)] xs by auto
    then show ?thesis
      using TxConfirm inv r xs
      by (auto simp: tx_thread_def tx_inv_def tx_busy_def tx_sent_def Let_def add_oc_def consume_def)
  qed (use inv in \<open>auto simp: tx_thread_def\<close>)
qed

lemma tx_publish_inv:
  assumes inv: "tx_inv s" and r: "room (tx_q s)" and nr: "\<not> tx_ring s" and e: "packet_ok e"
  shows "tx_inv (s\<lparr>tx_q := publish (fill (tx_q s) e), tx_in := tx_in s @ [packet e], tx_ring := True\<rparr>)"
proof -
  have wf: "queue_wf (tx_q s)" using inv by (simp add: tx_inv_def)
  define q' where "q' = publish (fill (tx_q s) e)"
  have q': "queue_wf q'" "items q' = items (tx_q s) @ [packet e]" "sq_read q' = sq_read (tx_q s)"
    using sq.put_pub [OF wf r, of e] e by (simp_all add: q'_def packet_ok_def) (simp add: publish_def fill_def)
  have "\<forall>e \<in> set (sq_inner q'). packet_ok e"
    using inv e by (auto simp: tx_inv_def q'_def publish_def fill_def dest!: set_update_subset_insert [THEN subsetD])
  moreover have "tx_local_ok (tx_at s) q' = tx_local_ok (tx_at s) (tx_q s)" "tx_seen_ok (tx_at s) q' = tx_seen_ok (tx_at s) (tx_q s)"
    by (cases "tx_at s"; simp add: q'(3))+
  moreover have "tx_at s = TxConfirm r \<Longrightarrow> items (tx_q s) \<noteq> []" for r
    using inv by (auto simp: tx_inv_def tx_busy_def)
  ultimately show ?thesis
    using inv nr q'(1,2) unfolding q'_def [symmetric]
    by (auto simp: tx_inv_def tx_busy_def tx_sent_def split: tx_pc.splits)
qed

lemma tx_ring_inv:
  assumes "tx_inv s" and "tx_ring s" and "tx_chan s = []"
  shows "tx_inv (s\<lparr>tx_chan := [1], tx_ring := False\<rparr>)"
proof -
  have "tx_sent (s\<lparr>tx_chan := [1], tx_ring := False\<rparr>) = tx_sent s" "tx_busy (s\<lparr>tx_chan := [1], tx_ring := False\<rparr>) = tx_busy s"
    by (cases "tx_at s"; simp add: tx_sent_def tx_busy_def)+
  then show ?thesis using assms by (simp add: tx_inv_def)
qed

lemma init_packets_ok: "fresh_queue q \<Longrightarrow> e \<in> set (sq_inner (SharedQueue_init q)) \<Longrightarrow> packet_ok e"
  by (auto simp: SharedQueue_init_def fresh_queue_def packet_ok_def)

lemma tx_reach_inv: "reach tx_start (tx_step oc) s \<Longrightarrow> tx_inv s"
proof (induction rule: reach_invariant)
  case (start s)
  then show ?case
    by (auto simp: tx_start_def tx_inv_def tx_sent_def tx_busy_def init_queue_wf init_packets_ok)
next
  case (step s s')
  from step(3,2) show ?case
    by (elim tx_stepE) (simp_all add: tx_thread_inv tx_publish_inv tx_ring_inv)
qed

subsection \<open>Properties\<close>


definition sample_shared_queue :: SharedQueue where
  "sample_shared_queue = \<lparr>sq_read = 5, sq_written = 7, sq_inner = replicate 8 \<lparr>q_len = 3, q_data = replicate MAX_PACKET 0\<rparr>\<rparr>"

lemma sample_fresh: "fresh_queue sample_shared_queue"
  by (simp add: fresh_queue_def sample_shared_queue_def)


text \<open>
  C10. Sending, for a guest that publishes well-formed packets and rings once for each: what the
  device got is a prefix of what the guest published, at most eight packets behind; and when the
  writer thread sleeps on an empty channel and the guest has rung for everything, every packet has
  been sent. No wake-up is lost.
\<close>

theorem tx_fifo_complete:
  assumes "reach tx_start (tx_step oc) s" and "tx_at s \<noteq> TxPanicked"
  shows "(\<exists>rest. tx_in s = tx_out s @ rest \<and> length rest \<le> 8) \<and>
    (tx_at s = TxRecv \<and> tx_chan s = [] \<and> \<not> tx_ring s \<longrightarrow> tx_out s = tx_in s)"
proof -
  have inv: "tx_inv s" by (rule tx_reach_inv [OF assms(1)])
  then obtain conf where conf: "tx_in s = conf @ items (tx_q s)" "tx_out s = conf @ tx_sent s"
    using assms(2) by (auto simp: tx_inv_def)
  have len: "length (items (tx_q s)) \<le> 8" using inv by (simp add: tx_inv_def queue_wf_def items_def)
  have busy: "tx_at s = TxConfirm r \<Longrightarrow> items (tx_q s) \<noteq> []" for r using inv by (auto simp: tx_inv_def tx_busy_def)
  have "\<exists>rest. tx_in s = tx_out s @ rest \<and> length rest \<le> 8"
  proof (cases "tx_sent s = []")
    case True
    then show ?thesis using conf len by simp
  next
    case False
    then have "tx_sent s = [hd (items (tx_q s))]" "items (tx_q s) \<noteq> []"
      using busy by (auto simp: tx_sent_def split: tx_pc.splits)
    then show ?thesis using conf len by (intro exI [of _ "tl (items (tx_q s))"]) simp
  qed
  moreover have "tx_out s = tx_in s" if "tx_at s = TxRecv" "tx_chan s = []" "\<not> tx_ring s"
    using that conf inv by (auto simp: tx_inv_def tx_busy_def tx_sent_def)
  ultimately show ?thesis by blast
qed

definition sample_published :: tx_state where
  "sample_published = \<lparr>tx_q = publish (fill (SharedQueue_init sample_shared_queue) \<lparr>q_len = 1, q_data = replicate MAX_PACKET 0\<rparr>),
     tx_at = TxRecv, tx_chan = [], tx_ring = True, tx_in = [[0]], tx_out = []\<rparr>"

lemma sample_published_reach: "reach tx_start (tx_step oc) sample_published"
proof -
  let ?s = "\<lparr>tx_q = SharedQueue_init sample_shared_queue, tx_at = TxRecv, tx_chan = [], tx_ring = False, tx_in = [], tx_out = []\<rparr>"
  let ?e = "\<lparr>q_len = 1, q_data = replicate MAX_PACKET 0\<rparr>"
  have 0: "reach tx_start (tx_step oc) ?s" using sample_fresh by (intro reach.start) (auto simp: tx_start_def)
  have e: "room (tx_q ?s)" "packet_ok ?e" "packet ?e = [0]"
    by (simp_all add: room_def SharedQueue_init_def packet_ok_def packet_def MAX_PACKET_def UHYVE_NET_MTU_def)
  have "tx_step oc ?s (?s\<lparr>tx_q := publish (fill (tx_q ?s) ?e), tx_in := tx_in ?s @ [packet ?e], tx_ring := True\<rparr>)"
    by (rule tx_step.guest_publish) (use e in simp_all)
  then show ?thesis using reach.next_step [OF 0] e(3) by (simp add: sample_published_def)
qed

theorem tx_fifo_complete_witness:
  "\<exists>s. reach tx_start (tx_step True) s \<and> tx_in s = [[0]] \<and> (\<exists>rest. tx_in s = tx_out s @ rest \<and> length rest \<le> 8)"
  using tx_fifo_complete [OF sample_published_reach [of True]] sample_published_reach [of True]
  by (intro exI [of _ sample_published]) (simp add: sample_published_def)

text \<open>
  Every message on the channel gets one packet out: in a build without overflow checks, from any
  reachable state in which the writer thread waits and a message is there, five accesses of the thread
  send the oldest packet, confirm it and bring the thread back to waiting.
\<close>

theorem tx_message_sends:
  assumes "reach tx_start (tx_step False) s" and "tx_at s = TxRecv" and "tx_chan s = [v]"
  shows "\<exists>s'. (tx_thread False True ^^ 5) s = s' \<and> tx_at s' = TxRecv \<and> tx_chan s' = [] \<and>
    tx_out s' = tx_out s @ [hd (items (tx_q s))] \<and> items (tx_q s') = tl (items (tx_q s))"
proof -
  let ?q = "tx_q s" and ?T = "tx_thread False True"
  have inv: "tx_inv s" by (rule tx_reach_inv [OF assms(1)])
  then have wf: "queue_wf ?q" and ne: "items ?q \<noteq> []" using assms(2,3) by (auto simp: tx_inv_def)
  then have "sq_written ?q \<noteq> sq_read ?q" by (simp add: items_empty_iff)
  then have pos: "0 < sq_written ?q - sq_read ?q" by (simp add: word_neq_0_conv [symmetric])
  have "packet_ok (slot ?q (sq_read ?q))" using inv slot_in [OF wf] by (auto simp: tx_inv_def)
  then have sl: "slice_range 0 (unat (q_len (slot ?q (sq_read ?q)))) (length (q_data (slot ?q (sq_read ?q)))) = Inr ()"
    by (simp add: slice_range_def packet_ok_def)
  have 1: "?T s = s\<lparr>tx_chan := [], tx_at := TxWoken\<rparr>" using assms by (simp add: tx_thread_def)
  have 2: "?T (s\<lparr>tx_chan := [], tx_at := TxWoken\<rparr>) = s\<lparr>tx_chan := [], tx_at := TxHaveWritten (sq_written ?q)\<rparr>"
    by (simp add: tx_thread_def)
  have 3: "?T (s\<lparr>tx_chan := [], tx_at := TxHaveWritten (sq_written ?q)\<rparr>) = s\<lparr>tx_chan := [], tx_at := TxSend (sq_read ?q)\<rparr>"
    using pos by (simp add: tx_thread_def)
  have 4: "?T (s\<lparr>tx_chan := [], tx_at := TxSend (sq_read ?q)\<rparr>) =
      s\<lparr>tx_chan := [], tx_at := TxConfirm (sq_read ?q), tx_out := tx_out s @ [hd (items ?q)]\<rparr>"
    using sl by (simp add: tx_thread_def Let_def slot_mod hd_items [OF ne] packet_def)
  have 5: "?T (s\<lparr>tx_chan := [], tx_at := TxConfirm (sq_read ?q), tx_out := tx_out s @ [hd (items ?q)]\<rparr>) =
      s\<lparr>tx_chan := [], tx_at := TxRecv, tx_out := tx_out s @ [hd (items ?q)], tx_q := consume ?q\<rparr>"
    by (simp add: tx_thread_def consume_def)
  have "(?T ^^ 5) s = s\<lparr>tx_chan := [], tx_at := TxRecv, tx_out := tx_out s @ [hd (items ?q)], tx_q := consume ?q\<rparr>"
    by (simp only: eval_nat_numeral BitM.simps funpow.simps id_apply o_apply 1 2 3 4 5)
  then show ?thesis using sq.drop_entries [OF wf ne] by simp
qed

theorem tx_message_sends_witness:
  "\<exists>s s'. reach tx_start (tx_step False) s \<and> tx_out s = [] \<and> (tx_thread False True ^^ 5) s = s' \<and> length (tx_out s') = 1"
proof -
  let ?s = "sample_published\<lparr>tx_chan := [1], tx_ring := False\<rparr>"
  have r: "reach tx_start (tx_step False) ?s"
    by (rule reach.next_step [OF sample_published_reach], rule tx_step.guest_ring) (simp_all add: sample_published_def)
  have "tx_at ?s = TxRecv" "tx_chan ?s = [1]" "tx_out ?s = []" by (simp_all add: sample_published_def)
  moreover from tx_message_sends [OF r this(1,2)] obtain s' where "(tx_thread False True ^^ 5) ?s = s'"
    "tx_out s' = tx_out ?s @ [hd (items (tx_q ?s))]" by blast
  ultimately show ?thesis using r by (metis append_Nil length_Cons list.size(3) One_nat_def)
qed

text \<open>
  A guest that publishes a length beyond the packet buffer stops the writer thread: the slice of
  the data is taken with the guest's length.
\<close>

theorem tx_oversized_packet_panics:
  assumes "tx_at s = TxSend r" and "length (q_data (slot (tx_q s) r)) = MAX_PACKET" and "MAX_PACKET < unat (q_len (slot (tx_q s) r))"
  shows "tx_at (tx_thread oc accepted s) = TxPanicked"
  using assms by (simp add: tx_thread_def Let_def slot_mod slice_range_def)

theorem tx_oversized_packet_panics_witness:
  "tx_at (tx_thread False True \<lparr>tx_q = sample_shared_queue\<lparr>sq_inner := replicate 8 \<lparr>q_len = 0xFFFF, q_data = replicate MAX_PACKET 0\<rparr>\<rparr>,
     tx_at = TxSend 5, tx_chan = [], tx_ring = False, tx_in = [], tx_out = []\<rparr>) = TxPanicked"
  by (rule tx_oversized_packet_panics) (simp_all add: slot_def MAX_PACKET_def UHYVE_NET_MTU_def)

end
