(* ===== verification/Uhyve_Linux.thy ===== *)
theory Uhyve_Linux
  imports Loader Vcpu_Linux Network
begin

text \<open>
  The virtual machine on Linux (\<^verbatim>\<open>src/linux/uhyve.rs\<close>): mapping guest memory and registering it with
  the kernel, enabling the capabilities of the machine, and creating processors. The kernel's
  interface, the mapping of memory and the parsing of addresses are arguments of the model.
\<close>

subsection \<open>Parameters\<close>

record Parameter =
  p_mem_size :: usize
  p_num_cpus :: u32
  p_verbose :: bool
  p_hugepage :: bool
  p_mergeable :: bool
  p_ip :: "string option"
  p_gateway :: "string option"
  p_mask :: "string option"
  p_nic :: "string option"
  p_gdbport :: "u16 option"

definition KVM_32BIT_MAX_MEM_SIZE :: usize where [uhyve_consts]: "KVM_32BIT_MAX_MEM_SIZE = push_bit 32 1"
definition KVM_32BIT_GAP_SIZE :: usize where [uhyve_consts]: "KVM_32BIT_GAP_SIZE = push_bit 20 768"
definition KVM_32BIT_GAP_START :: usize where
  [uhyve_consts]: "KVM_32BIT_GAP_START = KVM_32BIT_MAX_MEM_SIZE - KVM_32BIT_GAP_SIZE"

record kvm_userspace_memory_region =
  r_slot :: u32
  r_flags :: u32
  r_memory_size :: u64
  r_guest_phys_addr :: u64
  r_userspace_addr :: u64

record kvm_enable_cap =
  c_cap :: u32
  c_flags :: u32
  c_arg0 :: u64

text \<open>
  What the machine asks of the host. \<open>'k\<close> is a virtual machine of the kernel; \<open>mmap\<close> gives the address
  of a fresh zeroed mapping.
\<close>

record 'k kvm_host =
  create_vm :: "i32 + 'k"
  set_user_memory_region :: "'k \<Rightarrow> kvm_userspace_memory_region \<Rightarrow> i32 + 'k"
  create_irq_chip :: "'k \<Rightarrow> i32 + 'k"
  enable_cap :: "'k \<Rightarrow> kvm_enable_cap \<Rightarrow> i32 + 'k"
  register_irqfd :: "'k \<Rightarrow> u32 \<Rightarrow> i32 + 'k"
  eventfd_new :: "unit option"
  mmap :: "usize \<Rightarrow> usize option"
  madvise_mergeable :: "usize \<Rightarrow> usize \<Rightarrow> unit option"
  madvise_hugepage :: "usize \<Rightarrow> usize \<Rightarrow> unit option"
  ipv4_from_str :: "string \<Rightarrow> u8 list option"
  tap_without_packet_info :: "string \<Rightarrow> unit option"
  KVM_CAP_X2APIC_API :: u32
  KVM_CAP_TSC_DEADLINE_TIMER :: u32
  KVM_CAP_IRQFD :: u32
  KVM_CAP_X86_DISABLE_EXITS :: u32
  KVM_X2APIC_API_USE_32BIT_IDS :: u32
  KVM_X2APIC_API_DISABLE_BROADCAST_QUIRK :: u32
  KVM_X86_DISABLE_EXITS_PAUSE :: u32
  KVM_X86_DISABLE_EXITS_MWAIT :: u32
  KVM_X86_DISABLE_EXITS_HLT :: u32

subsection \<open>Guest memory\<close>

record MmapMemory =
  mm_flags :: u32
  mm_memory_size :: usize
  mm_guest_address :: usize
  mm_host_address :: usize

definition MmapMemory_new :: "'k kvm_host \<Rightarrow> u32 \<Rightarrow> usize \<Rightarrow> u64 \<Rightarrow> bool \<Rightarrow> bool \<Rightarrow> MmapMemory res" where
  "MmapMemory_new kh flags memory_size guest_address huge_pages mergeable =
     and_then (unwrap (mmap kh memory_size)) (\<lambda>host_address.
     and_then (if mergeable then unwrap (madvise_mergeable kh host_address memory_size) else Inr ()) (\<lambda>_.
     and_then (if huge_pages then unwrap (madvise_hugepage kh host_address memory_size) else Inr ()) (\<lambda>_.
     Inr \<lparr>mm_flags = flags, mm_memory_size = memory_size, mm_guest_address = guest_address,
       mm_host_address = host_address\<rparr>)))"

definition guest_mem :: "MmapMemory \<Rightarrow> hmem" where
  "guest_mem mem = \<lparr>mem_base = mm_host_address mem, mem_size = mm_memory_size mem, mem_bytes = (\<lambda>_. 0)\<rparr>"

definition low_region :: "usize \<Rightarrow> MmapMemory \<Rightarrow> kvm_userspace_memory_region" where
  "low_region msize mem =
     (let sz = if msize < KVM_32BIT_GAP_START then msize else KVM_32BIT_GAP_START in
      \<lparr>r_slot = 0, r_flags = mm_flags mem, r_memory_size = sz, r_guest_phys_addr = mm_guest_address mem,
       r_userspace_addr = mm_host_address mem\<rparr>)"

definition high_region :: "bool \<Rightarrow> usize \<Rightarrow> MmapMemory \<Rightarrow> kvm_userspace_memory_region res" where
  "high_region oc msize mem =
     and_then (sub_oc oc msize KVM_32BIT_GAP_START) (\<lambda>s.
     and_then (sub_oc oc s KVM_32BIT_GAP_SIZE) (\<lambda>s.
     and_then (add_oc oc (mm_guest_address mem) KVM_32BIT_GAP_START) (\<lambda>g.
     and_then (add_oc oc g KVM_32BIT_GAP_SIZE) (\<lambda>g.
     and_then (add_oc oc (mm_host_address mem) KVM_32BIT_GAP_START) (\<lambda>h.
     and_then (add_oc oc h KVM_32BIT_GAP_SIZE) (\<lambda>h.
     Inr \<lparr>r_slot = 1, r_flags = mm_flags mem, r_memory_size = s, r_guest_phys_addr = g, r_userspace_addr = h\<rparr>))))))"

definition register_memory :: "'k kvm_host \<Rightarrow> bool \<Rightarrow> 'k \<Rightarrow> usize \<Rightarrow> MmapMemory \<Rightarrow> i32 failure + 'k" where
  "register_memory kh oc vm msize mem =
     and_then (ioctl (set_user_memory_region kh vm (low_region msize mem))) (\<lambda>vm.
     and_then (panics (add_oc oc KVM_32BIT_GAP_START KVM_32BIT_GAP_SIZE)) (\<lambda>gap_end.
     if msize > gap_end then
       and_then (panics (high_region oc msize mem)) (\<lambda>r.
       ioctl (set_user_memory_region kh vm r))
     else Inr vm))"

subsection \<open>Capabilities\<close>

text \<open>\<^verbatim>\<open>expect\<close> wants the call to succeed, \<^verbatim>\<open>expect_err\<close> wants it to fail.\<close>

fun expect_ok :: "i32 + 'k \<Rightarrow> 'k res" where
  "expect_ok (Inl e) = Inl UnwrapFailed"
| "expect_ok (Inr vm) = Inr vm"

fun expect_err :: "'k \<Rightarrow> i32 + 'k \<Rightarrow> 'k res" where
  "expect_err vm (Inl e) = Inr vm"
| "expect_err vm (Inr vm') = Inl UnwrapFailed"

definition enable_caps :: "'k kvm_host \<Rightarrow> 'k \<Rightarrow> 'k res" where
  "enable_caps kh vm =
     and_then (expect_ok (enable_cap kh vm \<lparr>c_cap = KVM_CAP_X2APIC_API kh, c_flags = 0,
       c_arg0 = ucast (KVM_X2APIC_API_USE_32BIT_IDS kh OR KVM_X2APIC_API_DISABLE_BROADCAST_QUIRK kh)\<rparr>)) (\<lambda>vm.
     and_then (expect_err vm (enable_cap kh vm \<lparr>c_cap = KVM_CAP_TSC_DEADLINE_TIMER kh, c_flags = 0, c_arg0 = 0\<rparr>)) (\<lambda>vm.
     and_then (expect_err vm (enable_cap kh vm \<lparr>c_cap = KVM_CAP_IRQFD kh, c_flags = 0, c_arg0 = 0\<rparr>)) (\<lambda>vm.
     expect_ok (enable_cap kh vm \<lparr>c_cap = KVM_CAP_X86_DISABLE_EXITS kh, c_flags = 0,
       c_arg0 = ucast (KVM_X86_DISABLE_EXITS_PAUSE kh OR KVM_X86_DISABLE_EXITS_MWAIT kh OR KVM_X86_DISABLE_EXITS_HLT kh)\<rparr>))))"

subsection \<open>The machine\<close>

text \<open>
  The machine: what the loader needs, the kernel's virtual machine, the path of the kernel file,
  the network with the address of its rings, the virtio device and the port of the debugger.
\<close>

record ('k, 'i) Uhyve = Vm +
  uh_vm :: 'k
  uh_path :: "u8 list"
  uh_network :: "(string \<times> usize) option"
  uh_virtio_device :: "'i VirtioNetPciDevice"
  uh_gdb_port :: "u16 option"

definition parse_addr :: "'k kvm_host \<Rightarrow> string option \<Rightarrow> u8 list option res" where
  "parse_addr kh a = (case a of None \<Rightarrow> Inr None | Some s \<Rightarrow> map_ok Some (unwrap (ipv4_from_str kh s)))"

definition UhyveNetwork_new :: "'k kvm_host \<Rightarrow> string \<Rightarrow> usize \<Rightarrow> (string \<times> usize) res" where
  "UhyveNetwork_new kh name start = and_then (unwrap (tap_without_packet_info kh name)) (\<lambda>_. Inr (name, start))"

definition Uhyve_new :: "'k kvm_host \<Rightarrow> bool \<Rightarrow> u8 list \<Rightarrow> Parameter \<Rightarrow> i32 failure + ('k, 'i) Uhyve" where
  "Uhyve_new kh oc kpath specs =
     and_then (panics (parse_addr kh (p_ip specs))) (\<lambda>ip_addr.
     and_then (panics (parse_addr kh (p_gateway specs))) (\<lambda>gw_addr.
     and_then (panics (parse_addr kh (p_mask specs))) (\<lambda>mask.
     and_then (ioctl (create_vm kh)) (\<lambda>vm.
     and_then (panics (MmapMemory_new kh 0 (p_mem_size specs) 0 (p_hugepage specs) (p_mergeable specs))) (\<lambda>mem.
     and_then (panics VirtioNetPciDevice_new) (\<lambda>virtio_device.
     and_then (register_memory kh oc vm (p_mem_size specs) mem) (\<lambda>vm.
     and_then (ioctl (create_irq_chip kh vm)) (\<lambda>vm.
     and_then (panics (enable_caps kh vm)) (\<lambda>vm.
     and_then (panics (unwrap (eventfd_new kh))) (\<lambda>_.
     and_then (ioctl (register_irqfd kh vm UHYVE_IRQ_NET)) (\<lambda>vm.
     and_then (case p_nic specs of
         Some nic \<Rightarrow> and_then (panics (add_oc oc (mm_host_address mem) SHAREDQUEUE_START)) (\<lambda>start.
           map_ok Some (panics (UhyveNetwork_new kh nic start)))
       | None \<Rightarrow> Inr None) (\<lambda>uhyve_device.
     and_then (panics (rust_assert (p_gdbport specs = None \<or> p_num_cpus specs = 1))) (\<lambda>_.
     and_then (panics (init_guest_mem oc (guest_mem mem))) (\<lambda>m.
     Inr \<lparr>vm_mem = m, vm_num_cpus = p_num_cpus specs, vm_offset = 0, vm_entry_point = 0, vm_boot_info = None,
       vm_ip = ip_addr, vm_gateway = gw_addr, vm_mask = mask, vm_verbose = p_verbose specs,
       uh_vm = vm, uh_path = kpath, uh_network = uhyve_device, uh_virtio_device = virtio_device,
       uh_gdb_port = p_gdbport specs\<rparr>))))))))))))))"

definition get_offset :: "'a Vm_scheme \<Rightarrow> u64" where "get_offset vm = vm_offset vm"
definition get_entry_point :: "'a Vm_scheme \<Rightarrow> u64" where "get_entry_point vm = vm_entry_point vm"
definition num_cpus :: "'a Vm_scheme \<Rightarrow> u32" where "num_cpus vm = vm_num_cpus vm"

definition cpu_online :: "'a Vm_scheme \<Rightarrow> u32 res" where
  "cpu_online vm =
     (case vm_boot_info vm of
        None \<Rightarrow> Inr 0
      | Some p \<Rightarrow> load (vm_mem vm) (p + of_nat off_cpu_online))"

text \<open>
  Creating a processor: the kernel's processor, and the state of its exit loop, which shares memory,
  device and channel with the machine.
\<close>

definition create_cpu ::
  "('k \<Rightarrow> u64 \<Rightarrow> i32 + 'v) \<Rightarrow> ('k, 'i) Uhyve \<Rightarrow> u32 \<Rightarrow> i32 failure + 'v \<times> usize \<times> 'i UhyveCPU" where
  "create_cpu create_vcpu vm i =
     (let vm_start = mem_base (vm_mem vm);
          tx = map_option (\<lambda>_. \<lparr>chan_queue = [], chan_receiver = True\<rparr>) (uh_network vm) in
      and_then (ioctl (create_vcpu (uh_vm vm) (ucast i))) (\<lambda>vcpu.
      Inr (vcpu, vm_start, \<lparr>cpu_mem = vm_mem vm, cpu_virtio_device = uh_virtio_device vm, cpu_tx = tx,
        cpu_pci_addr = None, cpu_io_page = []\<rparr>)))"

subsection \<open>The memory map\<close>

text \<open>
  How the kernel finds the memory behind a guest-physical address: the registered region that
  contains it.
\<close>

definition in_region :: "u64 \<Rightarrow> kvm_userspace_memory_region \<Rightarrow> bool" where
  "in_region a r \<longleftrightarrow> r_guest_phys_addr r \<le> a \<and> a - r_guest_phys_addr r < r_memory_size r"

definition kvm_translate :: "kvm_userspace_memory_region list \<Rightarrow> u64 \<Rightarrow> u64 option" where
  "kvm_translate rs a =
     (case find (in_region a) rs of
        None \<Rightarrow> None
      | Some r \<Rightarrow> Some (r_userspace_addr r + (a - r_guest_phys_addr r)))"

definition records_regions :: "'k kvm_host \<Rightarrow> ('k \<Rightarrow> kvm_userspace_memory_region list) \<Rightarrow> bool" where
  "records_regions kh regions \<longleftrightarrow>
     (\<forall>vm r vm'. set_user_memory_region kh vm r = Inr vm' \<longrightarrow> regions vm' = regions vm @ [r])"

lemma gap_values: "KVM_32BIT_GAP_START = 0xD0000000" "KVM_32BIT_GAP_SIZE = 0x30000000"
  by (simp_all add: uhyve_consts)

lemma high_region_eq:
  assumes "mm_guest_address mem = 0" and "unat (mm_host_address mem) + unat msize < 2 ^ 64" and "0x100000000 < msize"
  shows "high_region oc msize mem = Inr \<lparr>r_slot = 1, r_flags = mm_flags mem, r_memory_size = msize - 0x100000000,
    r_guest_phys_addr = 0x100000000, r_userspace_addr = mm_host_address mem + 0x100000000\<rparr>"
proof -
  have m: "0x100000000 < unat msize" using assms(3) by (simp add: word_less_nat_alt)
  have 1: "sub_oc oc msize 0xD0000000 = Inr (msize - 0xD0000000)"
    using m by (intro sub_oc_no_underflow) (simp add: word_le_nat_alt)
  have "unat (msize - 0xD0000000) = unat msize - 0xD0000000" using m by (simp add: unat_sub word_le_nat_alt)
  then have 2: "sub_oc oc (msize - 0xD0000000) 0x30000000 = Inr (msize - 0xD0000000 - 0x30000000)"
    using m by (intro sub_oc_no_underflow) (simp add: word_le_nat_alt)
  have 3: "add_oc oc (mm_host_address mem) 0xD0000000 = Inr (mm_host_address mem + 0xD0000000)"
    "unat (mm_host_address mem + 0xD0000000) = unat (mm_host_address mem) + 0xD0000000"
    using assms(2) m add_oc_no_overflow [of "mm_host_address mem" "0xD0000000" oc] unat_add_no_overflow [of "mm_host_address mem" "0xD0000000"]
    by simp_all
  have 4: "add_oc oc (mm_host_address mem + 0xD0000000) 0x30000000 = Inr (mm_host_address mem + 0xD0000000 + 0x30000000)"
    using assms(2) m 3(2) by (intro add_oc_no_overflow) simp
  have 5: "add_oc oc 0 (0xD0000000 :: u64) = Inr 0xD0000000" "add_oc oc (0xD0000000 :: u64) 0x30000000 = Inr 0x100000000"
    by (simp_all add: add_oc_def)
  show ?thesis
    using assms(1) by (simp add: high_region_def gap_values 1 2 3 4 5)
qed

lemma register_memory_regions:
  assumes "records_regions kh regions" and "mm_guest_address mem = 0" and "unat (mm_host_address mem) + unat msize < 2 ^ 64"
    and "register_memory kh oc vm msize mem = Inr vm'"
  shows "regions vm' = regions vm @ [low_region msize mem] @
    (if 0x100000000 < msize then [\<lparr>r_slot = 1, r_flags = mm_flags mem, r_memory_size = msize - 0x100000000,
      r_guest_phys_addr = 0x100000000, r_userspace_addr = mm_host_address mem + 0x100000000\<rparr>] else [])"
  using assms(1,4) high_region_eq [OF assms(2,3)]
  by (auto simp: register_memory_def and_then_eq_Inr ioctl_eq_Inr panics_eq_Inr gap_values add_oc_def records_regions_def
      split: if_splits)

text \<open>
  C25. The kernel and the hypervisor agree on guest memory: the regions registered for a machine of a
  given size translate a guest-physical address to exactly the host address \<^verbatim>\<open>host_address\<close> computes,
  for every address below the size that is not in the gap from 3.25 to 4 GiB, and translate no other
  address. Memory in the gap is mapped in the host and reported to the guest as part of its memory,
  but no region backs it.
\<close>

theorem memory_map_correct:
  assumes "records_regions kh regions" and "regions vm = []" and "mm_guest_address mem = 0"
    and "unat (mm_host_address mem) + unat msize < 2 ^ 64"
    and "register_memory kh oc vm msize mem = Inr vm'"
  shows "kvm_translate (regions vm') a =
      (if a < msize \<and> (a < 0xD0000000 \<or> 0x100000000 \<le> a) then Some (mm_host_address mem + a) else None) \<and>
    (a < msize \<longrightarrow> host_address oc (mm_host_address mem) a = Inr (mm_host_address mem + a))"
proof
  have rs: "regions vm' = low_region msize mem #
    (if 0x100000000 < msize then [\<lparr>r_slot = 1, r_flags = mm_flags mem, r_memory_size = msize - 0x100000000,
      r_guest_phys_addr = 0x100000000, r_userspace_addr = mm_host_address mem + 0x100000000\<rparr>] else [])"
    using register_memory_regions [OF assms(1,3-5)] assms(2) by simp
  have low: "in_region a (low_region msize mem) \<longleftrightarrow> a < msize \<and> a < 0xD0000000"
    using assms(3) by (auto simp: in_region_def low_region_def gap_values Let_def)
  have high: "0x100000000 \<le> a \<and> a - 0x100000000 < msize - 0x100000000 \<longleftrightarrow> 0x100000000 \<le> a \<and> a < msize"
    if "0x100000000 < msize" for a :: u64
  proof (cases "0x100000000 \<le> a")
    case True
    then have "unat (a - 0x100000000) = unat a - 0x100000000" "unat (msize - 0x100000000) = unat msize - 0x100000000"
      using that by (simp_all add: unat_sub word_le_nat_alt word_less_nat_alt)
    then show ?thesis using that True by (auto simp: word_less_nat_alt word_le_nat_alt)
  qed simp
  show "kvm_translate (regions vm') a =
      (if a < msize \<and> (a < 0xD0000000 \<or> 0x100000000 \<le> a) then Some (mm_host_address mem + a) else None)"
  proof (cases "a < msize \<and> a < 0xD0000000")
    case True
    then show ?thesis using assms(3) low by (simp add: kvm_translate_def rs low_region_def Let_def)
  next
    case False
    show ?thesis
    proof (cases "0x100000000 < msize")
      case True
      then show ?thesis
        using False low high [OF True, of a]
        by (auto simp: kvm_translate_def rs in_region_def [of a "\<lparr>r_slot = 1, r_flags = _, r_memory_size = _, r_guest_phys_addr = _, r_userspace_addr = _\<rparr>"])
    next
      case small: False
      then have "\<not> (a < msize \<and> 0x100000000 \<le> a)" by auto
      then show ?thesis using False low small by (auto simp: kvm_translate_def rs)
    qed
  qed
  show "a < msize \<longrightarrow> host_address oc (mm_host_address mem) a = Inr (mm_host_address mem + a)"
  proof
    assume "a < msize"
    then have "unat a + unat (mm_host_address mem) < 2 ^ LENGTH(64)" using assms(4) by (simp add: word_less_nat_alt)
    then show "host_address oc (mm_host_address mem) a = Inr (mm_host_address mem + a)"
      unfolding host_address_def by (simp only: add_oc_no_overflow add.commute [of a])
  qed
qed

text \<open>A kernel that records the regions and rejects the two capabilities the source wants rejected.\<close>

definition sample_kvm :: "kvm_userspace_memory_region list kvm_host" where
  "sample_kvm = \<lparr>create_vm = Inr [], set_user_memory_region = (\<lambda>vm r. Inr (vm @ [r])), create_irq_chip = Inr,
     enable_cap = (\<lambda>vm c. if c_cap c = 72 \<or> c_cap c = 32 then Inl 22 else Inr vm), register_irqfd = (\<lambda>vm n. Inr vm),
     eventfd_new = Some (), mmap = (\<lambda>n. if n < 0x10000000000 then Some 0x7f0000000000 else None), madvise_mergeable = (\<lambda>a n. Some ()),
     madvise_hugepage = (\<lambda>a n. Some ()), ipv4_from_str = (\<lambda>s. Some [10, 0, 5, 3]), tap_without_packet_info = (\<lambda>s. Some ()),
     KVM_CAP_X2APIC_API = 129, KVM_CAP_TSC_DEADLINE_TIMER = 72, KVM_CAP_IRQFD = 32, KVM_CAP_X86_DISABLE_EXITS = 143,
     KVM_X2APIC_API_USE_32BIT_IDS = 1, KVM_X2APIC_API_DISABLE_BROADCAST_QUIRK = 2, KVM_X86_DISABLE_EXITS_PAUSE = 4,
     KVM_X86_DISABLE_EXITS_MWAIT = 1, KVM_X86_DISABLE_EXITS_HLT = 2\<rparr>"

lemma sample_kvm_records: "records_regions sample_kvm (\<lambda>rs. rs)"
  by (simp add: records_regions_def sample_kvm_def)

definition sample_mmap :: MmapMemory where
  "sample_mmap = \<lparr>mm_flags = 0, mm_memory_size = 0x180000000, mm_guest_address = 0, mm_host_address = 0x7f0000000000\<rparr>"

theorem memory_map_correct_witness:
  "\<exists>rs. register_memory sample_kvm True [] 0x180000000 sample_mmap = Inr rs \<and>
     kvm_translate rs 0x110000000 = Some 0x7f0110000000 \<and> kvm_translate rs 0xE0000000 = None"
proof -
  have g: "mm_guest_address sample_mmap = 0" "unat (mm_host_address sample_mmap) + unat (0x180000000 :: usize) < 2 ^ 64"
    by (simp_all add: sample_mmap_def)
  have "high_region True 0x180000000 sample_mmap = Inr \<lparr>r_slot = 1, r_flags = mm_flags sample_mmap, r_memory_size = 0x180000000 - 0x100000000,
    r_guest_phys_addr = 0x100000000, r_userspace_addr = mm_host_address sample_mmap + 0x100000000\<rparr>"
    by (rule high_region_eq [OF g]) simp
  then obtain rs where rs: "register_memory sample_kvm True [] 0x180000000 sample_mmap = Inr rs"
    by (simp add: register_memory_def sample_kvm_def gap_values add_oc_def)
  have "kvm_translate rs a = (if a < 0x180000000 \<and> (a < 0xD0000000 \<or> 0x100000000 \<le> a) then Some (mm_host_address sample_mmap + a) else None)" for a
    using memory_map_correct [OF sample_kvm_records _ g rs, of a] by simp
  then show ?thesis using rs by (simp add: sample_mmap_def)
qed

subsection \<open>A new machine\<close>

lemma Uhyve_new_parts:
  assumes "Uhyve_new kh oc kpath specs = Inr vm"
  shows "\<exists>mem. MmapMemory_new kh 0 (p_mem_size specs) 0 (p_hugepage specs) (p_mergeable specs) = Inr mem \<and>
    init_guest_mem oc (guest_mem mem) = Inr (vm_mem vm) \<and> VirtioNetPciDevice_new = Inr (uh_virtio_device vm) \<and>
    (p_gdbport specs = None \<or> p_num_cpus specs = 1) \<and> uh_gdb_port vm = p_gdbport specs \<and> vm_num_cpus vm = p_num_cpus specs \<and>
    uh_path vm = kpath \<and> (uh_network vm = None \<longleftrightarrow> p_nic specs = None)"
  using assms
  by (auto simp: Uhyve_new_def and_then_eq_Inr panics_eq_Inr rust_assert_def map_ok_eq_Inr split: if_splits option.splits)

lemma MmapMemory_new_eq:
  "MmapMemory_new kh f n g h k = Inr mem \<Longrightarrow> mmap kh n = Some (mm_host_address mem) \<and> mm_memory_size mem = n \<and> mm_guest_address mem = g"
  by (auto simp: MmapMemory_new_def and_then_eq_Inr unwrap_eq_Inr split: if_splits)

text \<open>What the host documents of a mapping: it fits into the address space.\<close>

definition mmap_fits :: "'k kvm_host \<Rightarrow> bool" where
  "mmap_fits kh \<longleftrightarrow> (\<forall>n a. mmap kh n = Some a \<longrightarrow> unat a + unat n < 2 ^ 64)"

text \<open>
  A machine that was created is ready: its memory has the size asked for and holds the boot
  structures, so that every processor created for it starts with the network device in its initial
  state and translates each address below 1 GiB to itself; and a machine with a debugger has exactly
  one processor.
\<close>

theorem new_machine_ready:
  assumes "mmap_fits kh" and "0x13000 \<le> unat (p_mem_size specs)" and "Uhyve_new kh oc kpath specs = Inr vm"
    and "create_cpu create_vcpu vm i = Inr (v, vm_start, c)" and "a < 2 ^ 30" and "unat vm_start + 2 ^ 52 \<le> 2 ^ 64"
  shows "mem_size (vm_mem vm) = p_mem_size specs \<and> VirtioNetPciDevice_new = Inr (cpu_virtio_device c) \<and>
    virt_to_phys oc vm_start (cpu_mem c) a = Inr a \<and> (uh_gdb_port vm \<noteq> None \<longrightarrow> vm_num_cpus vm = 1) \<and>
    (cpu_tx c = None \<longleftrightarrow> p_nic specs = None)"
proof -
  obtain mem where mem: "MmapMemory_new kh 0 (p_mem_size specs) 0 (p_hugepage specs) (p_mergeable specs) = Inr mem"
    and m: "init_guest_mem oc (guest_mem mem) = Inr (vm_mem vm)" and d: "VirtioNetPciDevice_new = Inr (uh_virtio_device vm)"
    and g: "p_gdbport specs = None \<or> p_num_cpus specs = 1" "uh_gdb_port vm = p_gdbport specs" "vm_num_cpus vm = p_num_cpus specs"
    and n: "uh_network vm = None \<longleftrightarrow> p_nic specs = None"
    using Uhyve_new_parts [OF assms(3)] by (elim exE conjE) (rule that)
  note mm = MmapMemory_new_eq [OF mem]
  have wf: "mem_wf (guest_mem mem)" "0x13000 \<le> unat (mem_size (guest_mem mem))"
    using assms(1,2) mm by (auto simp: mem_wf_def guest_mem_def mmap_fits_def)
  have boot: "boot_memory (guest_mem mem) (vm_mem vm)"
    using init_guest_mem_boot_memory [OF wf, of oc] m by auto
  have c: "vm_start = mem_base (vm_mem vm)" "cpu_mem c = vm_mem vm" "cpu_virtio_device c = uh_virtio_device vm"
    "cpu_tx c = None \<longleftrightarrow> uh_network vm = None"
    using assms(4) by (auto simp: create_cpu_def Let_def and_then_eq_Inr)
  have "virt_to_phys oc (mem_base (vm_mem vm)) (vm_mem vm) a = Inr a"
    by (rule virt_to_phys_mmu) (use assms(6) c(1) boot_walk [OF boot wf(2) assms(5)] in simp_all)
  moreover have "mem_size (vm_mem vm) = p_mem_size specs" using boot_memoryD(2) [OF boot] mm by (simp add: guest_mem_def)
  ultimately show ?thesis using c d g n by auto
qed

definition sample_specs :: Parameter where
  "sample_specs = \<lparr>p_mem_size = 0x1000000, p_num_cpus = 1, p_verbose = False, p_hugepage = True, p_mergeable = False,
     p_ip = Some ''10.0.5.3'', p_gateway = None, p_mask = None, p_nic = None, p_gdbport = None\<rparr>"

lemma sample_machine: "\<exists>vm. (Uhyve_new sample_kvm oc [47] sample_specs :: _ + (_, unit) Uhyve) = Inr vm \<and> mem_base (vm_mem vm) = 0x7f0000000000"
proof -
  let ?m = "\<lparr>mem_base = 0x7f0000000000, mem_size = 0x1000000, mem_bytes = (\<lambda>_. 0)\<rparr> :: hmem"
  obtain m' where m': "init_guest_mem oc ?m = Inr m'" "boot_memory ?m m'"
    using init_guest_mem_boot_memory [of ?m oc] by (auto simp: mem_wf_def)
  have "\<not> (0x100000000 :: u64) < 0x1000000" by simp
  then show ?thesis
    using m' boot_memoryD(1) [OF m'(2)]
    by (simp add: Uhyve_new_def sample_kvm_def sample_specs_def parse_addr_def MmapMemory_new_def VirtioNetPciDevice_new_eq
        register_memory_def gap_values add_oc_def enable_caps_def rust_assert_def guest_mem_def)
qed

theorem new_machine_ready_witness:
  "\<exists>vm v vm_start c. (Uhyve_new sample_kvm True [47] sample_specs :: _ + (_, unit) Uhyve) = Inr vm \<and>
     create_cpu (\<lambda>k i. Inr ()) vm 0 = Inr (v, vm_start, c) \<and> virt_to_phys True vm_start (cpu_mem c) 0x200000 = Inr 0x200000"
proof -
  obtain vm where vm: "(Uhyve_new sample_kvm True [47] sample_specs :: _ + (_, unit) Uhyve) = Inr vm" "mem_base (vm_mem vm) = 0x7f0000000000"
    using sample_machine by blast
  obtain c where c: "create_cpu (\<lambda>k i. Inr ()) vm 0 = Inr ((), mem_base (vm_mem vm), c)"
    by (simp add: create_cpu_def Let_def)
  have "mmap_fits sample_kvm"
    by (auto simp: mmap_fits_def sample_kvm_def word_less_nat_alt split: if_splits)
  from new_machine_ready [OF this _ vm(1) c, of "0x200000"] vm(2)
  have "virt_to_phys True (mem_base (vm_mem vm)) (cpu_mem c) 0x200000 = Inr 0x200000" by (simp add: sample_specs_def)
  with vm(1) c show ?thesis by blast
qed

text \<open>
  The two capability checks are the wrong way round: the machine is only created if the kernel
  refuses to enable the deadline timer and the interrupt file descriptors; a kernel that accepts
  either stops the hypervisor with the message that the feature is missing.
\<close>

theorem enabled_capability_panics:
  assumes "enable_caps kh vm = Inr vm'" and "cap \<in> {KVM_CAP_TSC_DEADLINE_TIMER kh, KVM_CAP_IRQFD kh}"
  shows "\<exists>vm1 e. enable_cap kh vm1 \<lparr>c_cap = cap, c_flags = 0, c_arg0 = 0\<rparr> = Inl e"
proof -
  have refused: "expect_err vm1 r = Inr vm2 \<longleftrightarrow> (\<exists>e. r = Inl e) \<and> vm2 = vm1" for vm1 vm2 and r :: "i32 + 'a"
    by (cases r) auto
  show ?thesis using assms by (auto simp: enable_caps_def and_then_eq_Inr refused)
qed

theorem enabled_capability_panics_witness:
  "\<exists>e. enable_caps sample_kvm [] = Inr [] \<and> enable_cap sample_kvm [] \<lparr>c_cap = 72, c_flags = 0, c_arg0 = 0\<rparr> = Inl e"
proof -
  have "enable_caps sample_kvm [] = Inr []" by (simp add: enable_caps_def sample_kvm_def)
  from enabled_capability_panics [OF this, of 72] show ?thesis
    using \<open>enable_caps sample_kvm [] = Inr []\<close> by (auto simp: sample_kvm_def split: if_splits)
qed

subsection \<open>The first processor\<close>

lemma splice_same:
  assumes "splice k bs old = old" and "k + length bs \<le> length old"
  shows "take (length bs) (drop k old) = bs"
proof -
  have "take (length bs) (drop k (splice k bs old)) = bs" using assms(2) by (simp add: splice_def)
  then show ?thesis by (simp add: assms(1))
qed

lemma load_bytes_take:
  assumes "load_bytes m a n = Inr bs" and "k \<le> n"
  shows "load_bytes m a k = Inr (take k bs)"
proof -
  have "in_mem m a n" "bs = read_bytes m a n" using assms(1) by (auto simp: load_bytes_def split: if_splits)
  then show ?thesis using assms(2) by (auto simp: load_bytes_def in_mem_def read_bytes_def take_map)
qed

lemma header_cpu_online:
  assumes "mem_wf m" and "header_at m b"
  shows "load m (mem_base m + BOOT_INFO_ADDR + of_nat off_cpu_online) = Inr (bi_cpu_online b)"
proof -
  have wf: "bi_wf b" and hd: "load_bytes m (mem_base m + BOOT_INFO_ADDR) boot_info_size = Inr (boot_info_bytes b)"
    using assms(2) by (simp_all add: header_at_def)
  have off: "off_cpu_online + 4 \<le> boot_info_size" by (simp add: layout)
  have "load_bytes m (mem_base m + BOOT_INFO_ADDR + of_nat off_cpu_online) 4 =
      Inr (take 4 (drop off_cpu_online (boot_info_bytes b)))"
    using load_bytes_take [OF load_bytes_drop [OF assms(1) hd, of off_cpu_online], of 4] off by simp
  moreover have "take 4 (drop off_cpu_online (boot_info_bytes b)) = bytes_of (bi_cpu_online b)"
    using splice_same [OF trans [OF boot_info_splice(11) [OF wf, of "bi_cpu_online b"]]] off
    by (simp add: length_boot_info_bytes [OF wf])
  ultimately show ?thesis by (simp add: load_def from_le_to_le)
qed

end
