(* ===== verification/Gdb_Target.thy ===== *)
theory Gdb_Target
  imports Debug_Registers Gdb_Regs Uhyve_Linux
begin

text \<open>
  The target of the debugger (\<^verbatim>\<open>src/linux/gdb/mod.rs\<close>, \<^verbatim>\<open>breakpoints.rs\<close>, \<^verbatim>\<open>section_offsets.rs\<close>): the
  operations the stub calls on a virtual machine with one processor. The stub itself and the
  connection to the debugger are arguments of the model.
\<close>

subsection \<open>State\<close>

record SwBreakpoint =
  sb_addr :: u64
  sb_kind :: usize

definition OPCODE :: u8 where "OPCODE = 0xcc"

text \<open>
  The virtual machine, its processor with the address of guest memory, and the breakpoints; a
  software breakpoint is kept with the bytes it replaced.
\<close>

record ('k, 'i, 'a, 's) GdbUhyve =
  g_vm :: "('k, 'i) Uhyve"
  g_vm_start :: usize
  g_vcpu :: "'i UhyveCPU"
  hw_breakpoints :: "('a, 's) HwBreakpoints"
  sw_breakpoints :: "SwBreakpoint \<rightharpoonup> u8 list"

definition GdbUhyve_new :: "('k, 'i) Uhyve \<Rightarrow> usize \<Rightarrow> 'i UhyveCPU \<Rightarrow> ('k, 'i, 'a, 's) GdbUhyve" where
  "GdbUhyve_new vm vm_start vcpu =
     \<lparr>g_vm = vm, g_vm_start = vm_start, g_vcpu = vcpu, hw_breakpoints = HwBreakpoints_new, sw_breakpoints = Map.empty\<rparr>"

text \<open>
  Information about a debug exit, and the calls and numbers of the kernel's interface for debugging.
\<close>

record kvm_debug_exit_arch =
  dbg_exception :: u32
  dbg_dr6 :: u64

record 'v gdb_fd = "'v debug_fd" +
  set_guest_debug :: "'v \<Rightarrow> u32 \<Rightarrow> u64 list \<Rightarrow> i32 + 'v"
  KVM_GUESTDBG_ENABLE :: u32
  KVM_GUESTDBG_SINGLESTEP :: u32
  KVM_GUESTDBG_USE_SW_BP :: u32
  KVM_GUESTDBG_USE_HW_BP :: u32
  DB_VECTOR :: u32
  BP_VECTOR :: u32
  EINVAL :: i32

subsection \<open>Software breakpoints\<close>

definition set_cpu_mem :: "('k, 'i, 'a, 's) GdbUhyve \<Rightarrow> hmem \<Rightarrow> ('k, 'i, 'a, 's) GdbUhyve" where
  "set_cpu_mem g m = g\<lparr>g_vcpu := (g_vcpu g)\<lparr>cpu_mem := m\<rparr>\<rparr>"

definition add_sw_breakpoint ::
  "bool \<Rightarrow> ('k, 'i, 'a, 's) GdbUhyve \<Rightarrow> u64 \<Rightarrow> usize \<Rightarrow> (bool \<times> ('k, 'i, 'a, 's) GdbUhyve) res" where
  "add_sw_breakpoint oc g addr kind =
     (let sw_breakpoint = \<lparr>sb_addr = addr, sb_kind = kind\<rparr>; m = cpu_mem (g_vcpu g) in
      case sw_breakpoints g sw_breakpoint of
        None \<Rightarrow>
          and_then (memory oc (g_vm_start g) m addr) (\<lambda>p.
          and_then (load_bytes m p (unat kind)) (\<lambda>instructions.
          and_then (store_bytes m p (replicate (unat kind) OPCODE)) (\<lambda>m.
          Inr (True, (set_cpu_mem g m)\<lparr>sw_breakpoints := (sw_breakpoints g)(sw_breakpoint \<mapsto> instructions)\<rparr>))))
      | Some _ \<Rightarrow> Inr (False, g))"

definition remove_sw_breakpoint ::
  "bool \<Rightarrow> ('k, 'i, 'a, 's) GdbUhyve \<Rightarrow> u64 \<Rightarrow> usize \<Rightarrow> (bool \<times> ('k, 'i, 'a, 's) GdbUhyve) res" where
  "remove_sw_breakpoint oc g addr kind =
     (let sw_breakpoint = \<lparr>sb_addr = addr, sb_kind = kind\<rparr>; m = cpu_mem (g_vcpu g) in
      case sw_breakpoints g sw_breakpoint of
        Some saved \<Rightarrow>
          and_then (memory oc (g_vm_start g) m addr) (\<lambda>p.
          and_then (if length saved = unat kind then store_bytes m p saved else Inl ExplicitPanic) (\<lambda>m.
          Inr (True, (set_cpu_mem g m)\<lparr>sw_breakpoints := (sw_breakpoints g)(sw_breakpoint := None)\<rparr>)))
      | None \<Rightarrow> Inr (False, g))"

subsection \<open>Hardware breakpoints and watchpoints\<close>

definition insert_hw :: "('k, 'i, 'a, 's) GdbUhyve \<Rightarrow> ('a, 's) HwBreakpoint \<Rightarrow> bool \<times> ('k, 'i, 'a, 's) GdbUhyve" where
  "insert_hw g bp =
     (case try_insert (hw_breakpoints g) bp of
        Some slots \<Rightarrow> (True, g\<lparr>hw_breakpoints := slots\<rparr>)
      | None \<Rightarrow> (False, g))"

definition take_hw :: "('k, 'i, 'a, 's) GdbUhyve \<Rightarrow> ('a, 's) HwBreakpoint \<Rightarrow> bool \<times> ('k, 'i, 'a, 's) GdbUhyve" where
  "take_hw g bp =
     (case take_slot (hw_breakpoints g) bp of (r, slots) \<Rightarrow> (r \<noteq> None, g\<lparr>hw_breakpoints := slots\<rparr>))"

definition add_hw_breakpoint ::
  "('a, 's, 'n, 'd, 'f) x86_debug \<Rightarrow> ('k, 'i, 'a, 's) GdbUhyve \<Rightarrow> u64 \<Rightarrow> usize \<Rightarrow> (bool \<times> ('k, 'i, 'a, 's) GdbUhyve) res" where
  "add_hw_breakpoint xd g addr kind =
     (case new_breakpoint xd addr kind of
        Inr hw_breakpoint \<Rightarrow> Inr (insert_hw g hw_breakpoint)
      | Inl (Err _) \<Rightarrow> Inr (False, g)
      | Inl (Panic f) \<Rightarrow> Inl f)"

definition remove_hw_breakpoint ::
  "('a, 's, 'n, 'd, 'f) x86_debug \<Rightarrow> ('k, 'i, 'a, 's) GdbUhyve \<Rightarrow> u64 \<Rightarrow> usize \<Rightarrow> (bool \<times> ('k, 'i, 'a, 's) GdbUhyve) res" where
  "remove_hw_breakpoint xd g addr kind =
     (case new_breakpoint xd addr kind of
        Inr hw_breakpoint \<Rightarrow> Inr (take_hw g hw_breakpoint)
      | Inl (Err _) \<Rightarrow> Inr (False, g)
      | Inl (Panic f) \<Rightarrow> Inl f)"

definition add_hw_watchpoint ::
  "('a, 's, 'n, 'd, 'f) x86_debug \<Rightarrow> ('k, 'i, 'a, 's) GdbUhyve \<Rightarrow> u64 \<Rightarrow> u64 \<Rightarrow> WatchKind \<Rightarrow> (bool \<times> ('k, 'i, 'a, 's) GdbUhyve) res" where
  "add_hw_watchpoint xd g addr len kind =
     map_ok (\<lambda>r. case r of Some hw_breakpoint \<Rightarrow> insert_hw g hw_breakpoint | None \<Rightarrow> (False, g)) (new_watchpoint xd addr len kind)"

definition remove_hw_watchpoint ::
  "('a, 's, 'n, 'd, 'f) x86_debug \<Rightarrow> ('k, 'i, 'a, 's) GdbUhyve \<Rightarrow> u64 \<Rightarrow> u64 \<Rightarrow> WatchKind \<Rightarrow> (bool \<times> ('k, 'i, 'a, 's) GdbUhyve) res" where
  "remove_hw_watchpoint xd g addr len kind =
     map_ok (\<lambda>r. case r of Some hw_breakpoint \<Rightarrow> take_hw g hw_breakpoint | None \<Rightarrow> (False, g)) (new_watchpoint xd addr len kind)"

subsection \<open>Running\<close>

definition apply_guest_debug ::
  "('a, 's, 'n, 'd, 'f) x86_debug \<Rightarrow> 'w gdb_fd \<Rightarrow> ('k, 'i, 'a, 's) GdbUhyve \<Rightarrow> 'w \<Rightarrow> bool \<Rightarrow> i32 failure + 'w" where
  "apply_guest_debug xd fd g w step =
     and_then (panics (debug_registers xd (hw_breakpoints g))) (\<lambda>debugreg.
     let control = KVM_GUESTDBG_ENABLE fd OR KVM_GUESTDBG_USE_SW_BP fd OR KVM_GUESTDBG_USE_HW_BP fd;
         control = (if step then control OR KVM_GUESTDBG_SINGLESTEP fd else control) in
     ioctl (set_guest_debug fd w control debugreg))"

definition gdb_resume ::
  "('a, 's, 'n, 'd, 'f) x86_debug \<Rightarrow> 'w gdb_fd \<Rightarrow> ('k, 'i, 'a, 's) GdbUhyve \<Rightarrow> 'w \<Rightarrow> Signal option \<Rightarrow> i32 failure + 'w" where
  "gdb_resume xd fd g w sig =
     (if sig \<noteq> None then Inl (Err (EINVAL fd)) else apply_guest_debug xd fd g w False)"

definition gdb_step ::
  "('a, 's, 'n, 'd, 'f) x86_debug \<Rightarrow> 'w gdb_fd \<Rightarrow> ('k, 'i, 'a, 's) GdbUhyve \<Rightarrow> 'w \<Rightarrow> Signal option \<Rightarrow> i32 failure + 'w" where
  "gdb_step xd fd g w sig =
     (if sig \<noteq> None then Inl (Err (EINVAL fd)) else apply_guest_debug xd fd g w True)"

text \<open>The reason of a stop for the debugger.\<close>

definition debug_reason ::
  "('a, 's, 'n, 'd, 'f) x86_debug \<Rightarrow> 'w gdb_fd \<Rightarrow> ('a, 's) HwBreakpoints \<Rightarrow> kvm_debug_exit_arch VcpuStopReason \<Rightarrow> StopReason res" where
  "debug_reason xd fd slots reason =
     (case reason of
        DebugStop debug \<Rightarrow>
          if dbg_exception debug = DB_VECTOR fd then stop_reason xd slots (Dr6_from_bits_truncate xd (dbg_dr6 debug))
          else if dbg_exception debug = BP_VECTOR fd then Inr SwBreak
          else Inl UnreachableCode
      | Exit code \<Rightarrow> Inr (Exited (if code = 0 then 0 else 1))
      | Kick \<Rightarrow> Inr (SignalStop SIGINT))"

definition gdb_run ::
  "('w, 'i, kvm_debug_exit_arch) surroundings \<Rightarrow> bool \<Rightarrow> ('a, 's, 'n, 'd, 'f) x86_debug \<Rightarrow> 'w gdb_fd \<Rightarrow>
     ('k, 'i, 'a, 's) GdbUhyve \<Rightarrow> 'w \<Rightarrow> (i32 failure + StopReason \<times> ('k, 'i, 'a, 's) GdbUhyve \<times> 'w) option" where
  "gdb_run env oc xd fd g w =
     map_option (\<lambda>r. and_then r (\<lambda>(reason, c, w).
       and_then (panics (debug_reason xd fd (hw_breakpoints g) reason)) (\<lambda>sr.
       Inr (sr, g\<lparr>g_vcpu := c\<rparr>, w))))
       (continue env oc (g_vm_start g) (g_vcpu g) w)"

subsection \<open>Registers and memory\<close>

text \<open>An error number for the stub is a byte.\<close>

fun target_errno :: "i32 failure + 'b \<Rightarrow> u8 failure + 'b" where
  "target_errno (Inl (Panic f)) = Inl (Panic f)"
| "target_errno (Inl (Err e)) = (if 0 \<le> sint e \<and> sint e < 256 then Inl (Err (ucast e)) else Inl (Panic UnwrapFailed))"
| "target_errno (Inr x) = Inr x"

definition read_registers :: "'w gdb_fd \<Rightarrow> 'w \<Rightarrow> u8 failure + X86_64CoreRegs" where
  "read_registers fd w = target_errno (regs_read fd w)"

definition write_registers :: "'w gdb_fd \<Rightarrow> 'w \<Rightarrow> X86_64CoreRegs \<Rightarrow> u8 failure + 'w" where
  "write_registers fd w regs = target_errno (regs_write fd regs w)"

definition read_addrs :: "bool \<Rightarrow> ('k, 'i, 'a, 's) GdbUhyve \<Rightarrow> u64 \<Rightarrow> nat \<Rightarrow> u8 list res" where
  "read_addrs oc g start_addr len =
     and_then (memory oc (g_vm_start g) (cpu_mem (g_vcpu g)) start_addr) (\<lambda>src. load_bytes (cpu_mem (g_vcpu g)) src len)"

definition write_addrs ::
  "bool \<Rightarrow> ('k, 'i, 'a, 's) GdbUhyve \<Rightarrow> u64 \<Rightarrow> u8 list \<Rightarrow> ('k, 'i, 'a, 's) GdbUhyve res" where
  "write_addrs oc g start_addr data =
     and_then (memory oc (g_vm_start g) (cpu_mem (g_vcpu g)) start_addr) (\<lambda>mem.
     map_ok (set_cpu_mem g) (store_bytes (cpu_mem (g_vcpu g)) mem data))"

text \<open>Offsets of the sections: text, data and bss.\<close>

definition get_section_offsets :: "('k, 'i, 'a, 's) GdbUhyve \<Rightarrow> u64 \<times> u64 \<times> u64 option" where
  "get_section_offsets g = (let off = get_offset (g_vm g) in (off, off, Some off))"

subsection \<open>Waiting for an event\<close>

datatype Event = IncomingData u8 | TargetStopped StopReason

datatype WaitForStopReasonError = TargetError i32 | ConnectionError i32

record 'w connection =
  conn_peek :: "'w \<Rightarrow> (i32 + u8 option) \<times> 'w"
  conn_read :: "'w \<Rightarrow> (i32 + u8) \<times> 'w"

definition wait_for_stop_reason ::
  "('w, 'i, kvm_debug_exit_arch) surroundings \<Rightarrow> bool \<Rightarrow> ('a, 's, 'n, 'd, 'f) x86_debug \<Rightarrow> 'w gdb_fd \<Rightarrow> 'w connection \<Rightarrow>
     ('k, 'i, 'a, 's) GdbUhyve \<Rightarrow> 'w \<Rightarrow>
     (WaitForStopReasonError failure + Event \<times> ('k, 'i, 'a, 's) GdbUhyve \<times> 'w) option" where
  "wait_for_stop_reason env oc xd fd conn g w =
     map_option (\<lambda>r. case r of
         Inl (Panic f) \<Rightarrow> Inl (Panic f)
       | Inl (Err e) \<Rightarrow> Inl (Err (TargetError e))
       | Inr (sr, g, w) \<Rightarrow>
           if sr = SignalStop SIGINT then
             (case conn_peek conn w of
                (Inl e, w) \<Rightarrow> Inl (Err (ConnectionError e))
              | (Inr None, w) \<Rightarrow> Inl (Panic AssertFailed)
              | (Inr (Some _), w) \<Rightarrow>
                  (case conn_read conn w of
                     (Inl e, w) \<Rightarrow> Inl (Err (ConnectionError e))
                   | (Inr b, w) \<Rightarrow> Inr (IncomingData b, g, w)))
           else Inr (TargetStopped sr, g, w))
       (gdb_run env oc xd fd g w)"

definition on_interrupt :: "StopReason option" where
  "on_interrupt = Some (SignalStop SIGINT)"

subsection \<open>Memory of a guest on the boot page tables\<close>

text \<open>
  A guest that still runs on the boot page tables, with its memory low enough for the page walk not
  to overflow. Its addresses above the tables are the ones breakpoints are set at.
\<close>

definition on_boot_tables :: "hmem \<Rightarrow> bool" where
  "on_boot_tables m \<longleftrightarrow> boot_memory m m \<and> 0x13000 \<le> unat (mem_size m) \<and> unat (mem_base m) + 2 ^ 52 \<le> 2 ^ 64"

definition debuggable :: "hmem \<Rightarrow> u64 \<Rightarrow> nat \<Rightarrow> bool" where
  "debuggable m a n \<longleftrightarrow> 0x13000 \<le> unat a \<and> unat a < 2 ^ 30 \<and> unat a < unat (mem_size m) \<and> unat a + n \<le> unat (mem_size m)"

lemma boot_memory_self: "boot_memory m0 m \<Longrightarrow> boot_memory m m"
  by (auto simp: boot_memory_def)

lemma memory_identity:
  assumes "on_boot_tables m" and "debuggable m a n"
  shows "memory oc (mem_base m) m a = Inr (mem_base m + a)" and "in_mem m (mem_base m + a) n"
    and "unat (mem_base m + a) = unat (mem_base m) + unat a"
proof -
  have boot: "boot_memory m m" and wf: "mem_wf m" using assms(1) by (auto simp: on_boot_tables_def boot_memory_def)
  have "a < 2 ^ 30" using assms(2) by (simp add: debuggable_def word_less_nat_alt)
  then have "mmu_walk m a 3 BOOT_PML4 = Some a"
    using boot_walk [OF boot] assms(1) by (simp add: on_boot_tables_def)
  then have "virt_to_phys oc (mem_base m) m a = Inr a"
    using virt_to_phys_mmu [of m a a oc] wf assms(1) by (simp add: on_boot_tables_def)
  then show "memory oc (mem_base m) m a = Inr (mem_base m + a)"
    using phys_add_oc(2) [OF wf, of a] assms(2) by (simp add: memory_def host_address_def debuggable_def)
  show "in_mem m (mem_base m + a) n" "unat (mem_base m + a) = unat (mem_base m) + unat a"
    using phys_in_mem [OF wf, of a n] assms(2) by (simp_all add: debuggable_def)
qed

lemma on_boot_tables_write:
  assumes "on_boot_tables m" and "debuggable m a (length bs)"
  shows "on_boot_tables (write_bytes m (mem_base m + a) bs)"
proof -
  have boot: "boot_memory m m" and wf: "mem_wf m" and sz: "0x13000 \<le> unat (mem_size m)"
    using assms(1) by (auto simp: on_boot_tables_def boot_memory_def)
  let ?m = "write_bytes m (mem_base m + a) bs"
  have st: "store_bytes m (mem_base m + a) bs = Inr ?m"
    using memory_identity(2) [OF assms] by (simp add: store_bytes_def)
  have eq: "load ?m (mem_base m + c) = (load m (mem_base m + c) :: u64 res)" if "unat c + 8 \<le> 0x13000" for c
  proof -
    have "apart (mem_base m + a) (length bs) (mem_base m + c) 8"
      using that assms(2) sz by (intro phys_apart [OF wf]) (auto simp: debuggable_def)
    from gm.rd_wr_apart [OF wf st this] show ?thesis by (simp add: load_def)
  qed
  have pde: "unat (BOOT_PDE + 8 * of_nat i) + 8 \<le> 0x13000" if "i < 512" for i
    using unat_pde_offset [OF that] that by simp
  have "load ?m (mem_base m + BOOT_PDE + 8 * of_nat i) = (load m (mem_base m + BOOT_PDE + 8 * of_nat i) :: u64 res)" if "i < 512" for i
    using eq [OF pde [OF that]] by (simp add: add.assoc)
  moreover have "load ?m (mem_base m + c) = (load m (mem_base m + c) :: u64 res)"
    if "c \<in> {BOOT_GDT, BOOT_GDT + 8, BOOT_GDT + 16, BOOT_PML4, BOOT_PML4 + 8 * 511, BOOT_PDPTE}" for c
    using that by (intro eq) (auto simp: uhyve_consts)
  ultimately have "boot_memory ?m ?m"
    using boot by (simp add: boot_memory_def add.assoc)
  then show ?thesis using assms(1) by (simp add: on_boot_tables_def)
qed

subsection \<open>Breakpoints are transparent\<close>

text \<open>Commands of the debugger on software breakpoints, and running a list of them.\<close>

datatype sw_cmd = SetBp SwBreakpoint | ClearBp SwBreakpoint

fun sw_step :: "bool \<Rightarrow> ('k, 'i, 'a, 's) GdbUhyve \<Rightarrow> sw_cmd \<Rightarrow> ('k, 'i, 'a, 's) GdbUhyve res" where
  "sw_step oc g (SetBp b) = map_ok snd (add_sw_breakpoint oc g (sb_addr b) (sb_kind b))"
| "sw_step oc g (ClearBp b) = map_ok snd (remove_sw_breakpoint oc g (sb_addr b) (sb_kind b))"

fun sw_spec :: "SwBreakpoint set \<Rightarrow> sw_cmd \<Rightarrow> SwBreakpoint set" where
  "sw_spec S (SetBp b) = insert b S"
| "sw_spec S (ClearBp b) = S - {b}"

fun cmd_bp :: "sw_cmd \<Rightarrow> SwBreakpoint" where
  "cmd_bp (SetBp b) = b"
| "cmd_bp (ClearBp b) = b"

text \<open>Host addresses a breakpoint covers; breakpoints that can be set together.\<close>

definition covers :: "hmem \<Rightarrow> SwBreakpoint \<Rightarrow> u64 \<Rightarrow> bool" where
  "covers m b x \<longleftrightarrow> unat (mem_base m) + unat (sb_addr b) \<le> unat x \<and>
     unat x < unat (mem_base m) + unat (sb_addr b) + unat (sb_kind b)"

definition compatible :: "hmem \<Rightarrow> SwBreakpoint set \<Rightarrow> bool" where
  "compatible m K \<longleftrightarrow> (\<forall>b\<in>K. debuggable m (sb_addr b) (unat (sb_kind b))) \<and>
     (\<forall>b\<in>K. \<forall>c\<in>K. b \<noteq> c \<longrightarrow> (\<forall>x. \<not> (covers m b x \<and> covers m c x)))"

text \<open>
  The guest's memory \<open>orig\<close> shows through everywhere but at the breakpoints, where the trap is, and
  the bytes it replaced are kept.
\<close>

definition sw_inv :: "hmem \<Rightarrow> ('k, 'i, 'a, 's) GdbUhyve \<Rightarrow> bool" where
  "sw_inv orig g \<longleftrightarrow>
     on_boot_tables (cpu_mem (g_vcpu g)) \<and> span (cpu_mem (g_vcpu g)) = span orig \<and> g_vm_start g = mem_base orig \<and>
     (\<forall>b saved. sw_breakpoints g b = Some saved \<longrightarrow> saved = read_bytes orig (mem_base orig + sb_addr b) (unat (sb_kind b))) \<and>
     (\<forall>x. mem_bytes (cpu_mem (g_vcpu g)) x = (if \<exists>b\<in>dom (sw_breakpoints g). covers orig b x then OPCODE else mem_bytes orig x))"

lemma sb_surjective [simp]: "\<lparr>sb_addr = sb_addr b, sb_kind = sb_kind b\<rparr> = b"
  by (cases b) simp

lemma debuggable_span: "span m = span m' \<Longrightarrow> debuggable m a n = debuggable m' a n"
  by (simp add: debuggable_def span_def)

lemma covers_write:
  assumes "on_boot_tables m" and "debuggable m (sb_addr b) (length bs)" and "length bs = unat (sb_kind b)" and "mem_base m = mem_base orig"
  shows "mem_bytes (write_bytes m (mem_base m + sb_addr b) bs) x =
    (if covers orig b x then bs ! (unat x - (unat (mem_base orig) + unat (sb_addr b))) else mem_bytes m x)"
  using memory_identity(3) [OF assms(1,2)] assms(3,4) by (simp add: write_bytes_def covers_def)

lemma covers_offset:
  assumes "on_boot_tables m" and "debuggable m (sb_addr b) n" and "n = unat (sb_kind b)" and "i < n"
  shows "covers m b (mem_base m + sb_addr b + of_nat i)"
    and "unat (mem_base m + sb_addr b + of_nat i) = unat (mem_base m) + unat (sb_addr b) + i"
proof -
  have "mem_wf m" using assms(1) by (simp add: on_boot_tables_def boot_memory_def)
  from in_mem_offset [OF this memory_identity(2) [OF assms(1,2)], of i] memory_identity(3) [OF assms(1,2)] assms(4)
  show "unat (mem_base m + sb_addr b + of_nat i) = unat (mem_base m) + unat (sb_addr b) + i" by simp
  then show "covers m b (mem_base m + sb_addr b + of_nat i)" using assms(3,4) by (simp add: covers_def)
qed

lemma covers_span: "span m = span m' \<Longrightarrow> covers m b x = covers m' b x"
  by (simp add: covers_def span_def)

lemma sw_set:
  assumes inv: "sw_inv orig g" and K: "compatible orig K" "dom (sw_breakpoints g) \<subseteq> K" "b \<in> K"
  shows "\<exists>g'. sw_step oc g (SetBp b) = Inr g' \<and> sw_inv orig g' \<and> dom (sw_breakpoints g') = insert b (dom (sw_breakpoints g))"
proof (cases "sw_breakpoints g b")
  case None
  let ?m = "cpu_mem (g_vcpu g)" and ?n = "unat (sb_kind b)"
  let ?p = "mem_base orig + sb_addr b"
  have m: "on_boot_tables ?m" "span ?m = span orig" "g_vm_start g = mem_base orig"
    and bytes: "\<And>x. mem_bytes ?m x = (if \<exists>b\<in>dom (sw_breakpoints g). covers orig b x then OPCODE else mem_bytes orig x)"
    using inv by (auto simp: sw_inv_def)
  have base: "mem_base ?m = mem_base orig" using m(2) by (simp add: span_def)
  have d: "debuggable ?m (sb_addr b) ?n" using K(1,3) by (simp add: compatible_def debuggable_span [OF m(2)])
  note at = memory_identity [OF m(1) d, unfolded base]
  have free: "\<not> (\<exists>c\<in>dom (sw_breakpoints g). covers orig c x)" if "covers orig b x" for x
    using that K None unfolding compatible_def by (metis domIff subsetD)
  have saved: "read_bytes ?m ?p ?n = read_bytes orig ?p ?n"
    using covers_offset [OF m(1) d refl] free bytes by (simp add: read_bytes_def base covers_span [OF m(2)])
  let ?g = "(set_cpu_mem g (write_bytes ?m ?p (replicate ?n OPCODE)))\<lparr>sw_breakpoints := (sw_breakpoints g)(b \<mapsto> read_bytes orig ?p ?n)\<rparr>"
  have step: "sw_step oc g (SetBp b) = Inr ?g"
    using None at saved by (simp add: add_sw_breakpoint_def Let_def m(3) load_bytes_def store_bytes_def)
  have cov: "mem_bytes (write_bytes ?m ?p (replicate ?n OPCODE)) x = (if covers orig b x then OPCODE else mem_bytes ?m x)" for x
    using covers_write [OF m(1), of b "replicate ?n OPCODE" orig x] d base by (auto simp: covers_def)
  have "sw_inv orig ?g"
    using inv on_boot_tables_write [OF m(1), of "sb_addr b" "replicate ?n OPCODE"] d cov bytes
    by (auto simp: sw_inv_def set_cpu_mem_def span_def base split: if_splits)
  moreover have "dom (sw_breakpoints ?g) = insert b (dom (sw_breakpoints g))" by auto
  ultimately show ?thesis using step by blast
next
  case (Some saved)
  then show ?thesis using inv by (auto simp: add_sw_breakpoint_def Let_def)
qed

lemma sw_clear:
  assumes inv: "sw_inv orig g" and K: "compatible orig K" "dom (sw_breakpoints g) \<subseteq> K" "b \<in> K"
  shows "\<exists>g'. sw_step oc g (ClearBp b) = Inr g' \<and> sw_inv orig g' \<and> dom (sw_breakpoints g') = dom (sw_breakpoints g) - {b}"
proof (cases "sw_breakpoints g b")
  case (Some saved)
  let ?m = "cpu_mem (g_vcpu g)" and ?n = "unat (sb_kind b)"
  let ?p = "mem_base orig + sb_addr b"
  have m: "on_boot_tables ?m" "span ?m = span orig" "g_vm_start g = mem_base orig"
    and bytes: "\<And>x. mem_bytes ?m x = (if \<exists>b\<in>dom (sw_breakpoints g). covers orig b x then OPCODE else mem_bytes orig x)"
    and saved: "saved = read_bytes orig ?p ?n"
    using inv Some by (auto simp: sw_inv_def)
  have base: "mem_base ?m = mem_base orig" using m(2) by (simp add: span_def)
  have d: "debuggable ?m (sb_addr b) ?n" using K(1,3) by (simp add: compatible_def debuggable_span [OF m(2)])
  note at = memory_identity [OF m(1) d, unfolded base]
  have others: "\<not> (\<exists>c\<in>dom (sw_breakpoints g) - {b}. covers orig c x)" if "covers orig b x" for x
    using that K unfolding compatible_def by (metis DiffE insertI1 subsetD)
  have len: "length saved = ?n" using saved by simp
  let ?g = "(set_cpu_mem g (write_bytes ?m ?p saved))\<lparr>sw_breakpoints := (sw_breakpoints g)(b := None)\<rparr>"
  have step: "sw_step oc g (ClearBp b) = Inr ?g"
    using Some at len by (simp add: remove_sw_breakpoint_def Let_def m(3) store_bytes_def)
  have orig: "saved ! (unat x - (unat (mem_base orig) + unat (sb_addr b))) = mem_bytes orig x" if "covers orig b x" for x
  proof -
    define i where "i = unat x - (unat (mem_base orig) + unat (sb_addr b))"
    have i: "i < ?n" "unat x = unat (mem_base orig) + unat (sb_addr b) + i" using that by (auto simp: i_def covers_def)
    have "x = ?p + of_nat i" using covers_offset(2) [OF m(1) d refl i(1)] i(2) by (simp add: base word_unat_eq_iff)
    then show ?thesis using i by (simp add: saved read_bytes_def i_def [symmetric])
  qed
  have cov: "mem_bytes (write_bytes ?m ?p saved) x = (if covers orig b x then mem_bytes orig x else mem_bytes ?m x)" for x
    using covers_write [OF m(1), of b saved orig x] d base len orig by simp
  have "mem_bytes (write_bytes ?m ?p saved) x = (if \<exists>c\<in>dom (sw_breakpoints g) - {b}. covers orig c x then OPCODE else mem_bytes orig x)" for x
    using cov [of x] others [of x] bytes [of x] by auto
  then have "sw_inv orig ?g"
    using inv on_boot_tables_write [OF m(1), of "sb_addr b" saved] d len m(2)
    by (simp add: sw_inv_def set_cpu_mem_def span_def base)
  moreover have "dom (sw_breakpoints ?g) = dom (sw_breakpoints g) - {b}" by auto
  ultimately show ?thesis using step by blast
next
  case None
  then show ?thesis using inv by (auto simp: remove_sw_breakpoint_def Let_def)
qed

lemma sw_exec_inv:
  assumes "compatible orig K" and "cmd_bp ` set cmds \<subseteq> K" and "sw_inv orig g" and "dom (sw_breakpoints g) \<subseteq> K"
  shows "\<exists>g'. for_each (sw_step oc) g cmds = Inr g' \<and> sw_inv orig g' \<and>
    dom (sw_breakpoints g') = fold (\<lambda>c S. sw_spec S c) cmds (dom (sw_breakpoints g))"
  using assms(2-4)
proof (induction cmds arbitrary: g)
  case (Cons c cmds)
  obtain g1 where g1: "sw_step oc g c = Inr g1" "sw_inv orig g1" "dom (sw_breakpoints g1) = sw_spec (dom (sw_breakpoints g)) c"
    using sw_set [OF Cons.prems(2) assms(1) Cons.prems(3), of "cmd_bp c" oc]
      sw_clear [OF Cons.prems(2) assms(1) Cons.prems(3), of "cmd_bp c" oc] Cons.prems(1) by (cases c) auto
  have "dom (sw_breakpoints g1) \<subseteq> K" using g1(3) Cons.prems(1,3) by (cases c) auto
  from Cons.IH [OF _ g1(2) this] Cons.prems(1) g1 show ?case by auto
qed auto


text \<open>A guest with the boot page tables in 16 MiB of memory.\<close>

definition sample_ram :: hmem where
  "sample_ram = \<lparr>mem_base = 0x7f0000000000, mem_size = 0x1000000, mem_bytes = (\<lambda>_. 0)\<rparr>"

lemma sample_boot: "\<exists>m. init_guest_mem oc sample_ram = Inr m \<and> on_boot_tables m \<and> span m = span sample_ram"
proof -
  have "mem_wf sample_ram" "0x13000 \<le> unat (mem_size sample_ram)" by (simp_all add: mem_wf_def sample_ram_def)
  from init_guest_mem_boot_memory [OF this, of oc] obtain m where m: "init_guest_mem oc sample_ram = Inr m" "boot_memory sample_ram m" by blast
  then have "on_boot_tables m"
    using boot_memory_self [OF m(2)] boot_memoryD(1,2) [OF m(2)] by (simp add: on_boot_tables_def sample_ram_def)
  then show ?thesis using m boot_memoryD(1,2) [OF m(2)] by (auto simp: span_def)
qed

definition sample_gdb :: "(unit, unit) Uhyve \<Rightarrow> hmem \<Rightarrow> (unit, unit, u64, nat) GdbUhyve" where
  "sample_gdb vm m = GdbUhyve_new vm (mem_base m) (sample_cpu\<lparr>cpu_mem := m\<rparr>)"

lemma sample_gdb_facts [simp]:
  "cpu_mem (g_vcpu (sample_gdb vm m)) = m" "g_vm_start (sample_gdb vm m) = mem_base m" "sw_breakpoints (sample_gdb vm m) = Map.empty"
  "hw_breakpoints (sample_gdb vm m) = replicate 4 None" "g_vcpu (sample_gdb vm m) = sample_cpu\<lparr>cpu_mem := m\<rparr>"
  by (simp_all add: sample_gdb_def GdbUhyve_new_def HwBreakpoints_new_def)


text \<open>
  Breakpoints that overlap are not: after setting a one-byte and a two-byte breakpoint at the same
  address and clearing them in the same order, no breakpoint is left, but the guest's instruction is
  overwritten by the trap.
\<close>

theorem overlapping_breakpoints_leave_trap:
  assumes "on_boot_tables (cpu_mem (g_vcpu g))" and "g_vm_start g = mem_base (cpu_mem (g_vcpu g))" and "sw_breakpoints g = Map.empty"
    and "debuggable (cpu_mem (g_vcpu g)) a 2"
  shows "\<exists>g'. for_each (sw_step oc) g [SetBp \<lparr>sb_addr = a, sb_kind = 1\<rparr>, SetBp \<lparr>sb_addr = a, sb_kind = 2\<rparr>,
      ClearBp \<lparr>sb_addr = a, sb_kind = 1\<rparr>, ClearBp \<lparr>sb_addr = a, sb_kind = 2\<rparr>] = Inr g' \<and>
    sw_breakpoints g' = Map.empty \<and> mem_bytes (cpu_mem (g_vcpu g')) (mem_base (cpu_mem (g_vcpu g)) + a) = OPCODE"
proof -
  define m where "m = cpu_mem (g_vcpu g)"
  define p where "p = mem_base m + a"
  have step: "on_boot_tables (write_bytes m' p bs)" "memory oc (mem_base m) m' a = Inr p" "in_mem m' p k" "unat p = unat (mem_base m) + unat a"
    if "on_boot_tables m'" "span m' = span m" "length bs \<le> 2" "k \<le> 2" for m' bs k
  proof -
    have d: "debuggable m' a (length bs)" "debuggable m' a k"
      using assms(4) that by (auto simp: debuggable_def span_def m_def [symmetric])
    have base: "mem_base m' = mem_base m" using that(2) by (simp add: span_def)
    show "on_boot_tables (write_bytes m' p bs)" using on_boot_tables_write [OF that(1) d(1)] by (simp add: base p_def)
    show "memory oc (mem_base m) m' a = Inr p" "in_mem m' p k" "unat p = unat (mem_base m) + unat a"
      using memory_identity [OF that(1) d(2)] by (simp_all add: base p_def)
  qed
  have sp: "span (write_bytes m' q bs) = span m'" for m' q bs by (simp add: span_def)
  define s1 s2 where "s1 = read_bytes m p 1" and "s2 = read_bytes (write_bytes m p [OPCODE]) p 2"
  define m1 where "m1 = write_bytes m p [OPCODE]"
  define m2 where "m2 = write_bytes m1 p [OPCODE, OPCODE]"
  define m3 where "m3 = write_bytes m2 p s1"
  have len: "length s1 = 1" "length s2 = 2" by (simp_all add: s1_def s2_def)
  have b0: "on_boot_tables m" using assms(1) by (simp add: m_def)
  have b1: "on_boot_tables m1" unfolding m1_def by (rule step(1) [where k = 0, OF b0]) simp_all
  have b2: "on_boot_tables m2" unfolding m2_def by (rule step(1) [where k = 0, OF b1]) (simp_all add: m1_def sp)
  have b3: "on_boot_tables m3" unfolding m3_def by (rule step(1) [where k = 0, OF b2]) (simp_all add: m1_def m2_def sp len)
  have sps: "span m1 = span m" "span m2 = span m" "span m3 = span m" by (simp_all add: m1_def m2_def m3_def sp)
  have "s2 ! 0 = OPCODE" by (simp add: s2_def read_bytes_def write_bytes_def)
  then have last: "mem_bytes (write_bytes m3 p s2) p = OPCODE" using len by (simp add: write_bytes_def)
  have rep: "replicate 2 OPCODE = [OPCODE, OPCODE]" by (simp add: numeral_2_eq_2)
  have at: "memory oc (mem_base m) m' a = Inr p \<and> in_mem m' p 1 \<and> in_mem m' p 2 \<and> in_mem m' p (Suc (Suc 0))"
    if "on_boot_tables m'" "span m' = span m" for m'
    using step(2,3) [OF that, of "[]" 1] step(3) [OF that, of "[]" 2] step(3) [OF that, of "[]" "Suc (Suc 0)"] by simp
  note mem = at [OF b0 refl] at [OF b1 sps(1)] at [OF b2 sps(2)] at [OF b3 sps(3)]
  have c1: "sw_step oc g (SetBp \<lparr>sb_addr = a, sb_kind = 1\<rparr>) = Inr ((set_cpu_mem g m1)\<lparr>sw_breakpoints := [\<lparr>sb_addr = a, sb_kind = 1\<rparr> \<mapsto> s1]\<rparr>)"
    using mem assms(2,3) by (simp add: add_sw_breakpoint_def Let_def load_bytes_def store_bytes_def m_def [symmetric] m1_def s1_def)
  let ?g1 = "(set_cpu_mem g m1)\<lparr>sw_breakpoints := [\<lparr>sb_addr = a, sb_kind = 1\<rparr> \<mapsto> s1]\<rparr>"
  let ?g2 = "(set_cpu_mem g m2)\<lparr>sw_breakpoints := [\<lparr>sb_addr = a, sb_kind = 1\<rparr> \<mapsto> s1, \<lparr>sb_addr = a, sb_kind = 2\<rparr> \<mapsto> s2]\<rparr>"
  let ?g3 = "(set_cpu_mem g m3)\<lparr>sw_breakpoints := [\<lparr>sb_addr = a, sb_kind = 2\<rparr> \<mapsto> s2]\<rparr>"
  let ?g4 = "(set_cpu_mem g (write_bytes m3 p s2))\<lparr>sw_breakpoints := Map.empty\<rparr>"
  note defs = add_sw_breakpoint_def remove_sw_breakpoint_def Let_def load_bytes_def store_bytes_def set_cpu_mem_def
  have c2: "sw_step oc ?g1 (SetBp \<lparr>sb_addr = a, sb_kind = 2\<rparr>) = Inr ?g2"
    using mem assms(2) rep by (simp add: defs m_def [symmetric] m1_def m2_def s2_def)
  have c3: "sw_step oc ?g2 (ClearBp \<lparr>sb_addr = a, sb_kind = 1\<rparr>) = Inr ?g3"
    using mem assms(2) len by (simp add: defs m_def [symmetric] m3_def fun_upd_twist)
  have c4: "sw_step oc ?g3 (ClearBp \<lparr>sb_addr = a, sb_kind = 2\<rparr>) = Inr ?g4"
    using mem assms(2) len by (simp add: defs m_def [symmetric])
  show ?thesis using c1 c2 c3 c4 last by (simp add: set_cpu_mem_def m_def [symmetric] p_def [symmetric])
qed

theorem overlapping_breakpoints_leave_trap_witness:
  "\<forall>vm. \<exists>m g'. init_guest_mem True sample_ram = Inr m \<and>
     for_each (sw_step True) (sample_gdb vm m) [SetBp \<lparr>sb_addr = 0x20000, sb_kind = 1\<rparr>, SetBp \<lparr>sb_addr = 0x20000, sb_kind = 2\<rparr>,
       ClearBp \<lparr>sb_addr = 0x20000, sb_kind = 1\<rparr>, ClearBp \<lparr>sb_addr = 0x20000, sb_kind = 2\<rparr>] = Inr g' \<and>
     mem_bytes (cpu_mem (g_vcpu g')) (mem_base m + 0x20000) = OPCODE"
proof
  fix vm :: "(unit, unit) Uhyve"
  obtain m where m: "init_guest_mem True sample_ram = Inr m" "on_boot_tables m" "span m = span sample_ram" using sample_boot by blast
  have "debuggable m 0x20000 2" using m(3) by (simp add: debuggable_def span_def sample_ram_def)
  then show "\<exists>m g'. init_guest_mem True sample_ram = Inr m \<and>
     for_each (sw_step True) (sample_gdb vm m) [SetBp \<lparr>sb_addr = 0x20000, sb_kind = 1\<rparr>, SetBp \<lparr>sb_addr = 0x20000, sb_kind = 2\<rparr>,
       ClearBp \<lparr>sb_addr = 0x20000, sb_kind = 1\<rparr>, ClearBp \<lparr>sb_addr = 0x20000, sb_kind = 2\<rparr>] = Inr g' \<and>
     mem_bytes (cpu_mem (g_vcpu g')) (mem_base m + 0x20000) = OPCODE"
    using overlapping_breakpoints_leave_trap [of "sample_gdb vm m" "0x20000" True] m by auto
qed

subsection \<open>Watchpoints\<close>



end
