(* ===== verification/Run_Linux.thy ===== *)
theory Run_Linux
  imports Gdb_Target Transitions
begin

text \<open>
  Running a virtual machine on Linux (\<^verbatim>\<open>src/linux/mod.rs\<close>): the thread of each virtual processor, the
  main thread, which waits for the first exit code, interrupts the other processors and collects
  the results, and the variant with a debugger. The threads are interleaved step by step.
\<close>

subsection \<open>The signal that interrupts a processor\<close>

definition RTSIG_OFFSET :: i32 where "RTSIG_OFFSET = 0"

definition KickSignal_get :: "bool \<Rightarrow> i32 \<Rightarrow> i32 \<Rightarrow> i32 res" where
  "KickSignal_get oc SIGRTMIN SIGRTMAX =
     and_then (sadd_oc oc SIGRTMIN RTSIG_OFFSET) (\<lambda>kick_signal.
     and_then (rust_assert (sint kick_signal \<le> sint SIGRTMAX)) (\<lambda>_.
     Inr kick_signal))"

definition register_handler :: "bool \<Rightarrow> i32 \<Rightarrow> i32 \<Rightarrow> (i32 \<Rightarrow> i32 + unit) \<Rightarrow> i32 failure + unit" where
  "register_handler oc SIGRTMIN SIGRTMAX signal_call =
     and_then (panics (KickSignal_get oc SIGRTMIN SIGRTMAX)) (\<lambda>sig. ioctl (signal_call sig))"

subsection \<open>Starting\<close>

text \<open>\<^verbatim>\<open>Uhyve::run\<close> up to the choice between the two ways of running: the machine with its kernel, or a panic.\<close>

definition Uhyve_run ::
  "'g goblin \<Rightarrow> bool \<Rightarrow> Host \<Rightarrow> i32 failure + unit \<Rightarrow> ('k, 'i) Uhyve \<Rightarrow> (bool \<times> ('k, 'i) Uhyve) res" where
  "Uhyve_run gob oc host handler vm =
     (case handler of
        Inl (Panic f) \<Rightarrow> Inl f
      | Inl (Err _) \<Rightarrow> Inl UnwrapFailed
      | Inr _ \<Rightarrow>
          (case load_kernel gob oc True host vm of
             Inl (Panic f) \<Rightarrow> Inl f
           | Inl (Err _) \<Rightarrow> Inl UnwrapFailed
           | Inr vm \<Rightarrow> Inr (uh_gdb_port vm = None, vm)))"

text \<open>The host core a processor is bound to.\<close>

definition local_cpu_affinity :: "'c list option \<Rightarrow> u32 \<Rightarrow> 'c option" where
  "local_cpu_affinity cpu_affinity cpu_id =
     Option.bind cpu_affinity (\<lambda>core_ids. if unat cpu_id < length core_ids then Some (core_ids ! unat cpu_id) else None)"

text \<open>Creating a processor and preparing it for the kernel; every error is a panic of the thread.\<close>

definition start_cpu ::
  "'v vcpu_fd \<Rightarrow> ('k \<Rightarrow> u64 \<Rightarrow> i32 + 'v) \<Rightarrow> ('k, 'i) Uhyve \<Rightarrow> u32 \<Rightarrow> ('v \<times> usize \<times> 'i UhyveCPU) res" where
  "start_cpu fd create_vcpu vm cpu_id =
     (case and_then (create_cpu create_vcpu vm cpu_id) (\<lambda>(vcpu, vm_start, c).
        map_ok (\<lambda>vcpu. (vcpu, vm_start, c)) (init fd vcpu (get_entry_point vm))) of
        Inl (Panic f) \<Rightarrow> Inl f
      | Inl (Err _) \<Rightarrow> Inl UnwrapFailed
      | Inr x \<Rightarrow> Inr x)"

subsection \<open>Threads\<close>

text \<open>
  Where the thread of a processor is: before its processor is ready, in the loop that waits for its
  predecessor, in the guest's startup code, in the guest afterwards, before the barrier with an
  exit code, blocked in it, finished with a result, or panicked.
\<close>

datatype vcpu_pc =
    Starting
  | Spinning
  | Booting
  | Up
  | AtBarrier i32
  | InBarrier i32
  | Finished "i32 option"
  | VcpuPanicked

text \<open>
  Where the main thread is: spawning, before the barrier, blocked in it, interrupting, joining with
  the exit codes collected so far, returned, or panicked.
\<close>

datatype main_pc =
    Spawn nat
  | BeforeBarrier
  | MainInBarrier
  | Kicking nat
  | Joining nat "i32 list"
  | Returned i32
  | MainPanicked

datatype who = MainThread | Vcpu nat

text \<open>The barrier for two threads remembers the thread that waits in it.\<close>

record run_state =
  rs_main :: main_pc
  rs_cpus :: "vcpu_pc list"
  rs_waiter :: "who option"
  rs_online :: u32

fun leave_barrier :: "who \<Rightarrow> run_state \<Rightarrow> run_state" where
  "leave_barrier MainThread s = s\<lparr>rs_main := Kicking 0\<rparr>"
| "leave_barrier (Vcpu i) s =
     s\<lparr>rs_cpus := (rs_cpus s)[i := (case rs_cpus s ! i of
        AtBarrier c \<Rightarrow> Finished (Some c) | InBarrier c \<Rightarrow> Finished (Some c) | pc \<Rightarrow> pc)]\<rparr>"

fun block :: "who \<Rightarrow> run_state \<Rightarrow> run_state" where
  "block MainThread s = s\<lparr>rs_main := MainInBarrier\<rparr>"
| "block (Vcpu i) s = s\<lparr>rs_cpus := (rs_cpus s)[i := (case rs_cpus s ! i of AtBarrier c \<Rightarrow> InBarrier c | pc \<Rightarrow> pc)]\<rparr>"

definition barrier_wait :: "who \<Rightarrow> run_state \<Rightarrow> run_state" where
  "barrier_wait t s =
     (case rs_waiter s of
        None \<Rightarrow> (block t s)\<lparr>rs_waiter := Some t\<rparr>
      | Some t' \<Rightarrow> leave_barrier t (leave_barrier t' (s\<lparr>rs_waiter := None\<rparr>)))"

text \<open>What the thread of a processor does with the result of \<^verbatim>\<open>run\<close>.\<close>

fun after_run :: "i32 failure + i32 option \<Rightarrow> vcpu_pc" where
  "after_run (Inr (Some code)) = AtBarrier code"
| "after_run (Inr None) = Finished None"
| "after_run (Inl (Err _)) = Finished None"
| "after_run (Inl (Panic _)) = VcpuPanicked"

text \<open>
  An interrupted processor leaves the guest, unless the signal comes while its thread is outside
  of the guest: then it has no effect. A thread that is not joined yet can always be signalled.
\<close>

definition kick :: "bool \<Rightarrow> vcpu_pc \<Rightarrow> vcpu_pc" where
  "kick in_guest pc = (if in_guest \<and> pc \<in> {Booting, Up} then after_run (Inr None) else pc)"

text \<open>A step of the main thread of a machine with \<open>n\<close> processors, unless it has to wait or is done.\<close>

definition main_step :: "nat \<Rightarrow> bool \<Rightarrow> run_state \<Rightarrow> run_state option" where
  "main_step n in_guest s =
     (case rs_main s of
        Spawn k \<Rightarrow> Some (if k < n then s\<lparr>rs_main := Spawn (k + 1), rs_cpus := rs_cpus s @ [Starting]\<rparr>
                         else s\<lparr>rs_main := BeforeBarrier\<rparr>)
      | BeforeBarrier \<Rightarrow> Some (barrier_wait MainThread s)
      | MainInBarrier \<Rightarrow> None
      | Kicking k \<Rightarrow> Some (if k < n then s\<lparr>rs_cpus := (rs_cpus s)[k := kick in_guest (rs_cpus s ! k)], rs_main := Kicking (k + 1)\<rparr>
                           else s\<lparr>rs_main := Joining 0 []\<rparr>)
      | Joining k codes \<Rightarrow>
          if k < n then
            (case rs_cpus s ! k of
               Finished r \<Rightarrow> Some (s\<lparr>rs_main := Joining (k + 1) (codes @ (case r of None \<Rightarrow> [] | Some c \<Rightarrow> [c]))\<rparr>)
             | VcpuPanicked \<Rightarrow> Some (s\<lparr>rs_main := MainPanicked\<rparr>)
             | _ \<Rightarrow> None)
          else Some (s\<lparr>rs_main := if length codes = 1 then Returned (codes ! 0) else MainPanicked\<rparr>)
      | Returned _ \<Rightarrow> None
      | MainPanicked \<Rightarrow> None)"

text \<open>
  A step of the thread of processor \<open>i\<close>: \<open>ready\<close> tells whether its processor can be prepared, \<open>result\<close> is
  what \<^verbatim>\<open>run\<close> returns if it returns now. A guest in its startup code may announce that the next
  processor can start.
\<close>

definition vcpu_step :: "nat \<Rightarrow> bool \<Rightarrow> (i32 failure + i32 option) option \<Rightarrow> run_state \<Rightarrow> run_state option" where
  "vcpu_step i ready result s =
     (let goto = (\<lambda>pc. s\<lparr>rs_cpus := (rs_cpus s)[i := pc]\<rparr>) in
      case rs_cpus s ! i of
        Starting \<Rightarrow> Some (goto (if ready then Spinning else VcpuPanicked))
      | Spinning \<Rightarrow> if of_nat i \<noteq> rs_online s then None else Some (goto Booting)
      | Booting \<Rightarrow> Some (case result of Some r \<Rightarrow> goto (after_run r) | None \<Rightarrow> (goto Up)\<lparr>rs_online := rs_online s + 1\<rparr>)
      | Up \<Rightarrow> map_option (\<lambda>r. goto (after_run r)) result
      | AtBarrier _ \<Rightarrow> Some (barrier_wait (Vcpu i) s)
      | InBarrier _ \<Rightarrow> None
      | Finished _ \<Rightarrow> None
      | VcpuPanicked \<Rightarrow> None)"

text \<open>
  The interleaved machine: \<open>ready i\<close> tells whether processor \<open>i\<close> can be prepared, \<open>outcome i\<close> which
  results its \<^verbatim>\<open>run\<close> can have.
\<close>

inductive run_step :: "nat \<Rightarrow> (nat \<Rightarrow> bool) \<Rightarrow> (nat \<Rightarrow> i32 failure + i32 option \<Rightarrow> bool) \<Rightarrow> run_state \<Rightarrow> run_state \<Rightarrow> bool"
  for n ready outcome where
  main: "main_step n in_guest s = Some s' \<Longrightarrow> run_step n ready outcome s s'"
| vcpu: "i < length (rs_cpus s) \<Longrightarrow> pred_option (outcome i) result \<Longrightarrow> vcpu_step i (ready i) result s = Some s' \<Longrightarrow>
    run_step n ready outcome s s'"

inductive_cases run_stepE: "run_step n ready outcome s s'"

definition run_start :: "run_state \<Rightarrow> bool" where
  "run_start s \<longleftrightarrow> s = \<lparr>rs_main = Spawn 0, rs_cpus = [], rs_waiter = None, rs_online = 0\<rparr>"

subsection \<open>Running with a debugger\<close>

datatype DisconnectReason = TargetExited u8 | TargetTerminated u8 | Disconnected | Killed

fun disconnect_code :: "DisconnectReason \<Rightarrow> i32 res" where
  "disconnect_code (TargetExited code) = Inr (ucast code)"
| "disconnect_code (TargetTerminated _) = Inl UnreachableCode"
| "disconnect_code Disconnected = Inr 0"
| "disconnect_code Killed = Inr 0"

text \<open>
  Processor 0 runs under the stub, which is an argument: it gets the target and the host and gives
  the reason of the end of the session, if it ends.
\<close>

definition run_gdb ::
  "'v vcpu_fd \<Rightarrow> ('k \<Rightarrow> u64 \<Rightarrow> i32 + 'v) \<Rightarrow> (u16 \<Rightarrow> io_error + 'c) \<Rightarrow>
     ('c \<Rightarrow> 'v \<times> ('k, 'i, 'a, 's) GdbUhyve \<Rightarrow> (unit + DisconnectReason) option) \<Rightarrow> ('k, 'i) Uhyve \<Rightarrow> i32 res option" where
  "run_gdb fd create_vcpu wait_for_gdb_connection run_blocking vm =
     (case start_cpu fd create_vcpu vm 0 of
        Inl f \<Rightarrow> Some (Inl f)
      | Inr (vcpu, vm_start, c) \<Rightarrow>
          (case uh_gdb_port vm of
             None \<Rightarrow> Some (Inl UnwrapFailed)
           | Some p \<Rightarrow>
               (case wait_for_gdb_connection p of
                  Inl _ \<Rightarrow> Some (Inl UnwrapFailed)
                | Inr connection \<Rightarrow>
                    map_option (\<lambda>r. case r of Inl _ \<Rightarrow> Inl UnwrapFailed | Inr reason \<Rightarrow> disconnect_code reason)
                      (run_blocking connection (vcpu, GdbUhyve_new vm vm_start c)))))"

subsection \<open>Invariants\<close>

definition codes_of :: "vcpu_pc list \<Rightarrow> i32 list" where
  "codes_of pcs = List.map_filter (\<lambda>pc. case pc of Finished r \<Rightarrow> r | _ \<Rightarrow> None) pcs"

definition finished :: "vcpu_pc \<Rightarrow> bool" where
  "finished pc \<longleftrightarrow> (\<exists>r. pc = Finished r)"

text \<open>
  What holds of processor \<open>i\<close> when \<open>k\<close> processors are announced: the processors start one after the
  other, and every exit code is one the guest gave.
\<close>

definition cpu_ok :: "(nat \<Rightarrow> i32 failure + i32 option \<Rightarrow> bool) \<Rightarrow> nat \<Rightarrow> nat \<Rightarrow> vcpu_pc \<Rightarrow> bool" where
  "cpu_ok outcome k i pc =
     (case pc of
        Starting \<Rightarrow> k \<le> i
      | Spinning \<Rightarrow> k \<le> i
      | Booting \<Rightarrow> k = i
      | Up \<Rightarrow> i < k
      | AtBarrier c \<Rightarrow> outcome i (Inr (Some c))
      | InBarrier c \<Rightarrow> outcome i (Inr (Some c))
      | Finished r \<Rightarrow> (\<forall>c. r = Some c \<longrightarrow> outcome i (Inr (Some c)))
      | VcpuPanicked \<Rightarrow> True)"

definition main_ok :: "nat \<Rightarrow> main_pc \<Rightarrow> vcpu_pc list \<Rightarrow> bool" where
  "main_ok n pc cpus =
     (case pc of
        Spawn k \<Rightarrow> length cpus = k \<and> k \<le> n
      | Joining k codes \<Rightarrow> length cpus = n \<and> k \<le> n \<and> list_all finished (take k cpus) \<and> codes = codes_of (take k cpus)
      | Returned c \<Rightarrow> length cpus = n \<and> list_all finished cpus \<and> codes_of cpus = [c]
      | _ \<Rightarrow> length cpus = n)"

definition barrier_ok :: "run_state \<Rightarrow> bool" where
  "barrier_ok s \<longleftrightarrow>
     (rs_waiter s = Some MainThread \<longleftrightarrow> rs_main s = MainInBarrier) \<and>
     (\<forall>i. rs_waiter s = Some (Vcpu i) \<longleftrightarrow> i < length (rs_cpus s) \<and> (\<exists>c. rs_cpus s ! i = InBarrier c))"

definition run_inv :: "nat \<Rightarrow> (nat \<Rightarrow> i32 failure + i32 option \<Rightarrow> bool) \<Rightarrow> run_state \<Rightarrow> bool" where
  "run_inv n outcome s \<longleftrightarrow>
     main_ok n (rs_main s) (rs_cpus s) \<and> barrier_ok s \<and> unat (rs_online s) \<le> length (rs_cpus s) \<and>
     (\<forall>i<length (rs_cpus s). cpu_ok outcome (unat (rs_online s)) i (rs_cpus s ! i))"

lemma codes_of_append: "codes_of (xs @ ys) = codes_of xs @ codes_of ys"
  by (simp add: codes_of_def List.map_filter_def)

lemma codes_of_take_Suc:
  assumes "k < length cpus" and "cpus ! k = Finished r"
  shows "codes_of (take (Suc k) cpus) = codes_of (take k cpus) @ (case r of None \<Rightarrow> [] | Some c \<Rightarrow> [c])"
  using assms by (cases r) (simp_all add: take_Suc_conv_app_nth codes_of_append, simp_all add: codes_of_def List.map_filter_simps)

lemma main_ok_length: "main_ok n pc cpus \<Longrightarrow> length cpus \<le> n"
  by (auto simp: main_ok_def split: main_pc.splits)

lemma main_ok_update:
  assumes "main_ok n pc cpus" and "i < length cpus" and "\<not> finished (cpus ! i)"
  shows "main_ok n pc (cpus[i := x])"
proof (cases pc)
  case (Joining k codes)
  have "\<not> i < k"
  proof
    assume "i < k"
    then have "cpus ! i \<in> set (take k cpus)" using assms(2) by (metis in_set_conv_nth length_take min_less_iff_conj nth_take)
    then show False using assms Joining by (auto simp: main_ok_def list_all_iff)
  qed
  then show ?thesis using assms Joining by (simp add: main_ok_def)
next
  case (Returned c)
  then show ?thesis using assms by (auto simp: main_ok_def list_all_length)
qed (use assms in \<open>auto simp: main_ok_def\<close>)

text \<open>A processor moves on, outside of the barrier.\<close>

lemma run_inv_goto:
  assumes "run_inv n outcome s" and "i < length (rs_cpus s)" and "\<not> finished (rs_cpus s ! i)"
    and "\<forall>c. rs_cpus s ! i \<noteq> InBarrier c" and "\<forall>c. pc \<noteq> InBarrier c" and "cpu_ok outcome (unat (rs_online s)) i pc"
  shows "run_inv n outcome (s\<lparr>rs_cpus := (rs_cpus s)[i := pc]\<rparr>)"
  using assms main_ok_update [of n "rs_main s" "rs_cpus s" i pc]
  by (auto simp: run_inv_def barrier_ok_def nth_list_update)

lemma cpu_ok_after_run: "outcome i r \<Longrightarrow> cpu_ok outcome k i (after_run r)"
  by (cases r rule: after_run.cases) (auto simp: cpu_ok_def)

lemma after_run_not_in: "after_run r \<noteq> InBarrier c"
  by (cases r rule: after_run.cases) auto

lemma main_ok_kicking: "main_ok n BeforeBarrier cpus \<or> main_ok n MainInBarrier cpus \<Longrightarrow> main_ok n (Kicking 0) cpus"
  by (auto simp: main_ok_def)

lemma not_finished_simps [simp]:
  "\<not> finished Starting" "\<not> finished Spinning" "\<not> finished Booting" "\<not> finished Up" "\<not> finished (AtBarrier c)" "\<not> finished (InBarrier c)"
  "\<not> finished VcpuPanicked" "finished (Finished r)"
  by (simp_all add: finished_def)

lemma barrier_waiter:
  assumes "run_inv n outcome s" and "rs_waiter s = Some (Vcpu j)"
  shows "\<exists>c. j < length (rs_cpus s) \<and> rs_cpus s ! j = InBarrier c"
    and "i < length (rs_cpus s) \<Longrightarrow> rs_cpus s ! i = InBarrier d \<Longrightarrow> i = j"
  using assms unfolding run_inv_def barrier_ok_def by (metis who.inject option.inject)+

lemma barrier_ok_free:
  "rs_waiter s = None \<Longrightarrow>
     barrier_ok s \<longleftrightarrow> rs_main s \<noteq> MainInBarrier \<and> (\<forall>i<length (rs_cpus s). \<forall>c. rs_cpus s ! i \<noteq> InBarrier c)"
  by (auto simp: barrier_ok_def)

lemma cpu_ok_leave:
  "cpu_ok outcome k i (AtBarrier c) \<or> cpu_ok outcome k i (InBarrier c) \<Longrightarrow> cpu_ok outcome k i (Finished (Some c))"
  by (auto simp: cpu_ok_def)

lemma run_invD:
  assumes "run_inv n outcome s"
  shows "main_ok n (rs_main s) (rs_cpus s)" and "barrier_ok s" and "unat (rs_online s) \<le> length (rs_cpus s)"
    and "i < length (rs_cpus s) \<Longrightarrow> cpu_ok outcome (unat (rs_online s)) i (rs_cpus s ! i)"
  using assms by (simp_all add: run_inv_def)

lemma barrier_main:
  assumes "run_inv n outcome s" and "rs_main s = BeforeBarrier"
  shows "run_inv n outcome (barrier_wait MainThread s)"
proof (cases "rs_waiter s")
  case None
  then show ?thesis using assms by (auto simp: barrier_wait_def run_inv_def barrier_ok_def main_ok_def)
next
  case (Some t)
  then obtain j where t: "t = Vcpu j" using assms by (cases t) (auto simp: run_inv_def barrier_ok_def)
  note only = barrier_waiter(2) [OF assms(1) Some [unfolded t]]
  obtain c where j: "j < length (rs_cpus s)" "rs_cpus s ! j = InBarrier c" using barrier_waiter(1) [OF assms(1) Some [unfolded t]] by blast
  have "main_ok n BeforeBarrier ((rs_cpus s)[j := Finished (Some c)])"
    using assms j main_ok_update [of n BeforeBarrier "rs_cpus s" j] by (simp add: run_inv_def)
  then have "main_ok n (Kicking 0) ((rs_cpus s)[j := Finished (Some c)])" by (simp add: main_ok_def)
  moreover have "cpu_ok outcome (unat (rs_online s)) j (Finished (Some c))"
    using run_invD(4) [OF assms(1) j(1)] j(2) cpu_ok_leave by metis
  moreover have "(rs_cpus s)[j := Finished (Some c)] ! i \<noteq> InBarrier d" if "i < length (rs_cpus s)" for i d
    using that only [of i d] by (cases "i = j") auto
  moreover have "barrier_wait MainThread s = s\<lparr>rs_waiter := None, rs_cpus := (rs_cpus s)[j := Finished (Some c)], rs_main := Kicking 0\<rparr>"
    using Some t j by (simp add: barrier_wait_def)
  ultimately show ?thesis
    using j(1) run_invD(3,4) [OF assms(1)] by (simp add: run_inv_def barrier_ok_free nth_list_update)
qed

lemma barrier_vcpu:
  assumes "run_inv n outcome s" and "i < length (rs_cpus s)" and "rs_cpus s ! i = AtBarrier c"
  shows "run_inv n outcome (barrier_wait (Vcpu i) s)"
proof -
  have ok: "cpu_ok outcome (unat (rs_online s)) i (Finished (Some c))" "cpu_ok outcome (unat (rs_online s)) i (InBarrier c)"
    using run_invD(4) [OF assms(1,2)] assms(3) by (auto simp: cpu_ok_def)
  have upd: "main_ok n pc ((rs_cpus s)[i := x])" if "main_ok n pc (rs_cpus s)" for x pc
    using main_ok_update [OF that assms(2)] assms(3) by simp
  show ?thesis
  proof (cases "rs_waiter s")
    case None
    then have "\<forall>j<length (rs_cpus s). \<forall>d. rs_cpus s ! j \<noteq> InBarrier d" "rs_main s \<noteq> MainInBarrier"
      using run_invD(2) [OF assms(1)] by (simp_all add: barrier_ok_free)
    then show ?thesis
      using None assms(2,3) ok upd [OF run_invD(1) [OF assms(1)]] run_invD(3,4) [OF assms(1)]
      by (auto simp: barrier_wait_def run_inv_def barrier_ok_def nth_list_update)
  next
    case (Some t)
    show ?thesis
    proof (cases t)
      case MainThread
      then have wait: "rs_main s = MainInBarrier" "\<forall>j<length (rs_cpus s). \<forall>d. rs_cpus s ! j \<noteq> InBarrier d"
        using run_invD(2) [OF assms(1)] Some by (auto simp: barrier_ok_def)
      then have "main_ok n (Kicking 0) ((rs_cpus s)[i := Finished (Some c)])"
        using upd [OF run_invD(1) [OF assms(1)]] main_ok_kicking by metis
      moreover have "barrier_wait (Vcpu i) s = s\<lparr>rs_waiter := None, rs_main := Kicking 0, rs_cpus := (rs_cpus s)[i := Finished (Some c)]\<rparr>"
        using Some MainThread assms(3) by (simp add: barrier_wait_def)
      ultimately show ?thesis
        using assms(2) wait ok run_invD(3,4) [OF assms(1)] by (simp add: run_inv_def barrier_ok_free nth_list_update)
    next
      case (Vcpu j)
      note only = barrier_waiter(2) [OF assms(1) Some [unfolded Vcpu]]
      obtain d where "j < length (rs_cpus s)" "rs_cpus s ! j = InBarrier d"
        using barrier_waiter(1) [OF assms(1) Some [unfolded Vcpu]] by blast
      moreover from this(2) have "j \<noteq> i" using assms(3) by auto
      ultimately have j: "j < length (rs_cpus s)" "rs_cpus s ! j = InBarrier d" "j \<noteq> i" by simp_all
      have okj: "cpu_ok outcome (unat (rs_online s)) j (Finished (Some d))"
        using run_invD(4) [OF assms(1) j(1)] j(2) cpu_ok_leave by metis
      have "main_ok n (rs_main s) ((rs_cpus s)[j := Finished (Some d)])"
        using main_ok_update [OF run_invD(1) [OF assms(1)] j(1)] j(2) by simp
      from main_ok_update [OF this, of i "Finished (Some c)"] assms(2,3) j(3)
      have "main_ok n (rs_main s) ((rs_cpus s)[j := Finished (Some d), i := Finished (Some c)])" by simp
      moreover have "(rs_cpus s)[j := Finished (Some d), i := Finished (Some c)] ! k \<noteq> InBarrier e" if "k < length (rs_cpus s)" for k e
      proof
        assume in_b: "(rs_cpus s)[j := Finished (Some d), i := Finished (Some c)] ! k = InBarrier e"
        then have "k \<noteq> i" "k \<noteq> j" using assms(2) j(1) by (auto simp: nth_list_update split: if_splits)
        then show False using only [OF that] in_b by simp
      qed
      moreover have "rs_main s \<noteq> MainInBarrier" using run_invD(2) [OF assms(1)] Some Vcpu by (auto simp: barrier_ok_def)
      moreover have "barrier_wait (Vcpu i) s = s\<lparr>rs_waiter := None, rs_cpus := (rs_cpus s)[j := Finished (Some d), i := Finished (Some c)]\<rparr>"
        using Some Vcpu assms(2,3) j by (simp add: barrier_wait_def)
      moreover have "cpu_ok outcome (unat (rs_online s)) k ((rs_cpus s)[j := Finished (Some d), i := Finished (Some c)] ! k)"
        if "k < length (rs_cpus s)" for k
        using that ok(1) okj run_invD(4) [OF assms(1) that] by (cases "k = i"; cases "k = j"; simp)
      ultimately show ?thesis
        using run_invD(3) [OF assms(1)] by (simp add: run_inv_def barrier_ok_free)
    qed
  qed
qed

lemma vcpu_step_inv:
  assumes "run_inv n outcome s" and "i < length (rs_cpus s)" and "pred_option (outcome i) result" and "n < 2 ^ 32"
    and "vcpu_step i r result s = Some s'"
  shows "run_inv n outcome s'"
proof -
  have len: "length (rs_cpus s) \<le> n" using assms(1) main_ok_length by (auto simp: run_inv_def)
  then have i: "unat (of_nat i :: u32) = i" using assms(2,4) by (intro unat_of_nat_less) simp
  note goto = run_inv_goto [OF assms(1,2)]
  have ok: "cpu_ok outcome (unat (rs_online s)) i (rs_cpus s ! i)" using assms(1,2) by (simp add: run_inv_def)
  show ?thesis
  proof (cases "rs_cpus s ! i")
    case Booting
    show ?thesis
    proof (cases result)
      case None
      have k: "unat (rs_online s) = i" using ok Booting by (simp add: cpu_ok_def)
      then have k1: "unat (rs_online s + 1) = Suc i"
        using assms(2,4) len by (subst unat_add_no_overflow) (simp_all)
      have s': "s' = s\<lparr>rs_cpus := (rs_cpus s)[i := Up], rs_online := rs_online s + 1\<rparr>"
        using assms(5) Booting None by (simp add: vcpu_step_def Let_def)
      have "cpu_ok outcome (Suc i) j ((rs_cpus s)[i := Up] ! j)" if "j < length (rs_cpus s)" for j
      proof -
        have "cpu_ok outcome i j (rs_cpus s ! j)" using assms(1) that k by (simp add: run_inv_def)
        then show ?thesis using that assms(2) Booting by (cases "j = i") (auto simp: cpu_ok_def nth_list_update split: vcpu_pc.splits)
      qed
      then show ?thesis
        using assms(1,2) main_ok_update [of n "rs_main s" "rs_cpus s" i Up] Booting k1
        by (auto simp: run_inv_def s' barrier_ok_def nth_list_update)
    next
      case (Some x)
      then show ?thesis
        using goto [of "after_run x"] assms(3,5) Booting by (auto simp: vcpu_step_def Let_def cpu_ok_after_run after_run_not_in)
    qed
  next
    case Starting
    then show ?thesis using goto [of "if r then Spinning else VcpuPanicked"] ok assms(5) by (auto simp: vcpu_step_def Let_def cpu_ok_def)
  next
    case Spinning
    then have "unat (rs_online s) = i" using assms(5) i by (auto simp: vcpu_step_def Let_def split: if_splits)
    then show ?thesis using goto [of Booting] assms(5) Spinning by (auto simp: vcpu_step_def Let_def cpu_ok_def split: if_splits)
  next
    case Up
    then obtain x where "result = Some x" "s' = s\<lparr>rs_cpus := (rs_cpus s)[i := after_run x]\<rparr>" using assms(5) by (auto simp: vcpu_step_def Let_def)
    then show ?thesis using goto [of "after_run x"] assms(3) Up by (simp add: cpu_ok_after_run after_run_not_in)
  next
    case (AtBarrier c)
    then show ?thesis using barrier_vcpu [OF assms(1,2) AtBarrier] assms(5) by (simp add: vcpu_step_def)
  qed (use assms(5) in \<open>auto simp: vcpu_step_def\<close>)
qed

lemma run_inv_main:
  assumes "run_inv n outcome s" and "main_ok n pc (rs_cpus s)" and "rs_main s \<noteq> MainInBarrier" and "pc \<noteq> MainInBarrier"
  shows "run_inv n outcome (s\<lparr>rs_main := pc\<rparr>)"
  using assms by (simp add: run_inv_def barrier_ok_def)

lemma run_inv_spawn:
  assumes "run_inv n outcome s" and "rs_main s = Spawn k" and "k < n"
  shows "run_inv n outcome (s\<lparr>rs_main := Spawn (k + 1), rs_cpus := rs_cpus s @ [Starting]\<rparr>)"
proof -
  have k: "length (rs_cpus s) = k" using run_invD(1) [OF assms(1)] assms(2) by (simp add: main_ok_def)
  have "barrier_ok (s\<lparr>rs_main := Spawn (k + 1), rs_cpus := rs_cpus s @ [Starting]\<rparr>)"
    using run_invD(2) [OF assms(1)] assms(2) by (auto simp: barrier_ok_def nth_append)
  moreover have "cpu_ok outcome (unat (rs_online s)) i ((rs_cpus s @ [Starting]) ! i)" if "i < Suc k" for i
    using that k run_invD(3,4) [OF assms(1)] by (auto simp: nth_append cpu_ok_def less_Suc_eq)
  ultimately show ?thesis using run_invD(3) [OF assms(1)] assms(3) k by (simp add: run_inv_def main_ok_def)
qed

lemma main_step_inv:
  assumes "run_inv n outcome s" and "main_step n in_guest s = Some s'"
  shows "run_inv n outcome s'"
proof -
  note ok = run_invD(1) [OF assms(1)] and to = run_inv_main [OF assms(1)]
  show ?thesis
  proof (cases "rs_main s")
    case (Spawn k)
    show ?thesis
    proof (cases "k < n")
      case True
      then show ?thesis using run_inv_spawn [OF assms(1) Spawn] assms(2) Spawn by (simp add: main_step_def)
    next
      case False
      then show ?thesis using to [of BeforeBarrier] ok assms(2) Spawn by (auto simp: main_step_def main_ok_def)
    qed
  next
    case BeforeBarrier
    then show ?thesis using barrier_main [OF assms(1) BeforeBarrier] assms(2) by (simp add: main_step_def)
  next
    case (Kicking k)
    then have len: "length (rs_cpus s) = n" using ok by (simp add: main_ok_def)
    show ?thesis
    proof (cases "k < n")
      case True
      have "run_inv n outcome (s\<lparr>rs_cpus := (rs_cpus s)[k := kick in_guest (rs_cpus s ! k)]\<rparr>)"
      proof (cases "in_guest \<and> rs_cpus s ! k \<in> {Booting, Up}")
        case True
        then show ?thesis using run_inv_goto [OF assms(1), of k "Finished None"] len \<open>k < n\<close> by (auto simp: kick_def cpu_ok_def)
      next
        case False
        then have "kick in_guest (rs_cpus s ! k) = rs_cpus s ! k" by (simp only: kick_def if_False)
        then show ?thesis using assms(1) by simp
      qed
      from run_inv_main [OF this, of "Kicking (k + 1)"] True Kicking assms(2) len show ?thesis
        by (simp add: main_step_def main_ok_def)
    next
      case False
      then show ?thesis using to [of "Joining 0 []"] len assms(2) Kicking by (auto simp: main_step_def main_ok_def codes_of_def List.map_filter_simps)
    qed
  next
    case (Joining k codes)
    then have len: "length (rs_cpus s) = n" "k \<le> n" and fin: "list_all finished (take k (rs_cpus s))" "codes = codes_of (take k (rs_cpus s))"
      using ok by (simp_all add: main_ok_def)
    show ?thesis
    proof (cases "k < n")
      case True
      show ?thesis
      proof (cases "rs_cpus s ! k")
        case (Finished r)
        have "main_ok n (Joining (k + 1) (codes @ (case r of None \<Rightarrow> [] | Some c \<Rightarrow> [c]))) (rs_cpus s)"
          using True len fin Finished codes_of_take_Suc [of k "rs_cpus s" r] by (simp add: main_ok_def take_Suc_conv_app_nth)
        from to [OF this] Joining True Finished assms(2) show ?thesis by (simp add: main_step_def)
      next
        case VcpuPanicked
        then show ?thesis using to [of MainPanicked] Joining True len assms(2) by (auto simp: main_step_def main_ok_def)
      qed (use Joining True assms(2) in \<open>simp_all add: main_step_def\<close>)
    next
      case False
      then have all: "take k (rs_cpus s) = rs_cpus s" using len by simp
      have "main_ok n (if length codes = 1 then Returned (codes ! 0) else MainPanicked) (rs_cpus s)"
        using len fin all by (auto simp: main_ok_def length_Suc_conv)
      from to [OF this] Joining False assms(2) show ?thesis by (auto simp: main_step_def)
    qed
  qed (use assms(2) in \<open>simp_all add: main_step_def\<close>)
qed

lemma run_reach_inv:
  assumes "reach run_start (run_step n ready outcome) s" and "n < 2 ^ 32"
  shows "run_inv n outcome s"
  using assms(1)
proof (induction rule: reach_invariant)
  case (start s)
  then show ?case by (simp add: run_start_def run_inv_def main_ok_def barrier_ok_def)
next
  case (step s s')
  from step(3) step(2) show ?case
    by (elim run_stepE) (blast intro: main_step_inv vcpu_step_inv [OF _ _ _ assms(2)])+
qed

text \<open>
  C5. The result of a run is the guest's: when the main thread returns, every processor has finished,
  exactly one of them with an exit code, and the main thread returns this code, which the guest gave.
\<close>

theorem run_returns_exit_code:
  assumes "reach run_start (run_step n ready outcome) s" and "n < 2 ^ 32" and "rs_main s = Returned code"
  shows "\<exists>i<n. rs_cpus s ! i = Finished (Some code) \<and> outcome i (Inr (Some code)) \<and>
    (\<forall>j<n. j \<noteq> i \<longrightarrow> rs_cpus s ! j = Finished None)"
proof -
  have inv: "run_inv n outcome s" by (rule run_reach_inv [OF assms(1,2)])
  then have len: "length (rs_cpus s) = n" and fin: "list_all finished (rs_cpus s)" and codes: "codes_of (rs_cpus s) = [code]"
    using assms(3) by (simp_all add: run_inv_def main_ok_def)
  have codes': "\<exists>xs ys. cpus = xs @ Finished (Some code) # ys \<and> (\<forall>pc\<in>set xs \<union> set ys. pc = Finished None)"
    if "list_all finished cpus" "codes_of cpus = [code]" for cpus
    using that
  proof (induction cpus)
    case (Cons pc cpus)
    then obtain r where r: "pc = Finished r" by (auto simp: finished_def)
    show ?case
    proof (cases r)
      case None
      with Cons r obtain xs ys where "cpus = xs @ Finished (Some code) # ys" "\<forall>pc\<in>set xs \<union> set ys. pc = Finished None"
        by (auto simp: codes_of_def List.map_filter_simps)
      with None r show ?thesis by (intro exI [of _ "pc # xs"] exI [of _ ys]) auto
    next
      case (Some c)
      with Cons.prems r have "codes_of cpus = []" "c = code" "list_all finished cpus" by (auto simp: codes_of_def List.map_filter_simps)
      then have "\<forall>pc\<in>set cpus. pc = Finished None"
        by (induction cpus) (auto simp: codes_of_def List.map_filter_simps finished_def split: option.splits)
      with Some r \<open>c = code\<close> show ?thesis by (intro exI [of _ "[]"] exI [of _ cpus]) auto
    qed
  qed (simp add: codes_of_def List.map_filter_simps)
  obtain xs ys where split: "rs_cpus s = xs @ Finished (Some code) # ys" "\<forall>pc\<in>set xs \<union> set ys. pc = Finished None"
    using codes' [OF fin codes] by blast
  have i: "length xs < n" "rs_cpus s ! length xs = Finished (Some code)" using split(1) len by auto
  have "outcome (length xs) (Inr (Some code))" using run_invD(4) [OF inv, of "length xs"] i len by (simp add: cpu_ok_def)
  moreover have "rs_cpus s ! j = Finished None" if "j < n" "j \<noteq> length xs" for j
    using that split(1) len by (auto simp: nth_append nth_Cons' intro!: split(2) [rule_format] nth_mem)
  ultimately show ?thesis using i by blast
qed

text \<open>A run of a machine with one processor, from the start to the return of the main thread.\<close>

lemma single_run:
  assumes "ready 0" and "outcome 0 (Inr (Some c))"
  shows "reach run_start (run_step 1 ready outcome) \<lparr>rs_main = Returned c, rs_cpus = [Finished (Some c)], rs_waiter = None, rs_online = 0\<rparr>"
proof -
  let ?S = "\<lambda>m cpus w. \<lparr>rs_main = m, rs_cpus = cpus, rs_waiter = w, rs_online = 0\<rparr>"
  let ?R = "reach run_start (run_step 1 ready outcome)"
  have main: "?R s \<Longrightarrow> main_step 1 True s = Some s' \<Longrightarrow> ?R s'" for s s'
    by (erule reach.next_step) (erule run_step.main)
  have vcpu: "?R s \<Longrightarrow> 0 < length (rs_cpus s) \<Longrightarrow> vcpu_step 0 True (Some (Inr (Some c))) s = Some s' \<Longrightarrow> ?R s'" for s s'
    by (erule reach.next_step, rule run_step.vcpu [where i = 0 and result = "Some (Inr (Some c))"]) (simp_all add: assms)
  have "?R (?S (Spawn 0) [] None)" by (rule reach.start) (simp add: run_start_def)
  then have "?R (?S (Spawn 1) [Starting] None)" by (rule main) (simp add: main_step_def)
  then have "?R (?S BeforeBarrier [Starting] None)" by (rule main) (simp add: main_step_def)
  then have "?R (?S BeforeBarrier [Spinning] None)" by (rule vcpu) (simp_all add: vcpu_step_def)
  then have "?R (?S BeforeBarrier [Booting] None)" by (rule vcpu) (simp_all add: vcpu_step_def)
  then have "?R (?S BeforeBarrier [AtBarrier c] None)" by (rule vcpu) (simp_all add: vcpu_step_def)
  then have "?R (?S BeforeBarrier [InBarrier c] (Some (Vcpu 0)))" by (rule vcpu) (simp_all add: vcpu_step_def barrier_wait_def)
  then have "?R (?S (Kicking 0) [Finished (Some c)] None)" by (rule main) (simp add: main_step_def barrier_wait_def)
  then have "?R (?S (Kicking 1) [Finished (Some c)] None)" by (rule main) (simp add: main_step_def kick_def)
  then have "?R (?S (Joining 0 []) [Finished (Some c)] None)" by (rule main) (simp add: main_step_def)
  then have "?R (?S (Joining 1 [c]) [Finished (Some c)] None)" by (rule main) (simp add: main_step_def)
  then show ?thesis by (rule main) (simp add: main_step_def)
qed

theorem run_returns_exit_code_witness:
  "\<exists>s. reach run_start (run_step 1 (\<lambda>_. True) (\<lambda>_ r. r = Inr (Some 7))) s \<and> rs_main s = Returned 7 \<and> rs_cpus s ! 0 = Finished (Some 7)"
proof -
  let ?s = "\<lparr>rs_main = Returned 7, rs_cpus = [Finished (Some 7)], rs_waiter = None, rs_online = 0\<rparr>"
  have "reach run_start (run_step 1 (\<lambda>_. True) (\<lambda>_ r. r = Inr (Some 7))) ?s" by (rule single_run) simp_all
  moreover from run_returns_exit_code [OF this, of 7] have "rs_cpus ?s ! 0 = Finished (Some 7)" by simp
  ultimately show ?thesis by (intro exI [of _ ?s]) simp
qed

text \<open>
  C16. The processors start one after the other: at most one is in the guest's startup code, and then
  every processor with a smaller number has left it.
\<close>

theorem processors_start_in_order:
  assumes "reach run_start (run_step n ready outcome) s" and "n < 2 ^ 32"
    and "i < length (rs_cpus s)" and "rs_cpus s ! i = Booting" and "j < length (rs_cpus s)"
  shows "(rs_cpus s ! j = Booting \<longrightarrow> j = i) \<and> (j < i \<longrightarrow> rs_cpus s ! j \<notin> {Starting, Spinning, Booting}) \<and>
    (i < j \<longrightarrow> rs_cpus s ! j \<noteq> Up)"
  using run_invD(4) [OF run_reach_inv [OF assms(1,2)] assms(3)] run_invD(4) [OF run_reach_inv [OF assms(1,2)] assms(5)] assms(4)
  by (auto simp: cpu_ok_def)

theorem processors_start_in_order_witness:
  "\<exists>s. reach run_start (run_step 1 (\<lambda>_. True) (\<lambda>_ r. r = Inr (Some 7))) s \<and> rs_cpus s = [Booting] \<and>
     (rs_cpus s ! 0 = Booting \<longrightarrow> 0 = (0 :: nat))"
proof -
  let ?R = "reach run_start (run_step 1 (\<lambda>_. True) (\<lambda>_ r. r = Inr (Some 7)))"
  have vcpu: "?R s \<Longrightarrow> 0 < length (rs_cpus s) \<Longrightarrow> vcpu_step 0 True None s = Some s' \<Longrightarrow> ?R s'" for s s'
    by (erule reach.next_step, rule run_step.vcpu [where i = 0 and result = None]) simp_all
  have "?R \<lparr>rs_main = Spawn 0, rs_cpus = [], rs_waiter = None, rs_online = 0\<rparr>" by (rule reach.start) (simp add: run_start_def)
  then have "?R \<lparr>rs_main = Spawn 1, rs_cpus = [Starting], rs_waiter = None, rs_online = 0\<rparr>"
    by (rule reach.next_step) (rule run_step.main [where in_guest = True], simp add: main_step_def)
  then have "?R \<lparr>rs_main = Spawn 1, rs_cpus = [Spinning], rs_waiter = None, rs_online = 0\<rparr>" by (rule vcpu) (simp_all add: vcpu_step_def)
  then have r: "?R \<lparr>rs_main = Spawn 1, rs_cpus = [Booting], rs_waiter = None, rs_online = 0\<rparr>" by (rule vcpu) (simp_all add: vcpu_step_def)
  from processors_start_in_order [OF r, of 0 0] r show ?thesis by (intro exI [of _ "\<lparr>rs_main = Spawn 1, rs_cpus = [Booting], rs_waiter = None, rs_online = 0\<rparr>"]) simp
qed

subsection \<open>Every run ends\<close>

text \<open>The steps that are left for a thread; waiting is not a step.\<close>

fun vcpu_rank :: "vcpu_pc \<Rightarrow> nat" where
  "vcpu_rank Starting = 6"
| "vcpu_rank Spinning = 5"
| "vcpu_rank Booting = 4"
| "vcpu_rank Up = 3"
| "vcpu_rank (AtBarrier c) = 2"
| "vcpu_rank (InBarrier c) = 1"
| "vcpu_rank (Finished r) = 0"
| "vcpu_rank VcpuPanicked = 0"

fun main_rank :: "nat \<Rightarrow> main_pc \<Rightarrow> nat" where
  "main_rank n (Spawn k) = 8 * (n - k) + 2 * n + 6"
| "main_rank n BeforeBarrier = 2 * n + 5"
| "main_rank n MainInBarrier = 2 * n + 4"
| "main_rank n (Kicking k) = n - k + n + 3"
| "main_rank n (Joining k codes) = n - k + 2"
| "main_rank n (Returned c) = 0"
| "main_rank n MainPanicked = 0"

definition run_rank :: "nat \<Rightarrow> run_state \<Rightarrow> nat" where
  "run_rank n s = main_rank n (rs_main s) + sum_list (map vcpu_rank (rs_cpus s))"

lemma rank_goto:
  "i < length cpus \<Longrightarrow> vcpu_rank pc < vcpu_rank (cpus ! i) \<Longrightarrow>
     sum_list (map vcpu_rank (cpus[i := pc])) < sum_list (map vcpu_rank cpus)"
proof (induction cpus arbitrary: i)
  case (Cons x cpus)
  then show ?case by (cases i) auto
qed simp

lemma rank_goto_le:
  "i < length cpus \<Longrightarrow> vcpu_rank pc \<le> vcpu_rank (cpus ! i) \<Longrightarrow>
     sum_list (map vcpu_rank (cpus[i := pc])) \<le> sum_list (map vcpu_rank cpus)"
proof (induction cpus arbitrary: i)
  case (Cons x cpus)
  then show ?case by (cases i) auto
qed simp

lemma vcpu_rank_after_run: "vcpu_rank (after_run r) \<le> 2"
  by (cases r rule: after_run.cases) auto

lemma barrier_main_rank:
  assumes "run_inv n outcome s" and "rs_main s = BeforeBarrier"
  shows "run_rank n (barrier_wait MainThread s) < run_rank n s"
proof (cases "rs_waiter s")
  case None
  then show ?thesis using assms(2) by (simp add: barrier_wait_def run_rank_def)
next
  case (Some t)
  then obtain j where t: "t = Vcpu j" using run_invD(2) [OF assms(1)] assms(2) by (cases t) (auto simp: barrier_ok_def)
  obtain c where j: "j < length (rs_cpus s)" "rs_cpus s ! j = InBarrier c" using barrier_waiter(1) [OF assms(1) Some [unfolded t]] by blast
  have "sum_list (map vcpu_rank ((rs_cpus s)[j := Finished (Some c)])) < sum_list (map vcpu_rank (rs_cpus s))"
    using j by (intro rank_goto) simp_all
  then show ?thesis using Some t j assms(2) by (simp add: barrier_wait_def run_rank_def)
qed

lemma barrier_vcpu_rank:
  assumes "run_inv n outcome s" and "i < length (rs_cpus s)" and "rs_cpus s ! i = AtBarrier c"
  shows "run_rank n (barrier_wait (Vcpu i) s) < run_rank n s"
proof (cases "rs_waiter s")
  case None
  have "sum_list (map vcpu_rank ((rs_cpus s)[i := InBarrier c])) < sum_list (map vcpu_rank (rs_cpus s))"
    using assms by (intro rank_goto) simp_all
  then show ?thesis using None assms(3) by (simp add: barrier_wait_def run_rank_def)
next
  case (Some t)
  have down: "sum_list (map vcpu_rank ((rs_cpus s)[i := Finished (Some c)])) < sum_list (map vcpu_rank (rs_cpus s))"
    using assms by (intro rank_goto) simp_all
  show ?thesis
  proof (cases t)
    case MainThread
    then have "rs_main s = MainInBarrier" using run_invD(2) [OF assms(1)] Some by (simp add: barrier_ok_def)
    then show ?thesis using Some MainThread assms(3) down by (simp add: barrier_wait_def run_rank_def)
  next
    case (Vcpu j)
    obtain d where "j < length (rs_cpus s)" "rs_cpus s ! j = InBarrier d" using barrier_waiter(1) [OF assms(1) Some [unfolded Vcpu]] by blast
    moreover from this(2) have "i \<noteq> j" using assms(3) by auto
    moreover have "sum_list (map vcpu_rank ((rs_cpus s)[i := Finished (Some c), j := Finished (Some d)])) \<le> sum_list (map vcpu_rank ((rs_cpus s)[i := Finished (Some c)]))"
      using calculation by (intro rank_goto_le) simp_all
    ultimately show ?thesis using Some Vcpu assms(2,3) down by (simp add: barrier_wait_def run_rank_def list_update_swap)
  qed
qed

lemma run_step_rank:
  assumes "run_inv n outcome s" and "run_step n ready outcome s s'"
  shows "run_rank n s' < run_rank n s"
  using assms(2)
proof (cases rule: run_step.cases)
  case (main in_guest)
  have kick: "vcpu_rank (kick in_guest pc) \<le> vcpu_rank pc" for pc by (auto simp: kick_def)
  show ?thesis
  proof (cases "rs_main s")
    case (Spawn k)
    then show ?thesis using main by (auto simp: main_step_def run_rank_def split: if_splits)
  next
    case BeforeBarrier
    then show ?thesis using main barrier_main_rank [OF assms(1)] by (simp add: main_step_def)
  next
    case (Kicking k)
    have "length (rs_cpus s) = n" using run_invD(1) [OF assms(1)] Kicking by (simp add: main_ok_def)
    then show ?thesis using main Kicking rank_goto_le [of k "rs_cpus s", OF _ kick]
      by (fastforce simp: main_step_def run_rank_def split: if_splits)
  next
    case (Joining k codes)
    then show ?thesis using main by (auto simp: main_step_def run_rank_def split: if_splits vcpu_pc.splits)
  qed (use main in \<open>simp_all add: main_step_def\<close>)
next
  case (vcpu i result)
  note goto = rank_goto [OF vcpu(1)] and r = vcpu_rank_after_run
  show ?thesis
  proof (cases "rs_cpus s ! i")
    case Starting
    then show ?thesis using vcpu goto [of "if ready i then Spinning else VcpuPanicked"] by (auto simp: vcpu_step_def Let_def run_rank_def)
  next
    case Spinning
    then show ?thesis using vcpu goto [of Booting] by (auto simp: vcpu_step_def Let_def run_rank_def split: if_splits)
  next
    case Booting
    then show ?thesis using vcpu goto [of Up] goto [of "after_run (the result)"] r [of "the result"]
      by (auto simp: vcpu_step_def Let_def run_rank_def split: option.splits)
  next
    case Up
    then show ?thesis using vcpu goto [of "after_run (the result)"] r [of "the result"] by (auto simp: vcpu_step_def Let_def run_rank_def)
  next
    case (AtBarrier c)
    then show ?thesis using vcpu barrier_vcpu_rank [OF assms(1) vcpu(1) AtBarrier] by (simp add: vcpu_step_def)
  qed (use vcpu in \<open>simp_all add: vcpu_step_def\<close>)
qed

text \<open>
  With one processor whose guest exits with a code, the main thread leaves the barrier only
  together with this processor.
\<close>

definition single_ok :: "run_state \<Rightarrow> bool" where
  "single_ok s =
     (case rs_main s of
        Spawn k \<Rightarrow> k = length (rs_cpus s) \<and> k \<le> 1 \<and> list_all (\<lambda>pc. pc \<noteq> VcpuPanicked \<and> \<not> finished pc) (rs_cpus s)
      | BeforeBarrier \<Rightarrow> \<exists>pc. rs_cpus s = [pc] \<and> pc \<noteq> VcpuPanicked \<and> \<not> finished pc
      | MainInBarrier \<Rightarrow> \<exists>pc. rs_cpus s = [pc] \<and> pc \<noteq> VcpuPanicked \<and> \<not> finished pc
      | Joining k codes \<Rightarrow> \<exists>c. rs_cpus s = [Finished (Some c)] \<and> k \<le> 1 \<and> codes = take k [c]
      | MainPanicked \<Rightarrow> False
      | _ \<Rightarrow> \<exists>c. rs_cpus s = [Finished (Some c)])"

lemma after_exit: "\<exists>c. r = Inr (Some c) \<Longrightarrow> after_run r \<noteq> VcpuPanicked \<and> \<not> finished (after_run r)"
  by auto

lemma single_ok_online [simp]: "single_ok (s\<lparr>rs_online := k\<rparr>) = single_ok s"
  by (cases "rs_main s") (simp_all add: single_ok_def)

lemma single_ok_goto:
  assumes "single_ok s" and "i < length (rs_cpus s)" and "\<not> finished (rs_cpus s ! i)" and "pc \<noteq> VcpuPanicked" and "\<not> finished pc"
  shows "single_ok (s\<lparr>rs_cpus := (rs_cpus s)[i := pc]\<rparr>)"
  using assms by (auto simp: single_ok_def list_all_iff split: main_pc.splits dest!: set_update_subset_insert [THEN subsetD])

lemma single_vcpu_step:
  assumes "single_ok s" and "run_inv 1 outcome s" and "ready 0" and "\<And>r. outcome 0 r \<Longrightarrow> \<exists>c. r = Inr (Some c)"
    and "i < length (rs_cpus s)" and "pred_option (outcome i) result" and "vcpu_step i (ready i) result s = Some s'"
  shows "single_ok s'"
proof -
  have i: "i = 0" "length (rs_cpus s) = 1" using assms(5) main_ok_length [OF run_invD(1) [OF assms(2)]] by simp_all
  note goto = single_ok_goto [OF assms(1,5)] and exit = after_exit [OF assms(4)]
  show ?thesis
  proof (cases "rs_cpus s ! i")
    case Booting
    show ?thesis
    proof (cases result)
      case None
      have "single_ok (s\<lparr>rs_cpus := (rs_cpus s)[i := Up]\<rparr>)" using goto [of Up] Booting by simp
      then show ?thesis using assms(7) Booting None single_ok_online [where s = "s\<lparr>rs_cpus := (rs_cpus s)[i := Up]\<rparr>"] by (auto simp: vcpu_step_def Let_def)
    next
      case (Some r)
      then show ?thesis using goto [of "after_run r"] exit [of r] assms(6,7) Booting i by (auto simp: vcpu_step_def Let_def)
    qed
  next
    case (AtBarrier c)
    then have s': "s' = barrier_wait (Vcpu i) s" using assms(7) by (simp add: vcpu_step_def)
    have cpus: "rs_cpus s = [AtBarrier c]" using AtBarrier i by (cases "rs_cpus s") auto
    have "rs_waiter s \<noteq> Some (Vcpu j)" for j using barrier_waiter(1) [OF assms(2), of j] cpus by (auto simp: less_Suc0)
    then consider "rs_waiter s = None" | "rs_waiter s = Some MainThread" by (metis option.exhaust who.exhaust)
    then show ?thesis
    proof cases
      case 1
      then show ?thesis using assms(1) cpus i by (auto simp: s' barrier_wait_def single_ok_def split: main_pc.splits)
    next
      case 2
      then show ?thesis using cpus i by (simp add: s' barrier_wait_def single_ok_def)
    qed
  next
    case Starting
    then show ?thesis using goto [of Spinning] assms(3,7) i by (auto simp: vcpu_step_def Let_def)
  next
    case Spinning
    then show ?thesis using goto [of Booting] assms(7) by (auto simp: vcpu_step_def Let_def split: if_splits)
  next
    case Up
    then obtain r where "result = Some r" "s' = s\<lparr>rs_cpus := (rs_cpus s)[i := after_run r]\<rparr>" using assms(7) by (auto simp: vcpu_step_def Let_def)
    then show ?thesis using goto [of "after_run r"] exit [of r] assms(6) Up i by auto
  qed (use assms(7) in \<open>simp_all add: vcpu_step_def\<close>)
qed

lemma single_main_step:
  assumes "single_ok s" and "run_inv 1 outcome s" and "main_step 1 in_guest s = Some s'"
  shows "single_ok s'"
proof (cases "rs_main s")
  case BeforeBarrier
  then obtain pc where pc: "rs_cpus s = [pc]" "pc \<noteq> VcpuPanicked" "\<not> finished pc" using assms(1) by (auto simp: single_ok_def)
  show ?thesis
  proof (cases "rs_waiter s")
    case None
    then show ?thesis using pc BeforeBarrier assms(3) by (auto simp: main_step_def barrier_wait_def single_ok_def)
  next
    case (Some t)
    then obtain j where t: "t = Vcpu j" using run_invD(2) [OF assms(2)] BeforeBarrier by (cases t) (auto simp: barrier_ok_def)
    obtain c where "j < length (rs_cpus s)" "rs_cpus s ! j = InBarrier c" using barrier_waiter(1) [OF assms(2) Some [unfolded t]] by blast
    then show ?thesis using pc BeforeBarrier assms(3) Some t by (auto simp: main_step_def barrier_wait_def single_ok_def)
  qed
qed (use assms(1,3) in \<open>auto simp: main_step_def single_ok_def kick_def length_Suc_conv le_Suc_eq split: if_splits\<close>)

lemma single_reach_ok:
  assumes "reach run_start (run_step 1 ready outcome) s" and "ready 0" and "\<And>r. outcome 0 r \<Longrightarrow> \<exists>c. r = Inr (Some c)"
  shows "single_ok s \<and> run_inv 1 outcome s"
  using assms(1)
proof (induction rule: reach_invariant)
  case (start s)
  then show ?case by (simp add: run_start_def run_inv_def main_ok_def barrier_ok_def single_ok_def)
next
  case (step s s')
  from step(2) show ?case
  proof (cases rule: run_step.cases)
    case (main in_guest)
    then show ?thesis using single_main_step main_step_inv step(3) by blast
  next
    case (vcpu i result)
    then show ?thesis using single_vcpu_step [where ready = ready, OF _ _ _ assms(3)] assms(2) vcpu_step_inv [of 1] step(3) by auto
  qed
qed

text \<open>
  C15. With one processor whose guest ends by exiting, every run of the monitor ends, and it ends with
  the guest's exit code: each step makes the rank smaller, and a state without a further step is one
  in which the main thread has returned a code the guest gave.
\<close>

theorem single_processor_returns:
  assumes "reach run_start (run_step 1 ready outcome) s" and "ready 0"
    and "\<And>r. outcome 0 r \<Longrightarrow> \<exists>c. r = Inr (Some c)" and "outcome 0 (Inr (Some c0))"
  shows "(\<forall>s'. run_step 1 ready outcome s s' \<longrightarrow> run_rank 1 s' < run_rank 1 s) \<and>
    ((\<forall>s'. \<not> run_step 1 ready outcome s s') \<longrightarrow> (\<exists>c. rs_main s = Returned c \<and> outcome 0 (Inr (Some c))))"
proof (intro conjI impI)
  have inv: "single_ok s" "run_inv 1 outcome s" using single_reach_ok [OF assms(1-3)] by auto
  then show "\<forall>s'. run_step 1 ready outcome s s' \<longrightarrow> run_rank 1 s' < run_rank 1 s" using run_step_rank by blast
  assume stuck: "\<forall>s'. \<not> run_step 1 ready outcome s s'"
  then have main: "main_step 1 True s = None" using run_step.main by (metis not_None_eq)
  have vcpu: "vcpu_step 0 True (Some (Inr (Some c0))) s = None" if "0 < length (rs_cpus s)"
  proof (rule ccontr)
    assume "vcpu_step 0 True (Some (Inr (Some c0))) s \<noteq> None"
    then obtain s' where "vcpu_step 0 (ready 0) (Some (Inr (Some c0))) s = Some s'" using assms(2) by auto
    from run_step.vcpu [where i = 0 and ready = ready and outcome = outcome and n = 1, OF that _ this] assms(4) stuck show False by simp
  qed
  have "\<exists>c. rs_main s = Returned c"
  proof (cases "rs_main s")
    case MainInBarrier
    then obtain pc where pc: "rs_cpus s = [pc]" "pc \<noteq> VcpuPanicked" "\<not> finished pc" using inv(1) by (auto simp: single_ok_def)
    have "rs_waiter s = Some MainThread" using run_invD(2) [OF inv(2)] MainInBarrier by (simp add: barrier_ok_def)
    then have "\<nexists>c. pc = InBarrier c" using run_invD(2) [OF inv(2)] pc(1) by (auto simp: barrier_ok_def)
    moreover have "pc = Spinning \<Longrightarrow> unat (rs_online s) = 0" using run_invD(4) [OF inv(2), of 0] pc by (simp add: cpu_ok_def)
    ultimately have False using vcpu pc by (cases pc) (auto simp: vcpu_step_def Let_def unat_eq_zero)
    then show ?thesis ..
  qed (use inv(1) main in \<open>auto simp: single_ok_def main_step_def split: if_splits\<close>)
  then obtain c where c: "rs_main s = Returned c" by blast
  then have "codes_of (rs_cpus s) = [c]" "length (rs_cpus s) = 1" using run_invD(1) [OF inv(2)] by (simp_all add: main_ok_def)
  moreover obtain d where "rs_cpus s = [Finished (Some d)]" using inv(1) c by (auto simp: single_ok_def)
  ultimately have "rs_cpus s = [Finished (Some c)]" by (simp add: codes_of_def List.map_filter_simps)
  then show "\<exists>c. rs_main s = Returned c \<and> outcome 0 (Inr (Some c))" using c run_invD(4) [OF inv(2), of 0] by (auto simp: cpu_ok_def)
qed

theorem single_processor_returns_witness:
  "\<exists>s. run_start s \<and> (\<forall>s'. run_step 1 (\<lambda>_. True) (\<lambda>_ r. r = Inr (Some 7)) s s' \<longrightarrow> run_rank 1 s' < run_rank 1 s) \<and>
     (\<exists>s'. run_step 1 (\<lambda>_. True) (\<lambda>_ r. r = Inr (Some 7)) s s')"
proof -
  let ?s = "\<lparr>rs_main = Spawn 0, rs_cpus = [], rs_waiter = None, rs_online = 0\<rparr>"
  have start: "run_start ?s" by (simp add: run_start_def)
  have "run_step 1 (\<lambda>_. True) (\<lambda>_ r. r = Inr (Some 7)) ?s (?s\<lparr>rs_main := Spawn 1, rs_cpus := [Starting]\<rparr>)"
    by (rule run_step.main [where in_guest = True]) (simp add: main_step_def)
  moreover have "reach run_start (run_step 1 (\<lambda>_. True) (\<lambda>_ r. r = Inr (Some 7))) ?s" by (rule reach.start [where init = run_start, OF start])
  ultimately show ?thesis using start single_processor_returns [where s = ?s and ready = "\<lambda>_. True" and outcome = "\<lambda>_ r. r = Inr (Some 7)" and ?c0.0 = 7] by blast
qed

subsection \<open>Runs that do not end\<close>



text \<open>
  The barrier is for two threads and is waited for by the main thread once: when a second
  processor has an exit code as well, its thread stays in the barrier and the main thread in its
  join. A machine with two processors reaches such a state.
\<close>

theorem second_exit_hangs:
  assumes "ready 0" and "ready 1" and "outcome 0 (Inr (Some a))" and "outcome 1 (Inr (Some b))"
  shows "\<exists>s. reach run_start (run_step 2 ready outcome) s \<and> rs_main s = Joining 1 [a] \<and> rs_cpus s = [Finished (Some a), InBarrier b] \<and>
    (\<forall>s'. \<not> run_step 2 ready outcome s s')"
proof -
  let ?S = "\<lambda>m cpus w k. \<lparr>rs_main = m, rs_cpus = cpus, rs_waiter = w, rs_online = k\<rparr>"
  let ?R = "reach run_start (run_step 2 ready outcome)"
  have main: "?R s \<Longrightarrow> main_step 2 False s = Some s' \<Longrightarrow> ?R s'" for s s'
    by (erule reach.next_step) (erule run_step.main)
  have vcpu0: "?R s \<Longrightarrow> 0 < length (rs_cpus s) \<Longrightarrow> vcpu_step 0 True None s = Some s' \<Longrightarrow> ?R s'" for s s'
    by (erule reach.next_step, rule run_step.vcpu [where i = 0 and result = None]) (simp_all add: assms)
  have exit0: "?R s \<Longrightarrow> 0 < length (rs_cpus s) \<Longrightarrow> vcpu_step 0 True (Some (Inr (Some a))) s = Some s' \<Longrightarrow> ?R s'" for s s'
    by (erule reach.next_step, rule run_step.vcpu [where i = 0 and result = "Some (Inr (Some a))"]) (simp_all add: assms)
  have vcpu1: "?R s \<Longrightarrow> 1 < length (rs_cpus s) \<Longrightarrow> vcpu_step 1 True None s = Some s' \<Longrightarrow> ?R s'" for s s'
    by (erule reach.next_step, rule run_step.vcpu [where i = 1 and result = None]) (simp_all add: assms [simplified])
  have exit1: "?R s \<Longrightarrow> 1 < length (rs_cpus s) \<Longrightarrow> vcpu_step 1 True (Some (Inr (Some b))) s = Some s' \<Longrightarrow> ?R s'" for s s'
    by (erule reach.next_step, rule run_step.vcpu [where i = 1 and result = "Some (Inr (Some b))"]) (simp_all add: assms [simplified])
  note steps = main_step_def vcpu_step_def barrier_wait_def kick_def
  have "?R (?S (Spawn 0) [] None 0)" by (rule reach.start) (simp add: run_start_def)
  then have "?R (?S (Spawn 1) [Starting] None 0)" by (rule main) (simp add: steps)
  then have "?R (?S (Spawn 2) [Starting, Starting] None 0)" by (rule main) (simp add: steps)
  then have "?R (?S BeforeBarrier [Starting, Starting] None 0)" by (rule main) (simp add: steps)
  then have "?R (?S BeforeBarrier [Spinning, Starting] None 0)" by (rule vcpu0) (simp_all add: steps)
  then have "?R (?S BeforeBarrier [Booting, Starting] None 0)" by (rule vcpu0) (simp_all add: steps)
  then have "?R (?S BeforeBarrier [Up, Starting] None 1)" by (rule vcpu0) (simp_all add: steps)
  then have "?R (?S BeforeBarrier [AtBarrier a, Starting] None 1)" by (rule exit0) (simp_all add: steps)
  then have "?R (?S BeforeBarrier [InBarrier a, Starting] (Some (Vcpu 0)) 1)" by (rule exit0) (simp_all add: steps)
  then have "?R (?S (Kicking 0) [Finished (Some a), Starting] None 1)" by (rule main) (simp add: steps)
  then have "?R (?S (Kicking 1) [Finished (Some a), Starting] None 1)" by (rule main) (simp add: steps)
  then have "?R (?S (Kicking 2) [Finished (Some a), Starting] None 1)" by (rule main) (simp add: steps)
  then have "?R (?S (Joining 0 []) [Finished (Some a), Starting] None 1)" by (rule main) (simp add: steps)
  then have "?R (?S (Joining 1 [a]) [Finished (Some a), Starting] None 1)" by (rule main) (simp add: steps)
  then have "?R (?S (Joining 1 [a]) [Finished (Some a), Spinning] None 1)" by (rule vcpu1) (simp_all add: steps)
  then have "?R (?S (Joining 1 [a]) [Finished (Some a), Booting] None 1)" by (rule vcpu1) (simp_all add: steps)
  then have "?R (?S (Joining 1 [a]) [Finished (Some a), AtBarrier b] None 1)" by (rule exit1) (simp_all add: steps)
  then have r: "?R (?S (Joining 1 [a]) [Finished (Some a), InBarrier b] (Some (Vcpu 1)) 1)" by (rule exit1) (simp_all add: steps)
  have "\<not> run_step 2 ready outcome (?S (Joining 1 [a]) [Finished (Some a), InBarrier b] (Some (Vcpu 1)) 1) s'" for s'
    by (auto elim!: run_stepE simp: main_step_def vcpu_step_def less_Suc_eq numeral_2_eq_2)
  with r show ?thesis by (intro exI [of _ "?S (Joining 1 [a]) [Finished (Some a), InBarrier b] (Some (Vcpu 1)) 1"]) simp
qed

theorem second_exit_hangs_witness:
  "\<exists>s. reach run_start (run_step 2 (\<lambda>_. True) (\<lambda>_ r. r = Inr (Some 7))) s \<and> rs_main s = Joining 1 [7] \<and>
    rs_cpus s = [Finished (Some 7), InBarrier 7] \<and> (\<forall>s'. \<not> run_step 2 (\<lambda>_. True) (\<lambda>_ r. r = Inr (Some 7)) s s')"
  by (rule second_exit_hangs) simp_all

end
