(* ===== verification/Ioapic.thy ===== *)
theory Ioapic
  imports Prelude
begin

text \<open>
  The interrupt controller of the macOS variant (\<^verbatim>\<open>src/macos/ioapic.rs\<close>): a selector register and a
  window through which the guest accesses the selected register of the table.
\<close>

subsection \<open>The code\<close>

definition REDIR_ENTRIES :: nat where "REDIR_ENTRIES = 24"
definition IOAPIC_REG_TABLE :: nat where "IOAPIC_REG_TABLE = 0x0010"

record RedirectionTable =
  reg :: u32

definition RedirectionTable_new :: RedirectionTable where
  "RedirectionTable_new = \<lparr>reg = 0\<rparr>"

record IoApic =
  selector :: usize
  rtbl :: "RedirectionTable list"

definition set_reg :: "RedirectionTable list \<Rightarrow> nat \<Rightarrow> u32 \<Rightarrow> RedirectionTable list res" where
  "set_reg t i x = and_then (index t i) (\<lambda>e. index_set t i (e\<lparr>reg := x\<rparr>))"

definition IoApic_new :: "IoApic res" where
  "IoApic_new =
     and_then (set_reg (replicate (IOAPIC_REG_TABLE + 2 * REDIR_ENTRIES) RedirectionTable_new) 1
       (0x11 OR push_bit 16 (of_nat REDIR_ENTRIES - 1))) (\<lambda>t.
     and_then (for_each (\<lambda>t i. set_reg t i 0x00010000) t [IOAPIC_REG_TABLE..<REDIR_ENTRIES]) (\<lambda>t.
     Inr \<lparr>selector = 0, rtbl = t\<rparr>))"

definition ioapic_write :: "IoApic \<Rightarrow> u64 \<Rightarrow> u64 \<Rightarrow> IoApic res" where
  "ioapic_write a offset value =
     (if offset = 0x00 then Inr (a\<lparr>selector := value\<rparr>)
      else if offset = 0x10 then map_ok (\<lambda>t. a\<lparr>rtbl := t\<rparr>) (set_reg (rtbl a) (unat (selector a)) (ucast value))
      else Inl ExplicitPanic)"

definition ioapic_read :: "IoApic \<Rightarrow> u64 \<Rightarrow> u64 res" where
  "ioapic_read a offset =
     (if offset = 0x00 then Inr (selector a)
      else if offset = 0x10 then map_ok (\<lambda>e. ucast (reg e)) (index (rtbl a) (unat (selector a)))
      else Inl ExplicitPanic)"

subsection \<open>The register file\<close>

text \<open>What the guest sees: a selector and 64 numbered registers.\<close>

definition ioapic_wf :: "IoApic \<Rightarrow> bool" where
  "ioapic_wf a \<longleftrightarrow> length (rtbl a) = 64"

definition reg_at :: "IoApic \<Rightarrow> nat \<Rightarrow> u32" where
  "reg_at a i = reg (rtbl a ! i)"

lemma reg_update: "e\<lparr>reg := x\<rparr> = \<lparr>reg = x\<rparr>" for e :: RedirectionTable
  by (cases e) simp

lemma set_reg_eq: "set_reg t i x = (if i < length t then Inr (t[i := \<lparr>reg = x\<rparr>]) else Inl IndexOutOfBounds)"
  by (simp add: set_reg_def index_def index_set_def reg_update)

lemma ioapic_new_eq:
  "IoApic_new = Inr \<lparr>selector = 0, rtbl = map (\<lambda>i. \<lparr>reg = if i = 1 then 0x170011 else if 16 \<le> i \<and> i < 24 then 0x10000 else 0\<rparr>) [0..<64]\<rparr>"
proof -
  have "[IOAPIC_REG_TABLE..<REDIR_ENTRIES] = [16, 17, 18, 19, 20, 21, 22, 23]"
    by (simp add: IOAPIC_REG_TABLE_def REDIR_ENTRIES_def upt_rec)
  then show ?thesis
    by (simp add: IoApic_new_def set_reg_eq IOAPIC_REG_TABLE_def REDIR_ENTRIES_def RedirectionTable_new_def nth_list_update)
      (intro nth_equalityI, simp_all add: nth_list_update)
qed

lemma ioapic_new_wf: "IoApic_new = Inr a \<Longrightarrow> ioapic_wf a"
  by (auto simp: ioapic_new_eq ioapic_wf_def)

lemma ioapic_write_wf: "ioapic_write a off v = Inr a' \<Longrightarrow> ioapic_wf a \<Longrightarrow> ioapic_wf a'"
  by (auto simp: ioapic_write_def set_reg_eq ioapic_wf_def map_ok_eq_Inr split: if_splits)

text \<open>The guest's accesses in order: a write of a value at an offset of the register block.\<close>

definition ioapic_writes :: "IoApic \<Rightarrow> (u64 \<times> u64) list \<Rightarrow> IoApic res" where
  "ioapic_writes a ws = for_each (\<lambda>a (offset, value). ioapic_write a offset value) a ws"

lemma ioapic_writes_wf: "ioapic_writes a ws = Inr a' \<Longrightarrow> ioapic_wf a \<Longrightarrow> ioapic_wf a'"
  unfolding ioapic_writes_def
  by (erule for_each_invariant [rotated 2, where I = ioapic_wf]) (auto dest: ioapic_write_wf)

lemma ioapic_window:
  assumes "ioapic_wf a"
  shows "ioapic_write a 0x10 v =
      (if selector a < 64 then Inr (a\<lparr>rtbl := (rtbl a)[unat (selector a) := \<lparr>reg = ucast v\<rparr>]\<rparr>) else Inl IndexOutOfBounds)"
    and "ioapic_read a 0x10 = (if selector a < 64 then Inr (ucast (reg_at a (unat (selector a)))) else Inl IndexOutOfBounds)"
  using assms by (auto simp: ioapic_write_def ioapic_read_def set_reg_eq index_def ioapic_wf_def reg_at_def word_less_nat_alt)

text \<open>
  C37. The shape of the interrupt controller: after any accepted sequence of guest writes, the table
  has its 64 registers; the window accepts a write exactly if the selector names one of them, then
  reads back the low 32 bits of the value, and no other register changes; with a larger selector,
  which the guest may store, or at any other offset of the block, an access stops the hypervisor.
\<close>

theorem ioapic_register_file:
  assumes "IoApic_new = Inr a0" and "ioapic_writes a0 ws = Inr a"
  shows "length (rtbl a) = 64 \<and>
    (selector a < 64 \<longrightarrow> (\<exists>a'. ioapic_write a 0x10 v = Inr a' \<and> ioapic_read a' 0x10 = Inr (take_bit 32 v) \<and> selector a' = selector a \<and>
       (\<forall>i. i \<noteq> unat (selector a) \<longrightarrow> reg_at a' i = reg_at a i))) \<and>
    (64 \<le> selector a \<longrightarrow> ioapic_write a 0x10 v = Inl IndexOutOfBounds \<and> ioapic_read a 0x10 = Inl IndexOutOfBounds) \<and>
    (\<forall>off. off \<noteq> 0 \<and> off \<noteq> 0x10 \<longrightarrow> ioapic_write a off v = Inl ExplicitPanic \<and> ioapic_read a off = Inl ExplicitPanic)"
proof -
  have wf: "ioapic_wf a" using ioapic_writes_wf [OF assms(2) ioapic_new_wf [OF assms(1)]] .
  have "\<exists>a'. ioapic_write a 0x10 v = Inr a' \<and> ioapic_read a' 0x10 = Inr (take_bit 32 v) \<and> selector a' = selector a \<and>
       (\<forall>i. i \<noteq> unat (selector a) \<longrightarrow> reg_at a' i = reg_at a i)" if "selector a < 64"
  proof -
    let ?a = "a\<lparr>rtbl := (rtbl a)[unat (selector a) := \<lparr>reg = ucast v\<rparr>]\<rparr>"
    have "unat (selector a) < length (rtbl a)" using that wf by (simp add: ioapic_wf_def word_less_nat_alt)
    then have "reg_at ?a (unat (selector a)) = ucast v" "\<forall>i. i \<noteq> unat (selector a) \<longrightarrow> reg_at ?a i = reg_at a i"
      by (simp_all add: reg_at_def)
    moreover have "ioapic_wf ?a" using wf by (simp add: ioapic_wf_def)
    moreover have "(ucast (ucast v :: u32) :: u64) = take_bit 32 v"
      by (rule bit_word_eqI) (auto simp: bit_simps)
    ultimately show ?thesis using that ioapic_window(1) [OF wf, of v] ioapic_window(2) [OF wf] ioapic_window(2) [of ?a] by simp
  qed
  then show ?thesis using wf ioapic_window(1) [OF wf, of v] ioapic_window(2) [OF wf] by (auto simp: ioapic_wf_def ioapic_write_def ioapic_read_def not_less)
qed

theorem ioapic_register_file_witness:
  "\<exists>a0 a a'. IoApic_new = Inr a0 \<and> ioapic_writes a0 [(0, 0x12)] = Inr a \<and> ioapic_write a 0x10 0x1234 = Inr a' \<and>
     ioapic_read a' 0x10 = Inr 0x1234"
proof -
  obtain a0 where a0: "IoApic_new = Inr a0" by (simp add: ioapic_new_eq)
  have a: "ioapic_writes a0 [(0, 0x12)] = Inr (a0\<lparr>selector := 0x12\<rparr>)" by (simp add: ioapic_writes_def ioapic_write_def)
  from ioapic_register_file [OF a0 a, of "0x1234"] a0 a show ?thesis by auto
qed

text \<open>
  Which interrupts a new controller masks: register 16 + 2i holds the low half of redirection
  entry i, and its bit 16 is the mask; exactly the entries 0 to 3 of the 24 are masked, since the loop
  runs to the number of entries and not to the end of their registers.
\<close>

theorem ioapic_new_masks:
  assumes "IoApic_new = Inr a" and "i < REDIR_ENTRIES"
  shows "bit (reg_at a (IOAPIC_REG_TABLE + 2 * i)) 16 \<longleftrightarrow> i < 4"
proof -
  have "16 + 2 * i < 64" using assms(2) by (simp add: REDIR_ENTRIES_def)
  moreover have "a = \<lparr>selector = 0, rtbl = map (\<lambda>i. \<lparr>reg = if i = 1 then 0x170011 else if 16 \<le> i \<and> i < 24 then 0x10000 else 0\<rparr>) [0..<64]\<rparr>"
    using assms(1) by (simp add: ioapic_new_eq)
  ultimately show ?thesis by (auto simp: reg_at_def IOAPIC_REG_TABLE_def)
qed

theorem ioapic_new_masks_witness:
  "\<exists>a. IoApic_new = Inr a \<and> \<not> bit (reg_at a (IOAPIC_REG_TABLE + 2 * 4)) 16"
proof -
  obtain a where a: "IoApic_new = Inr a" by (simp add: ioapic_new_eq)
  from ioapic_new_masks [OF a, of 4] a show ?thesis by (auto simp: REDIR_ENTRIES_def)
qed

end
