(* ===== verification/Hv_Framework.thy ===== *)
theory Hv_Framework
  imports Hypercalls
begin

text \<open>
  The interfaces the macOS variant uses: the framework that runs a virtual processor, with its
  registers and control fields, the disassembler, and the constants of their bindings. All of them are
  code outside of the sources; the sources name the registers, fields and constants listed here.
\<close>

subsection \<open>The framework\<close>

datatype x86Reg = RIP | RFLAGS | RAX | RBX | RCX | RDX | RSI | RDI | RSP | RBP | R8 | R9 | R10 | R11 | R12 | R13 | R14 | R15
  | CS | SS | DS | ES | FS | GS | CR0 | CR3 | CR4 | DR7 | XCR0

datatype vmcs = VMCS_CTRL_PIN_BASED | VMCS_CTRL_CPU_BASED | VMCS_CTRL_CPU_BASED2 | VMCS_CTRL_VMENTRY_CONTROLS
  | VMCS_CTRL_VMEXIT_CONTROLS | VMCS_CTRL_EXC_BITMAP | VMCS_CTRL_TPR_THRESHOLD | VMCS_CTRL_CR0_MASK | VMCS_CTRL_CR0_SHADOW
  | VMCS_CTRL_CR4_MASK | VMCS_CTRL_CR4_SHADOW | VMCS_GUEST_IA32_EFER | VMCS_GUEST_SYSENTER_ESP | VMCS_GUEST_SYSENTER_EIP
  | VMCS_GUEST_CS_LIMIT | VMCS_GUEST_CS_BASE | VMCS_GUEST_CS_AR | VMCS_GUEST_SS_LIMIT | VMCS_GUEST_SS_BASE | VMCS_GUEST_SS_AR
  | VMCS_GUEST_DS_LIMIT | VMCS_GUEST_DS_BASE | VMCS_GUEST_DS_AR | VMCS_GUEST_ES_LIMIT | VMCS_GUEST_ES_BASE | VMCS_GUEST_ES_AR
  | VMCS_GUEST_FS_LIMIT | VMCS_GUEST_FS_BASE | VMCS_GUEST_FS_AR | VMCS_GUEST_GS_LIMIT | VMCS_GUEST_GS_BASE | VMCS_GUEST_GS_AR
  | VMCS_GUEST_GDTR_BASE | VMCS_GUEST_GDTR_LIMIT | VMCS_GUEST_IDTR_BASE | VMCS_GUEST_IDTR_LIMIT | VMCS_GUEST_TR
  | VMCS_GUEST_TR_LIMIT | VMCS_GUEST_TR_AR | VMCS_GUEST_TR_BASE | VMCS_GUEST_LDTR | VMCS_GUEST_LDTR_LIMIT | VMCS_GUEST_LDTR_AR
  | VMCS_GUEST_LDTR_BASE | VMCS_GUEST_PHYSICAL_ADDRESS | VMCS_RO_EXIT_REASON | VMCS_RO_EXIT_QUALIFIC | VMCS_RO_VMEXIT_INSTR_LEN
  | VMCS_RO_VMEXIT_IRQ_INFO

datatype VMXCap = PINBASED | PROCBASED | PROCBASED2 | ENTRY | EXIT

datatype InstructionOperation = MOV | OtherOperation

datatype OperandType = IMM | REG_EDI | REG_ESI | REG_EBP | REG_EAX | REG_EBX | REG_ECX | REG_EDX | OtherOperand

record Instruction =
  operation :: InstructionOperation
  operands :: "(OperandType \<times> u64) list"

text \<open>The numbers the bindings define: control bits, exit reasons, model-specific registers and flags.\<close>

record vmx_consts =
  PIN_BASED_INTR :: u64
  PIN_BASED_NMI :: u64
  PIN_BASED_VIRTUAL_NMI :: u64
  CPU_BASED_SECONDARY_CTLS :: u64
  CPU_BASED_MWAIT :: u64
  CPU_BASED_MSR_BITMAPS :: u64
  CPU_BASED_MONITOR :: u64
  CPU_BASED_TSC_OFFSET :: u64
  CPU_BASED_TPR_SHADOW :: u64
  CPU_BASED2_RDTSCP :: u64
  CPU_BASED2_APIC_REG_VIRT :: u64
  VMENTRY_LOAD_EFER :: u64
  VMENTRY_GUEST_IA32E :: u64
  VMX_REASON_EXC_NMI :: u64
  VMX_REASON_IRQ :: u64
  VMX_REASON_CPUID :: u64
  VMX_REASON_IO :: u64
  VMX_REASON_RDMSR :: u64
  VMX_REASON_WRMSR :: u64
  VMX_REASON_EPT_VIOLATION :: u64
  VMX_REASON_XSETBV :: u64
  VMX_REASON_RDRAND :: u64
  PROTECTED_MODE_ENABLE :: u64
  EXTENSION_TYPE :: u64
  NUMERIC_ERROR :: u64
  PAGING :: u64
  CACHE_DISABLE :: u64
  NOT_WRITE_THROUGH :: u64
  PHYSICAL_ADDRESS_EXTENSION :: u64
  VIRTUAL_MACHINE_EXTENSIONS :: u64
  SegmentSelector_ring0 :: "u16 \<Rightarrow> u16"

record msr_consts =
  IA32_EFER :: u32
  IA32_MISC_ENABLE :: u32
  IA32_APIC_BASE :: u32
  IA32_X2APIC_TPR :: u32
  IA32_X2APIC_SIVR :: u32
  IA32_X2APIC_LVT_TIMER :: u32
  IA32_X2APIC_LVT_THERMAL :: u32
  IA32_X2APIC_LVT_PMI :: u32
  IA32_X2APIC_LVT_LINT0 :: u32
  IA32_X2APIC_LVT_LINT1 :: u32
  IA32_X2APIC_LVT_ERROR :: u32
  IA32_X2APIC_EOI :: u32
  IA32_X2APIC_ICR :: u32
  IA32_FS_BASE :: u32
  IA32_GS_BASE :: u32
  IA32_KERNEL_GSBASE :: u32
  IA32_SYSENTER_CS :: u32
  IA32_SYSENTER_EIP :: u32
  IA32_SYSENTER_ESP :: u32
  IA32_STAR :: u32
  IA32_LSTAR :: u32
  IA32_CSTAR :: u32
  IA32_FMASK :: u32
  TSC :: u32
  IA32_TSC_AUX :: u32

text \<open>
  The framework, whose errors are \<open>'e\<close> and whose processors \<open>'v\<close>, with the rest of the host: \<open>cpuid_count\<close> is
  the instruction, \<open>hv_run\<close> runs the guest until an exit, \<open>debug_log\<close> tells whether debug messages are
  printed, which is when their arguments are evaluated.
\<close>

record ('e, 'v, 'w) framework =
  vmx :: vmx_consts
  msr :: msr_consts
  read_vmx_cap :: "VMXCap \<Rightarrow> 'e + u64"
  vCPU_new :: "'e + 'v"
  read_vmcs :: "'v \<Rightarrow> vmcs \<Rightarrow> 'e + u64"
  write_vmcs :: "'v \<Rightarrow> vmcs \<Rightarrow> u64 \<Rightarrow> 'e + 'v"
  read_register :: "'v \<Rightarrow> x86Reg \<Rightarrow> 'e + u64"
  write_register :: "'v \<Rightarrow> x86Reg \<Rightarrow> u64 \<Rightarrow> 'e + 'v"
  enable_native_msr :: "'v \<Rightarrow> u32 \<Rightarrow> bool \<Rightarrow> 'e + 'v"
  set_apic_addr :: "'v \<Rightarrow> u64 \<Rightarrow> 'e + 'v"
  hv_run :: "'v \<Rightarrow> hmem \<Rightarrow> 'w \<Rightarrow> ('e + 'v) \<times> hmem \<times> 'w"
  cpuid_count :: "u32 \<Rightarrow> u32 \<Rightarrow> u32 \<times> u32 \<times> u32 \<times> u32"
  disassemble_64 :: "u8 list \<Rightarrow> usize \<Rightarrow> Instruction option"
  debug_log :: bool
  mac_libc :: "'w libc"
  mac_kernel_path :: "u8 list"
  mac_args :: "u8 list list"
  mac_vars :: "(u8 list \<times> u8 list) list"

fun try_call :: "'e + 'a \<Rightarrow> 'e failure + 'a" where
  "try_call (Inl e) = Inl (Err e)"
| "try_call (Inr x) = Inr x"

fun unwrap_call :: "'e + 'a \<Rightarrow> 'a res" where
  "unwrap_call (Inl e) = Inl UnwrapFailed"
| "unwrap_call (Inr x) = Inr x"

lemma try_call_eq_Inr: "try_call r = Inr x \<longleftrightarrow> r = Inr x"
  by (cases r) auto

end
