(* ===== verification/Vcpu_Macos.thy ===== *)
theory Vcpu_Macos
  imports Vcpu_Linux Ioapic Hv_Framework
begin

text \<open>
  A virtual processor on macOS (\<^verbatim>\<open>src/macos/vcpu.rs\<close>): preparing it for the kernel, emulating the
  instructions that leave the guest, and the exit loop. The framework that runs the processor, the
  disassembler and the constants of their bindings are arguments of the model.
\<close>

subsection \<open>Capabilities\<close>

definition cap2ctrl :: "u64 \<Rightarrow> u64 \<Rightarrow> u64" where
  "cap2ctrl cap ctrl = (ctrl OR (cap AND 0xffffffff)) AND drop_bit 32 cap"

definition CAP_PINBASED :: "('e, 'v, 'w) framework \<Rightarrow> u64 res" where
  "CAP_PINBASED x = map_ok (\<lambda>cap. cap2ctrl cap (PIN_BASED_INTR (vmx x) OR PIN_BASED_NMI (vmx x) OR PIN_BASED_VIRTUAL_NMI (vmx x)))
     (unwrap_call (read_vmx_cap x PINBASED))"

definition CAP_PROCBASED :: "('e, 'v, 'w) framework \<Rightarrow> u64 res" where
  "CAP_PROCBASED x = map_ok (\<lambda>cap. cap2ctrl cap
       (CPU_BASED_SECONDARY_CTLS (vmx x) OR CPU_BASED_MWAIT (vmx x) OR CPU_BASED_MSR_BITMAPS (vmx x)
        OR CPU_BASED_MONITOR (vmx x) OR CPU_BASED_TSC_OFFSET (vmx x) OR CPU_BASED_TPR_SHADOW (vmx x)))
     (unwrap_call (read_vmx_cap x PROCBASED))"

definition CAP_PROCBASED2 :: "('e, 'v, 'w) framework \<Rightarrow> u64 res" where
  "CAP_PROCBASED2 x = map_ok (\<lambda>cap. cap2ctrl cap (CPU_BASED2_RDTSCP (vmx x) OR CPU_BASED2_APIC_REG_VIRT (vmx x)))
     (unwrap_call (read_vmx_cap x PROCBASED2))"

definition CAP_ENTRY :: "('e, 'v, 'w) framework \<Rightarrow> u64 res" where
  "CAP_ENTRY x = map_ok (\<lambda>cap. cap2ctrl cap (VMENTRY_LOAD_EFER (vmx x) OR VMENTRY_GUEST_IA32E (vmx x)))
     (unwrap_call (read_vmx_cap x ENTRY))"

definition CAP_EXIT :: "('e, 'v, 'w) framework \<Rightarrow> u64 res" where
  "CAP_EXIT x = map_ok (\<lambda>cap. cap2ctrl cap 0) (unwrap_call (read_vmx_cap x EXIT))"

subsection \<open>Preparing the processor\<close>

text \<open>The calls the setup routines make, in their order, and making them.\<close>

datatype setting = SetVmcs vmcs u64 | LogVmcs vmcs | SetReg x86Reg u64 | NativeMsr u32

fun apply_setting :: "('e, 'v, 'w) framework \<Rightarrow> 'v \<Rightarrow> setting \<Rightarrow> 'e failure + 'v" where
  "apply_setting x v (SetVmcs f a) = try_call (write_vmcs x v f a)"
| "apply_setting x v (LogVmcs f) = (if debug_log x then map_ok (\<lambda>_. v) (try_call (read_vmcs x v f)) else Inr v)"
| "apply_setting x v (SetReg r a) = try_call (write_register x v r a)"
| "apply_setting x v (NativeMsr n) = try_call (enable_native_msr x v n True)"

definition settings :: "('e, 'v, 'w) framework \<Rightarrow> 'v \<Rightarrow> setting list \<Rightarrow> 'e failure + 'v" where
  "settings x = for_each (apply_setting x)"

definition gdt_settings :: "vmx_consts \<Rightarrow> setting list" where
  "gdt_settings k =
     [SetVmcs VMCS_GUEST_CS_LIMIT 0, SetVmcs VMCS_GUEST_CS_BASE 0, SetVmcs VMCS_GUEST_CS_AR 0x209B,
      SetVmcs VMCS_GUEST_SS_LIMIT 0, SetVmcs VMCS_GUEST_SS_BASE 0, SetVmcs VMCS_GUEST_SS_AR 0x4093,
      SetVmcs VMCS_GUEST_DS_LIMIT 0, SetVmcs VMCS_GUEST_DS_BASE 0, SetVmcs VMCS_GUEST_DS_AR 0x4093,
      SetVmcs VMCS_GUEST_ES_LIMIT 0, SetVmcs VMCS_GUEST_ES_BASE 0, SetVmcs VMCS_GUEST_ES_AR 0x4093,
      SetVmcs VMCS_GUEST_FS_LIMIT 0, SetVmcs VMCS_GUEST_FS_BASE 0, SetVmcs VMCS_GUEST_FS_AR 0x4093,
      SetVmcs VMCS_GUEST_GS_LIMIT 0, SetVmcs VMCS_GUEST_GS_BASE 0, SetVmcs VMCS_GUEST_GS_AR 0x4093,
      SetVmcs VMCS_GUEST_GDTR_BASE BOOT_GDT, SetVmcs VMCS_GUEST_GDTR_LIMIT (8 * BOOT_GDT_MAX - 1),
      SetVmcs VMCS_GUEST_IDTR_BASE 0, SetVmcs VMCS_GUEST_IDTR_LIMIT 0xffff,
      SetVmcs VMCS_GUEST_TR 0, SetVmcs VMCS_GUEST_TR_LIMIT 0xffff, SetVmcs VMCS_GUEST_TR_AR 0x8b, SetVmcs VMCS_GUEST_TR_BASE 0,
      SetVmcs VMCS_GUEST_LDTR 0, SetVmcs VMCS_GUEST_LDTR_LIMIT 0xffff, SetVmcs VMCS_GUEST_LDTR_AR 0x82, SetVmcs VMCS_GUEST_LDTR_BASE 0,
      SetReg CS (ucast (SegmentSelector_ring0 k GDT_KERNEL_CODE)), SetReg DS (ucast (SegmentSelector_ring0 k GDT_KERNEL_DATA)),
      SetReg ES (ucast (SegmentSelector_ring0 k GDT_KERNEL_DATA)), SetReg SS (ucast (SegmentSelector_ring0 k GDT_KERNEL_DATA)),
      SetReg FS (ucast (SegmentSelector_ring0 k GDT_KERNEL_DATA)), SetReg GS (ucast (SegmentSelector_ring0 k GDT_KERNEL_DATA))]"

definition setup_system_gdt :: "('e, 'v, 'w) framework \<Rightarrow> 'v \<Rightarrow> 'e failure + 'v" where
  "setup_system_gdt x v = settings x v (gdt_settings (vmx x))"

definition long_mode_settings :: "vmx_consts \<Rightarrow> setting list" where
  "long_mode_settings k =
     (let cr0 = PROTECTED_MODE_ENABLE k OR EXTENSION_TYPE k OR NUMERIC_ERROR k OR PAGING k;
          cr4 = PHYSICAL_ADDRESS_EXTENSION k OR VIRTUAL_MACHINE_EXTENSIONS k in
      [SetVmcs VMCS_GUEST_IA32_EFER (EFER_LME OR EFER_LMA),
       SetVmcs VMCS_CTRL_CR0_MASK (CACHE_DISABLE k OR NOT_WRITE_THROUGH k OR cr0), SetVmcs VMCS_CTRL_CR0_SHADOW cr0,
       SetVmcs VMCS_CTRL_CR4_MASK cr4, SetVmcs VMCS_CTRL_CR4_SHADOW cr4,
       SetReg CR0 cr0, SetReg CR4 cr4, SetReg CR3 BOOT_PML4, SetReg DR7 0,
       SetVmcs VMCS_GUEST_SYSENTER_ESP 0, SetVmcs VMCS_GUEST_SYSENTER_EIP 0])"

definition setup_system_64bit :: "('e, 'v, 'w) framework \<Rightarrow> 'v \<Rightarrow> 'e failure + 'v" where
  "setup_system_64bit x v = settings x v (long_mode_settings (vmx x))"

definition setup_msr :: "('e, 'v, 'w) framework \<Rightarrow> 'v \<Rightarrow> 'e failure + 'v" where
  "setup_msr x v = settings x v (map (\<lambda>n. NativeMsr (n (msr x)))
     [IA32_FS_BASE, IA32_GS_BASE, IA32_KERNEL_GSBASE, IA32_SYSENTER_CS, IA32_SYSENTER_EIP, IA32_SYSENTER_ESP,
      IA32_STAR, IA32_LSTAR, IA32_CSTAR, IA32_FMASK, TSC, IA32_TSC_AUX])"

definition setup_capabilities :: "('e, 'v, 'w) framework \<Rightarrow> 'v \<Rightarrow> 'e failure + 'v" where
  "setup_capabilities x v =
     and_then (panics (CAP_PINBASED x)) (\<lambda>cap.
     and_then (settings x v [SetVmcs VMCS_CTRL_PIN_BASED cap, LogVmcs VMCS_CTRL_PIN_BASED]) (\<lambda>v.
     and_then (panics (CAP_PROCBASED x)) (\<lambda>cap.
     and_then (settings x v [SetVmcs VMCS_CTRL_CPU_BASED cap, LogVmcs VMCS_CTRL_CPU_BASED]) (\<lambda>v.
     and_then (panics (CAP_PROCBASED2 x)) (\<lambda>cap.
     and_then (settings x v [SetVmcs VMCS_CTRL_CPU_BASED2 cap, LogVmcs VMCS_CTRL_CPU_BASED2]) (\<lambda>v.
     and_then (panics (CAP_ENTRY x)) (\<lambda>cap.
     and_then (settings x v [SetVmcs VMCS_CTRL_VMENTRY_CONTROLS cap, LogVmcs VMCS_CTRL_VMENTRY_CONTROLS]) (\<lambda>v.
     and_then (panics (CAP_EXIT x)) (\<lambda>cap.
     settings x v [SetVmcs VMCS_CTRL_VMEXIT_CONTROLS cap, LogVmcs VMCS_CTRL_VMEXIT_CONTROLS])))))))))"

definition general_settings :: "u64 \<Rightarrow> setting list" where
  "general_settings entry_point =
     [SetVmcs VMCS_CTRL_EXC_BITMAP (push_bit 3 1 OR push_bit 1 1), SetVmcs VMCS_CTRL_TPR_THRESHOLD 0,
      SetVmcs VMCS_GUEST_SYSENTER_EIP 0, SetVmcs VMCS_GUEST_SYSENTER_ESP 0,
      SetReg RIP entry_point, SetReg RFLAGS 0x2, SetReg RSP (0x200000 - 0x1000), SetReg RBP 0,
      SetReg RAX 0, SetReg RBX 0, SetReg RCX 0, SetReg RDX 0, SetReg RSI 0, SetReg RDI BOOT_INFO_ADDR,
      SetReg R8 0, SetReg R9 0, SetReg R10 0, SetReg R11 0, SetReg R12 0, SetReg R13 0, SetReg R14 0, SetReg R15 0]"

definition mac_init :: "('e, 'v, 'w) framework \<Rightarrow> 'v \<Rightarrow> u64 \<Rightarrow> 'e failure + 'v" where
  "mac_init x v entry_point =
     and_then (setup_capabilities x v) (\<lambda>v.
     and_then (setup_msr x v) (\<lambda>v.
     and_then (settings x v (general_settings entry_point)) (\<lambda>v.
     and_then (setup_system_gdt x v) (\<lambda>v.
     setup_system_64bit x v))))"

subsection \<open>State of the exit loop\<close>

text \<open>
  What the loop changes: the processor of the framework, its copy of the base address register,
  guest memory, and the interrupt controller, which all processors share behind a lock; the lock is
  poisoned when a thread panics while it holds it.
\<close>

record 'v MacCPU =
  mc_vcpu :: 'v
  mc_apic_base :: u64
  mc_mem :: hmem
  mc_ioapic :: IoApic
  mc_poisoned :: bool

definition MacCPU_new :: "('e, 'v, 'w) framework \<Rightarrow> hmem \<Rightarrow> IoApic \<Rightarrow> 'v MacCPU res" where
  "MacCPU_new x m ioapic =
     map_ok (\<lambda>v. \<lparr>mc_vcpu = v, mc_apic_base = APIC_DEFAULT_BASE, mc_mem = m, mc_ioapic = ioapic, mc_poisoned = False\<rparr>)
       (unwrap_call (vCPU_new x))"

definition rd_vmcs :: "('e, 'v, 'w) framework \<Rightarrow> 'v MacCPU \<Rightarrow> vmcs \<Rightarrow> 'e failure + u64" where
  "rd_vmcs x c f = try_call (read_vmcs x (mc_vcpu c) f)"

definition rd_reg :: "('e, 'v, 'w) framework \<Rightarrow> 'v MacCPU \<Rightarrow> x86Reg \<Rightarrow> 'e failure + u64" where
  "rd_reg x c r = try_call (read_register x (mc_vcpu c) r)"

definition wr_vmcs :: "('e, 'v, 'w) framework \<Rightarrow> 'v MacCPU \<Rightarrow> vmcs \<Rightarrow> u64 \<Rightarrow> 'e failure + 'v MacCPU" where
  "wr_vmcs x c f a = map_ok (\<lambda>v. c\<lparr>mc_vcpu := v\<rparr>) (try_call (write_vmcs x (mc_vcpu c) f a))"

definition wr_reg :: "('e, 'v, 'w) framework \<Rightarrow> 'v MacCPU \<Rightarrow> x86Reg \<Rightarrow> u64 \<Rightarrow> 'e failure + 'v MacCPU" where
  "wr_reg x c r a = map_ok (\<lambda>v. c\<lparr>mc_vcpu := v\<rparr>) (try_call (write_register x (mc_vcpu c) r a))"

text \<open>Going on behind the instruction that left the guest.\<close>

definition advance :: "('e, 'v, 'w) framework \<Rightarrow> bool \<Rightarrow> 'v MacCPU \<Rightarrow> u64 \<Rightarrow> u64 \<Rightarrow> 'e failure + 'v MacCPU" where
  "advance x oc c ip len = and_then (panics (add_oc oc ip len)) (wr_reg x c RIP)"

definition low32 :: "u64 \<Rightarrow> u64" where
  "low32 a = a AND 0xFFFFFFFF"

subsection \<open>Emulated instructions\<close>

definition id_words :: "u8 list \<Rightarrow> (u64 \<times> u64 \<times> u64 \<times> u64) res" where
  "id_words s =
     map_ok (\<lambda>buf. (ucast (from_le (take 4 buf) :: u32), ucast (from_le (take 4 (drop 4 buf)) :: u32),
         ucast (from_le (take 4 (drop 8 buf)) :: u32), ucast (from_le (take 4 (drop 12 buf)) :: u32)))
       (copy_id (replicate 16 0) s)"

definition cpuid_values :: "('e, 'v, 'w) framework \<Rightarrow> u64 \<Rightarrow> u64 \<Rightarrow> (u64 \<times> u64 \<times> u64 \<times> u64) res" where
  "cpuid_values x a c =
     (if a = 0x80000002 then id_words id_first
      else if a = 0x80000003 then id_words id_second
      else if a = 0x80000004 then Inr (0, 0, 0, 0)
      else
        let extended_features = a = 7 \<and> c = 0;
            processor_info = a = 1;
            (eax, ebx, ecx, edx) = cpuid_count x (ucast a) (ucast c) in
        Inr (ucast eax, (if extended_features then ucast ebx AND NOT (push_bit 2 1) else ucast ebx),
          (if processor_info then ucast ecx OR push_bit 31 1 else ucast ecx), ucast edx))"

definition emulate_cpuid :: "('e, 'v, 'w) framework \<Rightarrow> bool \<Rightarrow> 'v MacCPU \<Rightarrow> u64 \<Rightarrow> 'e failure + 'v MacCPU" where
  "emulate_cpuid x oc c ip =
     and_then (rd_vmcs x c VMCS_RO_VMEXIT_INSTR_LEN) (\<lambda>len.
     and_then (rd_reg x c RAX) (\<lambda>a.
     and_then (rd_reg x c RCX) (\<lambda>n.
     and_then (panics (cpuid_values x a n)) (\<lambda>(eax, ebx, ecx, edx).
     and_then (wr_reg x c RAX eax) (\<lambda>c.
     and_then (wr_reg x c RBX ebx) (\<lambda>c.
     and_then (wr_reg x c RCX ecx) (\<lambda>c.
     and_then (wr_reg x c RDX edx) (\<lambda>c.
     advance x oc c ip len))))))))"

definition msr_value :: "('e, 'v, 'w) framework \<Rightarrow> 'v MacCPU \<Rightarrow> u32 \<Rightarrow> 'e failure + u64 \<times> u64" where
  "msr_value x c n =
     (if n = IA32_EFER (msr x) then map_ok (\<lambda>efer. (low32 efer, drop_bit 32 efer)) (rd_vmcs x c VMCS_GUEST_IA32_EFER)
      else if n = IA32_MISC_ENABLE (msr x) then Inr (0, 0)
      else if n = IA32_APIC_BASE (msr x) then Inr (low32 (mc_apic_base c), low32 (drop_bit 32 (mc_apic_base c)))
      else Inl (Panic ExplicitPanic))"

definition emulate_rdmsr :: "('e, 'v, 'w) framework \<Rightarrow> bool \<Rightarrow> 'v MacCPU \<Rightarrow> u64 \<Rightarrow> 'e failure + 'v MacCPU" where
  "emulate_rdmsr x oc c ip =
     and_then (rd_vmcs x c VMCS_RO_VMEXIT_INSTR_LEN) (\<lambda>len.
     and_then (rd_reg x c RCX) (\<lambda>n.
     and_then (msr_value x c (ucast (low32 n))) (\<lambda>(a, d).
     and_then (wr_reg x c RAX a) (\<lambda>c.
     and_then (wr_reg x c RDX d) (\<lambda>c.
     advance x oc c ip len)))))"

text \<open>The 64-bit value in the low halves of two registers.\<close>

definition pair_value :: "('e, 'v, 'w) framework \<Rightarrow> 'v MacCPU \<Rightarrow> 'e failure + u64" where
  "pair_value x c =
     and_then (rd_reg x c RAX) (\<lambda>a.
     and_then (rd_reg x c RDX) (\<lambda>d.
     Inr (push_bit 32 (low32 d) OR low32 a)))"

definition x2apic_ignored :: "msr_consts \<Rightarrow> u32 list" where
  "x2apic_ignored k =
     [IA32_X2APIC_TPR k, IA32_X2APIC_SIVR k, IA32_X2APIC_LVT_TIMER k, IA32_X2APIC_LVT_THERMAL k, IA32_X2APIC_LVT_PMI k,
      IA32_X2APIC_LVT_LINT0 k, IA32_X2APIC_LVT_LINT1 k, IA32_X2APIC_LVT_ERROR k, IA32_X2APIC_EOI k, IA32_X2APIC_ICR k]"

definition set_msr :: "('e, 'v, 'w) framework \<Rightarrow> 'v MacCPU \<Rightarrow> u32 \<Rightarrow> 'e failure + 'v MacCPU" where
  "set_msr x c n =
     (if n = IA32_EFER (msr x) then and_then (pair_value x c) (wr_vmcs x c VMCS_GUEST_IA32_EFER)
      else if n = IA32_APIC_BASE (msr x) then
        and_then (pair_value x c) (\<lambda>base.
        map_ok (\<lambda>v. c\<lparr>mc_apic_base := base, mc_vcpu := v\<rparr>) (try_call (set_apic_addr x (mc_vcpu c) (base AND NOT 0xFFF))))
      else if n \<in> set (x2apic_ignored (msr x)) then Inr c
      else Inl (Panic ExplicitPanic))"

definition emulate_wrmsr :: "('e, 'v, 'w) framework \<Rightarrow> bool \<Rightarrow> 'v MacCPU \<Rightarrow> u64 \<Rightarrow> 'e failure + 'v MacCPU" where
  "emulate_wrmsr x oc c ip =
     and_then (rd_vmcs x c VMCS_RO_VMEXIT_INSTR_LEN) (\<lambda>len.
     and_then (rd_reg x c RCX) (\<lambda>n.
     and_then (set_msr x c (ucast (low32 n))) (\<lambda>c.
     advance x oc c ip len)))"

definition emulate_xsetbv :: "('e, 'v, 'w) framework \<Rightarrow> bool \<Rightarrow> 'v MacCPU \<Rightarrow> u64 \<Rightarrow> 'e failure + 'v MacCPU" where
  "emulate_xsetbv x oc c ip =
     and_then (rd_vmcs x c VMCS_RO_VMEXIT_INSTR_LEN) (\<lambda>len.
     and_then (pair_value x c) (\<lambda>xcr0.
     and_then (wr_reg x c XCR0 xcr0) (\<lambda>c.
     advance x oc c ip len)))"

subsection \<open>Accesses to the interrupt controller\<close>

fun operand_reg :: "OperandType \<Rightarrow> x86Reg option" where
  "operand_reg REG_EDI = Some RDI"
| "operand_reg REG_ESI = Some RSI"
| "operand_reg REG_EBP = Some RBP"
| "operand_reg REG_EAX = Some RAX"
| "operand_reg REG_EBX = Some RBX"
| "operand_reg REG_ECX = Some RCX"
| "operand_reg REG_EDX = Some RDX"
| "operand_reg IMM = None"
| "operand_reg OtherOperand = None"

definition lock_ioapic :: "'v MacCPU \<Rightarrow> IoApic res" where
  "lock_ioapic c = (if mc_poisoned c then Inl UnwrapFailed else Inr (mc_ioapic c))"

definition ioapic_store :: "('e, 'v, 'w) framework \<Rightarrow> bool \<Rightarrow> Instruction \<Rightarrow> 'v MacCPU \<Rightarrow> u64 \<Rightarrow> 'e failure + 'v MacCPU" where
  "ioapic_store x oc instr c address =
     and_then (panics (index (operands instr) 1)) (\<lambda>(operand, immediate).
     and_then (if operand = IMM then Inr immediate
               else case operand_reg operand of
                      Some r \<Rightarrow> map_ok low32 (rd_reg x c r)
                    | None \<Rightarrow> Inl (Panic ExplicitPanic)) (\<lambda>val.
     and_then (panics (lock_ioapic c)) (\<lambda>ioapic.
     and_then (panics (sub_oc oc address IOAPIC_BASE)) (\<lambda>offset.
     map_ok (\<lambda>ioapic. c\<lparr>mc_ioapic := ioapic\<rparr>) (panics (ioapic_write ioapic offset val))))))"

definition ioapic_load :: "('e, 'v, 'w) framework \<Rightarrow> bool \<Rightarrow> Instruction \<Rightarrow> 'v MacCPU \<Rightarrow> u64 \<Rightarrow> 'e failure + 'v MacCPU" where
  "ioapic_load x oc instr c address =
     and_then (panics (lock_ioapic c)) (\<lambda>ioapic.
     and_then (panics (sub_oc oc address IOAPIC_BASE)) (\<lambda>offset.
     and_then (panics (ioapic_read ioapic offset)) (\<lambda>value.
     and_then (panics (index (operands instr) 0)) (\<lambda>(operand, _).
     case operand_reg operand of
       Some r \<Rightarrow> wr_reg x c r value
     | None \<Rightarrow> Inl (Panic ExplicitPanic)))))"

definition emulate_ioapic ::
  "('e, 'v, 'w) framework \<Rightarrow> bool \<Rightarrow> usize \<Rightarrow> 'v MacCPU \<Rightarrow> u64 \<Rightarrow> u64 \<Rightarrow> 'e failure + 'v MacCPU" where
  "emulate_ioapic x oc vm_start c ip address =
     and_then (rd_vmcs x c VMCS_RO_VMEXIT_INSTR_LEN) (\<lambda>len.
     and_then (rd_vmcs x c VMCS_RO_EXIT_QUALIFIC) (\<lambda>qualification.
     let is_read = qualification AND push_bit 0 1 \<noteq> 0;
         is_write = qualification AND push_bit 1 1 \<noteq> 0 in
     and_then (panics (host_address oc vm_start ip)) (\<lambda>p.
     and_then (panics (load_bytes (mc_mem c) p 8)) (\<lambda>code.
     and_then
       (case disassemble_64 x code ip of
          None \<Rightarrow> Inr c
        | Some instr \<Rightarrow>
            if operation instr = MOV then
              and_then (if is_write then ioapic_store x oc instr c address else Inr c) (\<lambda>c.
              if is_read then ioapic_load x oc instr c address else Inr c)
            else Inl (Panic ExplicitPanic)) (\<lambda>c.
     advance x oc c ip len)))))"

subsection \<open>Translation\<close>

definition mac_host_address :: "bool \<Rightarrow> usize \<Rightarrow> usize \<Rightarrow> usize res" where
  "mac_host_address oc vm_start addr = add_oc oc addr vm_start"

text \<open>
  The loop of \<^verbatim>\<open>virt_to_phys\<close> over its rounds: \<^const>\<open>Inl\<close> is the value of an early return, \<^const>\<open>Inr\<close> holds
  \<^verbatim>\<open>page_table\<close>, \<^verbatim>\<open>page_bits\<close> and \<^verbatim>\<open>entry\<close>.
\<close>

fun mac_walk_round :: "bool \<Rightarrow> usize \<Rightarrow> hmem \<Rightarrow> usize \<Rightarrow> usize + usize \<times> nat \<times> usize \<Rightarrow> nat \<Rightarrow> (usize + usize \<times> nat \<times> usize) res" where
  "mac_walk_round oc vm_start m addr (Inl r) _ = Inr (Inl r)"
| "mac_walk_round oc vm_start m addr (Inr (page_table, page_bits, entry)) _ =
     (let i = drop_bit page_bits addr AND (push_bit PAGE_MAP_BITS 1 - 1) in
      and_then (load m (page_table + 8 * i)) (\<lambda>raw.
      let entry = raw AND NOT EXECUTE_DISABLE in
      if entry AND HUGE_PAGE \<noteq> 0 then
        Inr (Inl ((entry AND push_bit page_bits (NOT 0)) OR (addr AND NOT (push_bit page_bits (NOT 0)))))
      else
        and_then (mac_host_address oc vm_start (entry AND NOT (push_bit PAGE_BITS 1 - 1))) (\<lambda>page_table.
        Inr (Inr (page_table, page_bits - PAGE_MAP_BITS, entry)))))"

definition mac_virt_to_phys :: "bool \<Rightarrow> usize \<Rightarrow> hmem \<Rightarrow> usize \<Rightarrow> usize res" where
  "mac_virt_to_phys oc vm_start m addr =
     and_then (mac_host_address oc vm_start BOOT_PML4) (\<lambda>page_table.
     and_then (for_each (mac_walk_round oc vm_start m addr) (Inr (page_table, 39, 0)) [0..<4]) (\<lambda>s.
     case s of
       Inl r \<Rightarrow> Inr r
     | Inr (_, _, entry) \<Rightarrow> Inr ((entry AND push_bit PAGE_BITS (NOT 0)) OR (addr AND NOT (push_bit PAGE_BITS (NOT 0))))))"

subsection \<open>Output of the guest\<close>

text \<open>The address of the arguments of a hypercall.\<close>

definition mac_data_addr :: "('e, 'v, 'w) framework \<Rightarrow> bool \<Rightarrow> usize \<Rightarrow> 'v MacCPU \<Rightarrow> 'e failure + usize" where
  "mac_data_addr x oc vm_start c =
     and_then (rd_reg x c RAX) (\<lambda>a. panics (mac_host_address oc vm_start (low32 a)))"

text \<open>
  A hypercall that changes memory and the host, and one that only changes the host and is
  unwrapped; both go on behind the instruction.
\<close>

definition mac_call ::
  "('e, 'v, 'w) framework \<Rightarrow> bool \<Rightarrow> 'v MacCPU \<Rightarrow> u64 \<Rightarrow> u64 \<Rightarrow> 'e failure + hmem \<times> 'w \<Rightarrow>
     ('e failure + unit VcpuStopReason option \<times> 'v MacCPU \<times> 'w) option" where
  "mac_call x oc c ip len r =
     Some (and_then r (\<lambda>(m, w). map_ok (\<lambda>c. (None, c, w)) (advance x oc (c\<lparr>mc_mem := m\<rparr>) ip len)))"

fun unwrap_io :: "io_error failure + 'a \<Rightarrow> 'a res" where
  "unwrap_io (Inl (Panic f)) = Inl f"
| "unwrap_io (Inl (Err e)) = Inl UnwrapFailed"
| "unwrap_io (Inr y) = Inr y"

definition mac_io_out ::
  "('e, 'v, 'w) framework \<Rightarrow> bool \<Rightarrow> usize \<Rightarrow> 'v MacCPU \<Rightarrow> 'w \<Rightarrow> u64 \<Rightarrow> u64 \<Rightarrow> u16 \<Rightarrow>
     ('e failure + unit VcpuStopReason option \<times> 'v MacCPU \<times> 'w) option" where
  "mac_io_out x oc vm_start c w ip len port =
     (let m = mc_mem c; lc = mac_libc x; args = mac_data_addr x oc vm_start c; done = mac_call x oc c ip len in
      if port = SHUTDOWN_PORT then Some (Inr (Some (Exit 0), c, w))
      else if port = UHYVE_UART_PORT then
        done (and_then (rd_reg x c RAX) (\<lambda>a. map_ok (\<lambda>w. (m, w)) (panics (unwrap_io (uart lc w [ucast (a AND 0xFF)])))))
      else if port = UHYVE_PORT_CMDSIZE then
        done (and_then args (\<lambda>p. map_ok (\<lambda>m. (m, w)) (panics (cmdsize oc (mac_kernel_path x) (mac_args x) (mac_vars x) m p))))
      else if port = UHYVE_PORT_CMDVAL then
        done (and_then args (\<lambda>p. map_ok (\<lambda>m. (m, w)) (panics (cmdval oc vm_start (mac_kernel_path x) (mac_args x) (mac_vars x) m p))))
      else if port = UHYVE_PORT_EXIT then
        Some (and_then args (\<lambda>p. map_ok (\<lambda>code. (Some (Exit code), c, w)) (panics (exit_code m p))))
      else if port = UHYVE_PORT_OPEN then done (and_then args (\<lambda>p. panics (open_file lc oc vm_start m w p)))
      else if port = UHYVE_PORT_WRITE then
        (case args of
           Inl e \<Rightarrow> Some (Inl e)
         | Inr p \<Rightarrow> Option.bind (write_file lc oc vm_start m w p) (\<lambda>r. done (map_ok (\<lambda>w. (m, w)) (panics (unwrap_io r)))))
      else if port = UHYVE_PORT_READ then done (and_then args (\<lambda>p. panics (read_file lc oc vm_start m w p)))
      else if port = UHYVE_PORT_UNLINK then done (and_then args (\<lambda>p. panics (unlink lc oc vm_start m w p)))
      else if port = UHYVE_PORT_LSEEK then done (and_then args (\<lambda>p. panics (lseek lc m w p)))
      else if port = UHYVE_PORT_CLOSE then done (and_then args (\<lambda>p. panics (close lc m w p)))
      else done (Inr (m, w)))"

definition mac_io ::
  "('e, 'v, 'w) framework \<Rightarrow> bool \<Rightarrow> usize \<Rightarrow> 'v MacCPU \<Rightarrow> 'w \<Rightarrow> u64 \<Rightarrow>
     ('e failure + unit VcpuStopReason option \<times> 'v MacCPU \<times> 'w) option" where
  "mac_io x oc vm_start c w ip =
     (case and_then (rd_vmcs x c VMCS_RO_EXIT_QUALIFIC) (\<lambda>qualification.
           and_then (rd_vmcs x c VMCS_RO_VMEXIT_INSTR_LEN) (\<lambda>len.
           and_then (panics (rust_assert (qualification AND 8 = 0))) (\<lambda>_.
           Inr (len, ucast (drop_bit 16 qualification AND 0xFFFF))))) of
        Inl e \<Rightarrow> Some (Inl e)
      | Inr (len, port) \<Rightarrow> mac_io_out x oc vm_start c w ip len port)"

subsection \<open>The loop\<close>

definition debug_exit :: "('e, 'v, 'w) framework \<Rightarrow> 'v MacCPU \<Rightarrow> 'w \<Rightarrow> 'e failure + unit VcpuStopReason option \<times> 'v MacCPU \<times> 'w" where
  "debug_exit x c w =
     and_then (rd_vmcs x c VMCS_RO_VMEXIT_IRQ_INFO) (\<lambda>irq_info.
     let irq_vec = irq_info AND 0xFF;
         valid = irq_info AND push_bit 31 1 \<noteq> 0;
         trap_or_breakpoint = irq_vec = 3 \<or> irq_vec = 1 in
     and_then (panics (rust_assert (valid \<and> trap_or_breakpoint))) (\<lambda>_.
     Inr (Some (DebugStop ()), c, w)))"

definition ept_violation :: "('e, 'v, 'w) framework \<Rightarrow> bool \<Rightarrow> usize \<Rightarrow> 'v MacCPU \<Rightarrow> u64 \<Rightarrow> 'e failure + 'v MacCPU" where
  "ept_violation x oc vm_start c ip =
     and_then (rd_vmcs x c VMCS_GUEST_PHYSICAL_ADDRESS) (\<lambda>gpa.
     if IOAPIC_BASE \<le> gpa \<and> gpa < IOAPIC_BASE + IOAPIC_SIZE then emulate_ioapic x oc vm_start c ip gpa else Inr c)"

definition go_on :: "'w \<Rightarrow> 'e failure + 'v MacCPU \<Rightarrow> ('e failure + unit VcpuStopReason option \<times> 'v MacCPU \<times> 'w) option" where
  "go_on w r = Some (map_ok (\<lambda>c. (None, c, w)) r)"

definition mac_handle_exit ::
  "('e, 'v, 'w) framework \<Rightarrow> bool \<Rightarrow> usize \<Rightarrow> 'v MacCPU \<Rightarrow> 'w \<Rightarrow>
     ('e failure + unit VcpuStopReason option \<times> 'v MacCPU \<times> 'w) option" where
  "mac_handle_exit x oc vm_start c w =
     (case and_then (rd_vmcs x c VMCS_RO_EXIT_REASON) (\<lambda>r. map_ok (\<lambda>ip. (r AND 0xffff, ip)) (rd_reg x c RIP)) of
        Inl e \<Rightarrow> Some (Inl e)
      | Inr (reason, ip) \<Rightarrow>
          if reason = VMX_REASON_EXC_NMI (vmx x) then Some (debug_exit x c w)
          else if reason = VMX_REASON_CPUID (vmx x) then go_on w (emulate_cpuid x oc c ip)
          else if reason = VMX_REASON_RDMSR (vmx x) then go_on w (emulate_rdmsr x oc c ip)
          else if reason = VMX_REASON_WRMSR (vmx x) then go_on w (emulate_wrmsr x oc c ip)
          else if reason = VMX_REASON_XSETBV (vmx x) then go_on w (emulate_xsetbv x oc c ip)
          else if reason = VMX_REASON_IRQ (vmx x) then go_on w (Inr c)
          else if reason = VMX_REASON_EPT_VIOLATION (vmx x) then go_on w (ept_violation x oc vm_start c ip)
          else if reason = VMX_REASON_RDRAND (vmx x) then go_on w (Inr c)
          else if reason = VMX_REASON_IO (vmx x) then mac_io x oc vm_start c w ip
          else Some (Inl (Panic UnimplementedCode)))"

definition mac_run_guest :: "('e, 'v, 'w) framework \<Rightarrow> 'v MacCPU \<Rightarrow> 'w \<Rightarrow> 'e failure + 'v MacCPU \<times> 'w" where
  "mac_run_guest x c w =
     (case hv_run x (mc_vcpu c) (mc_mem c) w of
        (r, m, w) \<Rightarrow> map_ok (\<lambda>v. (c\<lparr>mc_vcpu := v, mc_mem := m\<rparr>, w)) (try_call r))"

partial_function (option) mac_continue ::
  "('e, 'v, 'w) framework \<Rightarrow> bool \<Rightarrow> usize \<Rightarrow> 'v MacCPU \<Rightarrow> 'w \<Rightarrow>
     ('e failure + unit VcpuStopReason \<times> 'v MacCPU \<times> 'w) option" where
  "mac_continue hv oc vm_start c w =
     (case mac_run_guest hv c w of
        Inl e \<Rightarrow> Some (Inl e)
      | Inr (c, w) \<Rightarrow>
          Option.bind (mac_handle_exit hv oc vm_start c w) (\<lambda>res.
          case res of
            Inl e \<Rightarrow> Some (Inl e)
          | Inr (Some reason, c, w) \<Rightarrow> Some (Inr (reason, c, w))
          | Inr (None, c, w) \<Rightarrow> mac_continue hv oc vm_start c w))"

definition mac_run ::
  "('e, 'v, 'w) framework \<Rightarrow> bool \<Rightarrow> usize \<Rightarrow> 'v MacCPU \<Rightarrow> 'w \<Rightarrow> ('e failure + i32 option \<times> 'v MacCPU \<times> 'w) option" where
  "mac_run x oc vm_start c w =
     map_option (\<lambda>r. and_then r (\<lambda>(reason, c, w).
       case reason of
         DebugStop _ \<Rightarrow> Inl (Panic UnreachableCode)
       | Exit code \<Rightarrow> Inr (Some code, c, w)
       | Kick \<Rightarrow> Inr (None, c, w))) (mac_continue x oc vm_start c w)"

end
