(* ===== verification/Macos_Properties.thy ===== *)
theory Macos_Properties
  imports Vcpu_Macos
begin

text \<open>
  Properties of a virtual processor on macOS: its translation and its hypercalls are those of Linux,
  the processor starts in a state that fits the boot structures, model-specific registers give back
  what is written to them, and the exit loop keeps the machine in shape.
\<close>

subsection \<open>Translation\<close>

lemma walk_rounds_returned:
  "for_each (mac_walk_round oc vm_start m addr) (Inl r) xs = Inr (Inl r)"
  by (induction xs) simp_all

lemma walk_rounds:
  "and_then (for_each (mac_walk_round oc vm_start m addr) (Inr (page_table, page_bits, entry)) xs) (\<lambda>s.
     case s of Inl r \<Rightarrow> Inr r
     | Inr (_, _, entry) \<Rightarrow> Inr ((entry AND push_bit PAGE_BITS (NOT 0)) OR (addr AND NOT (push_bit PAGE_BITS (NOT 0))))) =
   walk_tables oc vm_start m addr (length xs) page_table page_bits entry"
proof (induction xs arbitrary: page_table page_bits entry)
  case (Cons x xs)
  let ?i = "drop_bit page_bits addr AND (2 ^ PAGE_MAP_BITS - 1)"
  show ?case
  proof (cases "load m (page_table + 8 * ?i) :: u64 res")
    case (Inr raw)
    then show ?thesis
      by (cases "host_address oc vm_start ((raw AND NOT EXECUTE_DISABLE) AND NOT (2 ^ PAGE_BITS - 1))")
        (simp_all add: Cons.IH walk_rounds_returned mac_host_address_def host_address_def Let_def push_bit_of_1)
  qed (simp add: Let_def push_bit_of_1)
qed simp

lemma mac_virt_to_phys_eq: "mac_virt_to_phys oc vm_start m addr = virt_to_phys oc vm_start m addr"
  using walk_rounds [of oc vm_start m addr _ 39 0 "[0..<4]"]
  by (simp add: mac_virt_to_phys_def virt_to_phys_def mac_host_address_def host_address_def)

text \<open>Both variants of the hypervisor translate guest addresses alike, in every memory and build.\<close>

theorem virt_to_phys_same:
  "mac_virt_to_phys oc vm_start m addr = virt_to_phys oc vm_start m addr"
  by (rule mac_virt_to_phys_eq)

subsection \<open>Hypercalls\<close>

lemma low32_take_bit: "low32 a = take_bit 32 a"
proof -
  have "(0xFFFFFFFF :: u64) = mask 32" by (simp add: mask_eq_exp_minus_1)
  then show ?thesis by (simp only: low32_def take_bit_eq_mask)
qed

lemma low32_ucast: "low32 a = ucast (ucast a :: u32)"
  by (rule bit_word_eqI) (auto simp: low32_take_bit bit_simps)

text \<open>What the loop makes of the result of a port access on Linux: the state of macOS with its memory.\<close>

fun from_linux ::
  "('e, 'v, 'w) framework \<Rightarrow> bool \<Rightarrow> 'v MacCPU \<Rightarrow> u64 \<Rightarrow> u64 \<Rightarrow> i32 failure + unit VcpuStopReason option \<times> 'i UhyveCPU \<times> 'w \<Rightarrow>
     'e failure + unit VcpuStopReason option \<times> 'v MacCPU \<times> 'w" where
  "from_linux x oc c ip len (Inl (Panic f)) = Inl (Panic f)"
| "from_linux x oc c ip len (Inl (Err _)) = Inl (Panic UnwrapFailed)"
| "from_linux x oc c ip len (Inr (Some s, k, w)) = Inr (Some s, c, w)"
| "from_linux x oc c ip len (Inr (None, k, w)) = map_ok (\<lambda>c. (None, c, w)) (advance x oc (c\<lparr>mc_mem := cpu_mem k\<rparr>) ip len)"

definition same_services :: "('e, 'v, 'w) framework \<Rightarrow> ('w, 'i, unit) surroundings \<Rightarrow> bool" where
  "same_services x env \<longleftrightarrow> mac_libc x = libc_calls env \<and> mac_kernel_path x = kernel_path env \<and>
     mac_args x = process_args env \<and> mac_vars x = process_vars env"

definition shared_ports :: "u16 list" where
  "shared_ports = [UHYVE_PORT_CMDSIZE, UHYVE_PORT_CMDVAL, UHYVE_PORT_EXIT, UHYVE_PORT_OPEN, UHYVE_PORT_WRITE, UHYVE_PORT_READ,
     UHYVE_PORT_UNLINK, UHYVE_PORT_LSEEK, UHYVE_PORT_CLOSE]"

lemmas mac_ports = out_ports UHYVE_PORT_READ_def UHYVE_PORT_UNLINK_def UHYVE_PORT_LSEEK_def UHYVE_PORT_CLOSE_def SHUTDOWN_PORT_def

lemma mac_data_addr_eq:
  assumes "read_register x (mc_vcpu c) RAX = Inr r"
  shows "mac_data_addr x oc vm_start c = panics (data_addr oc vm_start (to_le 4 (ucast r :: u32)) rest)"
  using assms by (simp add: mac_data_addr_def rd_reg_def data_addr_def mac_host_address_def host_address_def low32_ucast)

lemma panics_and_then: "panics (and_then r f) = and_then (panics r) (\<lambda>y. panics (f y))"
  by (cases r) simp_all

lemma map_ok_and_then: "map_ok g (and_then r f) = and_then r (\<lambda>y. map_ok g (f y))"
  by (cases r) simp_all

lemma from_linux_mem:
  "mc_mem c = cpu_mem k \<Longrightarrow> map_option (from_linux x oc c ip len) (on_mem k w r) = mac_call x oc c ip len (map_ok (\<lambda>m. (m, w)) (panics r))"
  by (cases r) (simp_all add: on_mem_def mac_call_def)

lemma from_linux_mem_host:
  "map_option (from_linux x oc c ip len) (on_mem_host k r) = mac_call x oc c ip len (panics r)"
  by (cases r) (auto simp: on_mem_host_def mac_call_def)

text \<open>The shared services on both hosts, as functions of the argument address.\<close>

lemma io_out_calls:
  "io_out env oc vs k w UHYVE_PORT_CMDSIZE addr rest =
      on_mem k w (and_then (data_addr oc vs addr rest) (cmdsize oc (kernel_path env) (process_args env) (process_vars env) (cpu_mem k)))"
  "io_out env oc vs k w UHYVE_PORT_CMDVAL addr rest =
      on_mem k w (and_then (data_addr oc vs addr rest) (cmdval oc vs (kernel_path env) (process_args env) (process_vars env) (cpu_mem k)))"
  "io_out env oc vs k w UHYVE_PORT_EXIT addr rest =
      Some (panics (map_ok (\<lambda>code. (Some (Exit code), k, w)) (and_then (data_addr oc vs addr rest) (exit_code (cpu_mem k)))))"
  "io_out env oc vs k w UHYVE_PORT_OPEN addr rest = on_mem_host k (and_then (data_addr oc vs addr rest) (open_file (libc_calls env) oc vs (cpu_mem k) w))"
  "io_out env oc vs k w UHYVE_PORT_WRITE addr rest =
      (case data_addr oc vs addr rest of Inl f \<Rightarrow> Some (Inl (Panic f))
       | Inr p \<Rightarrow> map_option (\<lambda>r. map_ok (\<lambda>w. (None, k, w)) (host_errors (errno_of_io env) r)) (write_file (libc_calls env) oc vs (cpu_mem k) w p))"
  "io_out env oc vs k w UHYVE_PORT_READ addr rest = on_mem_host k (and_then (data_addr oc vs addr rest) (read_file (libc_calls env) oc vs (cpu_mem k) w))"
  "io_out env oc vs k w UHYVE_PORT_UNLINK addr rest = on_mem_host k (and_then (data_addr oc vs addr rest) (unlink (libc_calls env) oc vs (cpu_mem k) w))"
  "io_out env oc vs k w UHYVE_PORT_LSEEK addr rest = on_mem_host k (and_then (data_addr oc vs addr rest) (lseek (libc_calls env) (cpu_mem k) w))"
  "io_out env oc vs k w UHYVE_PORT_CLOSE addr rest = on_mem_host k (and_then (data_addr oc vs addr rest) (close (libc_calls env) (cpu_mem k) w))"
  by (simp_all add: io_out_def mac_ports Let_def)

lemma mac_io_out_calls:
  "mac_io_out x oc vs c w ip len UHYVE_PORT_CMDSIZE =
      mac_call x oc c ip len (and_then (mac_data_addr x oc vs c) (\<lambda>p. map_ok (\<lambda>m. (m, w)) (panics (cmdsize oc (mac_kernel_path x) (mac_args x) (mac_vars x) (mc_mem c) p))))"
  "mac_io_out x oc vs c w ip len UHYVE_PORT_CMDVAL =
      mac_call x oc c ip len (and_then (mac_data_addr x oc vs c) (\<lambda>p. map_ok (\<lambda>m. (m, w)) (panics (cmdval oc vs (mac_kernel_path x) (mac_args x) (mac_vars x) (mc_mem c) p))))"
  "mac_io_out x oc vs c w ip len UHYVE_PORT_EXIT =
      Some (and_then (mac_data_addr x oc vs c) (\<lambda>p. map_ok (\<lambda>code. (Some (Exit code), c, w)) (panics (exit_code (mc_mem c) p))))"
  "mac_io_out x oc vs c w ip len UHYVE_PORT_OPEN =
      mac_call x oc c ip len (and_then (mac_data_addr x oc vs c) (\<lambda>p. panics (open_file (mac_libc x) oc vs (mc_mem c) w p)))"
  "mac_io_out x oc vs c w ip len UHYVE_PORT_WRITE =
      (case mac_data_addr x oc vs c of Inl e \<Rightarrow> Some (Inl e)
       | Inr p \<Rightarrow> Option.bind (write_file (mac_libc x) oc vs (mc_mem c) w p) (\<lambda>r. mac_call x oc c ip len (map_ok (\<lambda>w. (mc_mem c, w)) (panics (unwrap_io r)))))"
  "mac_io_out x oc vs c w ip len UHYVE_PORT_READ =
      mac_call x oc c ip len (and_then (mac_data_addr x oc vs c) (\<lambda>p. panics (read_file (mac_libc x) oc vs (mc_mem c) w p)))"
  "mac_io_out x oc vs c w ip len UHYVE_PORT_UNLINK =
      mac_call x oc c ip len (and_then (mac_data_addr x oc vs c) (\<lambda>p. panics (unlink (mac_libc x) oc vs (mc_mem c) w p)))"
  "mac_io_out x oc vs c w ip len UHYVE_PORT_LSEEK =
      mac_call x oc c ip len (and_then (mac_data_addr x oc vs c) (\<lambda>p. panics (lseek (mac_libc x) (mc_mem c) w p)))"
  "mac_io_out x oc vs c w ip len UHYVE_PORT_CLOSE =
      mac_call x oc c ip len (and_then (mac_data_addr x oc vs c) (\<lambda>p. panics (close (mac_libc x) (mc_mem c) w p)))"
  by (simp_all add: mac_io_out_def mac_ports Let_def)

text \<open>
  C8. A guest gets the same service on both hosts: for the nine hypercalls both variants have, the
  call on macOS with the argument address in a register does to guest memory and host exactly what
  the call on Linux does with the address in the port data, stops for the same reason, fails where it
  fails, and otherwise goes on behind the instruction.
\<close>

theorem hypercalls_match_linux:
  fixes x :: "('e, 'v, 'w) framework" and env :: "('w, 'i, unit) surroundings"
  assumes "port \<in> set shared_ports" and "read_register x (mc_vcpu c) RAX = Inr r" and "mc_mem c = cpu_mem k" and "same_services x env"
  shows "mac_io_out x oc vm_start c w ip len port =
    map_option (from_linux x oc c ip len) (io_out env oc vm_start k w port (to_le 4 (ucast r :: u32)) rest)"
proof -
  let ?a = "data_addr oc vm_start (to_le 4 (ucast r :: u32)) rest"
  note args = mac_data_addr_eq [OF assms(2), of oc vm_start rest]
  have env: "mac_libc x = libc_calls env" "mac_kernel_path x = kernel_path env" "mac_args x = process_args env" "mac_vars x = process_vars env"
    using assms(4) by (simp_all add: same_services_def)
  note calls = io_out_calls mac_io_out_calls args env assms(3)
  note same = from_linux_mem [OF assms(3), of x oc ip len w] from_linux_mem_host [of x oc c ip len k] panics_and_then map_ok_and_then
  consider "port = UHYVE_PORT_CMDSIZE" | "port = UHYVE_PORT_CMDVAL" | "port = UHYVE_PORT_EXIT" | "port = UHYVE_PORT_OPEN" | "port = UHYVE_PORT_WRITE"
    | "port = UHYVE_PORT_READ" | "port = UHYVE_PORT_UNLINK" | "port = UHYVE_PORT_LSEEK" | "port = UHYVE_PORT_CLOSE"
    using assms(1) unfolding shared_ports_def by auto
  then show ?thesis
  proof cases
    case 3
    show ?thesis unfolding 3 calls by (cases ?a; cases "exit_code (cpu_mem k) (projr ?a)") simp_all
  next
    case 5
    show ?thesis
    proof (cases ?a)
      case (Inr p)
      then show ?thesis unfolding 5 calls
        by (cases "write_file (libc_calls env) oc vm_start (cpu_mem k) w p";
            cases "the (write_file (libc_calls env) oc vm_start (cpu_mem k) w p)" rule: unwrap_io.cases)
          (simp_all add: mac_call_def)
    qed (simp add: 5 calls)
  qed (simp_all only: calls same)
qed

subsection \<open>What the framework documents\<close>

definition same_state :: "('e, 'v, 'w) framework \<Rightarrow> 'v \<Rightarrow> 'v \<Rightarrow> bool" where
  "same_state x v v' \<longleftrightarrow> (\<forall>r. read_register x v' r = read_register x v r) \<and> (\<forall>f. read_vmcs x v' f = read_vmcs x v f)"

text \<open>A written register or field reads back, and nothing else changes.\<close>

definition framework_laws :: "('e, 'v, 'w) framework \<Rightarrow> bool" where
  "framework_laws x \<longleftrightarrow>
     (\<forall>v q a v'. write_register x v q a = Inr v' \<longrightarrow>
        (\<forall>r. read_register x v' r = (if r = q then Inr a else read_register x v r)) \<and> (\<forall>f. read_vmcs x v' f = read_vmcs x v f)) \<and>
     (\<forall>v g a v'. write_vmcs x v g a = Inr v' \<longrightarrow>
        (\<forall>r. read_register x v' r = read_register x v r) \<and> (\<forall>f. read_vmcs x v' f = (if f = g then Inr a else read_vmcs x v f))) \<and>
     (\<forall>v n b v'. enable_native_msr x v n b = Inr v' \<longrightarrow> same_state x v v') \<and>
     (\<forall>v a v'. set_apic_addr x v a = Inr v' \<longrightarrow> same_state x v v')"

text \<open>The numbers of the architecture behind the names of the bindings.\<close>

definition arch_numbers :: "('e, 'v, 'w) framework \<Rightarrow> bool" where
  "arch_numbers x \<longleftrightarrow>
     PROTECTED_MODE_ENABLE (vmx x) = push_bit 0 1 \<and> EXTENSION_TYPE (vmx x) = push_bit 4 1 \<and> NUMERIC_ERROR (vmx x) = push_bit 5 1 \<and>
     PAGING (vmx x) = push_bit 31 1 \<and> PHYSICAL_ADDRESS_EXTENSION (vmx x) = push_bit 5 1 \<and>
     SegmentSelector_ring0 (vmx x) = push_bit 3 \<and>
     IA32_EFER (msr x) = 0xC0000080 \<and> IA32_MISC_ENABLE (msr x) = 0x1A0 \<and> IA32_APIC_BASE (msr x) = 0x1B"

lemma framework_lawsD:
  assumes "framework_laws x"
  shows "write_register x v q a = Inr v' \<Longrightarrow> read_register x v' r = (if r = q then Inr a else read_register x v r)"
    and "write_register x v q a = Inr v' \<Longrightarrow> read_vmcs x v' f = read_vmcs x v f"
    and "write_vmcs x v g a = Inr v' \<Longrightarrow> read_register x v' r = read_register x v r"
    and "write_vmcs x v g a = Inr v' \<Longrightarrow> read_vmcs x v' f = (if f = g then Inr a else read_vmcs x v f)"
    and "enable_native_msr x v n b = Inr v' \<Longrightarrow> same_state x v v'"
    and "set_apic_addr x v a = Inr v' \<Longrightarrow> same_state x v v'"
  using assms unfolding framework_laws_def by blast+

subsection \<open>Settings\<close>

text \<open>The value a list of settings leaves in a register or field, if it sets it.\<close>

fun last_reg :: "x86Reg \<Rightarrow> setting list \<Rightarrow> u64 option" where
  "last_reg r [] = None"
| "last_reg r (s # ss) =
     (case last_reg r ss of Some a \<Rightarrow> Some a | None \<Rightarrow> (case s of SetReg q a \<Rightarrow> if r = q then Some a else None | _ \<Rightarrow> None))"

fun last_vmcs :: "vmcs \<Rightarrow> setting list \<Rightarrow> u64 option" where
  "last_vmcs f [] = None"
| "last_vmcs f (s # ss) =
     (case last_vmcs f ss of Some a \<Rightarrow> Some a | None \<Rightarrow> (case s of SetVmcs g a \<Rightarrow> if f = g then Some a else None | _ \<Rightarrow> None))"

lemma apply_setting_state:
  assumes "framework_laws x" and "apply_setting x v s = Inr v'"
  shows "read_register x v' r = (case last_reg r [s] of Some a \<Rightarrow> Inr a | None \<Rightarrow> read_register x v r)"
    and "read_vmcs x v' f = (case last_vmcs f [s] of Some a \<Rightarrow> Inr a | None \<Rightarrow> read_vmcs x v f)"
  using assms(2) framework_lawsD [OF assms(1)]
  by (cases s; auto simp: try_call_eq_Inr map_ok_eq_Inr same_state_def split: if_splits)+

lemma settings_state:
  assumes "framework_laws x" and "settings x v ss = Inr v'"
  shows "read_register x v' r = (case last_reg r ss of Some a \<Rightarrow> Inr a | None \<Rightarrow> read_register x v r) \<and>
    read_vmcs x v' f = (case last_vmcs f ss of Some a \<Rightarrow> Inr a | None \<Rightarrow> read_vmcs x v f)"
  using assms(2)
proof (induction ss arbitrary: v)
  case (Cons s ss)
  then obtain v1 where v1: "apply_setting x v s = Inr v1" "settings x v1 ss = Inr v'"
    by (auto simp: settings_def and_then_eq_Inr)
  show ?case using Cons.IH [OF v1(2)] apply_setting_state(1) [OF assms(1) v1(1), of r] apply_setting_state(2) [OF assms(1) v1(1), of f]
    by (auto split: option.splits)
qed (simp add: settings_def)

lemma mac_init_settings:
  assumes "mac_init x v entry = Inr v'"
  shows "\<exists>v0. settings x v0 (general_settings entry @ gdt_settings (vmx x) @ long_mode_settings (vmx x)) = Inr v'"
  using assms by (auto simp: mac_init_def setup_system_gdt_def setup_system_64bit_def and_then_eq_Inr settings_def for_each_append)

text \<open>The registers and fields of a prepared processor.\<close>

lemma mac_init_state:
  assumes "framework_laws x" and "arch_numbers x" and "mac_init x v entry = Inr v'"
  shows "read_register x v' RIP = Inr entry" "read_register x v' RDI = Inr BOOT_INFO_ADDR" "read_register x v' RFLAGS = Inr 2"
    "read_register x v' RSP = Inr 0x1ff000" "read_register x v' CR0 = Inr (push_bit 0 1 OR push_bit 4 1 OR push_bit 5 1 OR push_bit 31 1)"
    "read_register x v' CR3 = Inr BOOT_PML4" "read_register x v' CR4 = Inr (push_bit 5 1 OR VIRTUAL_MACHINE_EXTENSIONS (vmx x))"
    "read_register x v' CS = Inr 8" "r \<in> {DS, ES, SS, FS, GS} \<Longrightarrow> read_register x v' r = Inr 16"
    "read_vmcs x v' VMCS_GUEST_IA32_EFER = Inr (EFER_LME OR EFER_LMA)" "read_vmcs x v' VMCS_GUEST_CS_AR = Inr 0x209B"
    "f \<in> {VMCS_GUEST_DS_AR, VMCS_GUEST_ES_AR, VMCS_GUEST_SS_AR, VMCS_GUEST_FS_AR, VMCS_GUEST_GS_AR} \<Longrightarrow> read_vmcs x v' f = Inr 0x4093"
    "read_vmcs x v' VMCS_GUEST_GDTR_BASE = Inr BOOT_GDT" "read_vmcs x v' VMCS_GUEST_GDTR_LIMIT = Inr 23"
proof -
  obtain v0 where v0: "settings x v0 (general_settings entry @ gdt_settings (vmx x) @ long_mode_settings (vmx x)) = Inr v'"
    using mac_init_settings [OF assms(3)] by blast
  note st = settings_state [OF assms(1) v0] and lists = general_settings_def gdt_settings_def long_mode_settings_def Let_def
  have k: "SegmentSelector_ring0 (vmx x) = push_bit 3" "PROTECTED_MODE_ENABLE (vmx x) = push_bit 0 1" "EXTENSION_TYPE (vmx x) = push_bit 4 1"
    "NUMERIC_ERROR (vmx x) = push_bit 5 1" "PAGING (vmx x) = push_bit 31 1" "PHYSICAL_ADDRESS_EXTENSION (vmx x) = push_bit 5 1"
    using assms(2) by (simp_all add: arch_numbers_def)
  show "read_register x v' RIP = Inr entry" "read_register x v' RDI = Inr BOOT_INFO_ADDR" "read_register x v' RFLAGS = Inr 2"
    "read_register x v' RSP = Inr 0x1ff000" "read_register x v' CR0 = Inr (push_bit 0 1 OR push_bit 4 1 OR push_bit 5 1 OR push_bit 31 1)"
    "read_register x v' CR3 = Inr BOOT_PML4" "read_register x v' CR4 = Inr (push_bit 5 1 OR VIRTUAL_MACHINE_EXTENSIONS (vmx x))"
    "read_register x v' CS = Inr 8" "r \<in> {DS, ES, SS, FS, GS} \<Longrightarrow> read_register x v' r = Inr 16"
    using st by (auto simp: lists k GDT_KERNEL_CODE_def GDT_KERNEL_DATA_def)
  show "read_vmcs x v' VMCS_GUEST_IA32_EFER = Inr (EFER_LME OR EFER_LMA)" "read_vmcs x v' VMCS_GUEST_CS_AR = Inr 0x209B"
    "f \<in> {VMCS_GUEST_DS_AR, VMCS_GUEST_ES_AR, VMCS_GUEST_SS_AR, VMCS_GUEST_FS_AR, VMCS_GUEST_GS_AR} \<Longrightarrow> read_vmcs x v' f = Inr 0x4093"
    "read_vmcs x v' VMCS_GUEST_GDTR_BASE = Inr BOOT_GDT" "read_vmcs x v' VMCS_GUEST_GDTR_LIMIT = Inr 23"
    using st by (auto simp: lists BOOT_GDT_MAX_def)
qed

subsection \<open>A sample framework\<close>

text \<open>
  A processor that keeps its registers and fields as functions. Running it makes the guest leave with
  an output to the exit port.
\<close>

definition sample_vmx :: vmx_consts where
  "sample_vmx = \<lparr>PIN_BASED_INTR = 1, PIN_BASED_NMI = 8, PIN_BASED_VIRTUAL_NMI = 32, CPU_BASED_SECONDARY_CTLS = push_bit 31 1,
     CPU_BASED_MWAIT = push_bit 10 1, CPU_BASED_MSR_BITMAPS = push_bit 28 1, CPU_BASED_MONITOR = push_bit 29 1,
     CPU_BASED_TSC_OFFSET = 8, CPU_BASED_TPR_SHADOW = push_bit 21 1, CPU_BASED2_RDTSCP = 8, CPU_BASED2_APIC_REG_VIRT = push_bit 8 1,
     VMENTRY_LOAD_EFER = push_bit 15 1, VMENTRY_GUEST_IA32E = push_bit 9 1, VMX_REASON_EXC_NMI = 0, VMX_REASON_IRQ = 1,
     VMX_REASON_CPUID = 10, VMX_REASON_IO = 30, VMX_REASON_RDMSR = 31, VMX_REASON_WRMSR = 32, VMX_REASON_EPT_VIOLATION = 48,
     VMX_REASON_XSETBV = 55, VMX_REASON_RDRAND = 57, PROTECTED_MODE_ENABLE = push_bit 0 1, EXTENSION_TYPE = push_bit 4 1,
     NUMERIC_ERROR = push_bit 5 1, PAGING = push_bit 31 1, CACHE_DISABLE = push_bit 30 1, NOT_WRITE_THROUGH = push_bit 29 1,
     PHYSICAL_ADDRESS_EXTENSION = push_bit 5 1, VIRTUAL_MACHINE_EXTENSIONS = push_bit 13 1, SegmentSelector_ring0 = push_bit 3\<rparr>"

definition sample_msr :: msr_consts where
  "sample_msr = \<lparr>IA32_EFER = 0xC0000080, IA32_MISC_ENABLE = 0x1A0, IA32_APIC_BASE = 0x1B, IA32_X2APIC_TPR = 0x808, IA32_X2APIC_SIVR = 0x80F,
     IA32_X2APIC_LVT_TIMER = 0x832, IA32_X2APIC_LVT_THERMAL = 0x833, IA32_X2APIC_LVT_PMI = 0x834, IA32_X2APIC_LVT_LINT0 = 0x835,
     IA32_X2APIC_LVT_LINT1 = 0x836, IA32_X2APIC_LVT_ERROR = 0x837, IA32_X2APIC_EOI = 0x80B, IA32_X2APIC_ICR = 0x830,
     IA32_FS_BASE = 0xC0000100, IA32_GS_BASE = 0xC0000101, IA32_KERNEL_GSBASE = 0xC0000102, IA32_SYSENTER_CS = 0x174,
     IA32_SYSENTER_EIP = 0x176, IA32_SYSENTER_ESP = 0x175, IA32_STAR = 0xC0000081, IA32_LSTAR = 0xC0000082, IA32_CSTAR = 0xC0000083,
     IA32_FMASK = 0xC0000084, TSC = 0x10, IA32_TSC_AUX = 0xC0000103\<rparr>"

type_synonym sample_vcpu = "(x86Reg \<Rightarrow> u64) \<times> (vmcs \<Rightarrow> u64)"

definition sample_hv :: "(unit, sample_vcpu, u8 list) framework" where
  "sample_hv = \<lparr>vmx = sample_vmx, msr = sample_msr, read_vmx_cap = (\<lambda>_. Inr 0xffffffff00000000), vCPU_new = Inr (\<lambda>_. 0, \<lambda>_. 0),
     read_vmcs = (\<lambda>v f. Inr (snd v f)), write_vmcs = (\<lambda>v f a. Inr (fst v, (snd v)(f := a))),
     read_register = (\<lambda>v r. Inr (fst v r)), write_register = (\<lambda>v r a. Inr ((fst v)(r := a), snd v)),
     enable_native_msr = (\<lambda>v n b. Inr v), set_apic_addr = (\<lambda>v a. Inr v),
     hv_run = (\<lambda>v m w. (Inr ((fst v)(RAX := 0x300), (snd v)(VMCS_RO_EXIT_REASON := 30, VMCS_RO_EXIT_QUALIFIC := 0x5400000)), m, w)),
     cpuid_count = (\<lambda>a c. (a, 0, 0, 0)), disassemble_64 = (\<lambda>code ip. None), debug_log = True, mac_libc = sample_libc,
     mac_kernel_path = [47], mac_args = [], mac_vars = []\<rparr>"

lemma sample_hv_laws: "framework_laws sample_hv" "arch_numbers sample_hv" "same_services sample_hv sample_env"
  by (simp_all add: framework_laws_def same_state_def arch_numbers_def same_services_def sample_hv_def sample_vmx_def sample_msr_def sample_env_def)

lemma settings_sample: "\<exists>v'. settings sample_hv v ss = Inr v'"
proof (induction ss arbitrary: v)
  case (Cons s ss)
  obtain v1 where "apply_setting sample_hv v s = Inr v1" by (cases s) (simp_all add: sample_hv_def)
  then show ?case using Cons.IH [of v1] by (simp add: settings_def)
qed (simp add: settings_def)

lemma sample_mac_init: "\<exists>v'. mac_init sample_hv v entry = Inr v'"
proof -
  have "\<exists>a. CAP_PINBASED sample_hv = Inr a" "\<exists>a. CAP_PROCBASED sample_hv = Inr a" "\<exists>a. CAP_PROCBASED2 sample_hv = Inr a"
    "\<exists>a. CAP_ENTRY sample_hv = Inr a" "\<exists>a. CAP_EXIT sample_hv = Inr a"
    by (simp_all add: CAP_PINBASED_def CAP_PROCBASED_def CAP_PROCBASED2_def CAP_ENTRY_def CAP_EXIT_def sample_hv_def)
  then obtain a b c d e where caps: "CAP_PINBASED sample_hv = Inr a" "CAP_PROCBASED sample_hv = Inr b" "CAP_PROCBASED2 sample_hv = Inr c"
    "CAP_ENTRY sample_hv = Inr d" "CAP_EXIT sample_hv = Inr e" by blast
  have seq: "\<exists>v'. and_then (settings sample_hv v ss) f = Inr v'" if "\<And>v1. \<exists>v'. f v1 = Inr v'" for v ss and f :: "_ \<Rightarrow> unit failure + sample_vcpu"
    using settings_sample [of v ss] that by (metis and_then.simps(2))
  have "\<exists>v'. setup_capabilities sample_hv v = Inr v'"
    unfolding setup_capabilities_def caps panics.simps and_then.simps by (intro seq settings_sample)
  then obtain v1 where v1: "setup_capabilities sample_hv v = Inr v1" by blast
  show ?thesis
    unfolding mac_init_def v1 and_then.simps setup_msr_def setup_system_gdt_def setup_system_64bit_def by (intro seq settings_sample)
qed

subsection \<open>Boot state\<close>

text \<open>
  C14. The processor of macOS starts in a state that fits the boot structures: in 64-bit mode with
  paging on the boot page tables, which map the first gigabyte one to one, with the descriptor table
  register on exactly the three descriptors, and with code and data segments whose access rights are
  those of the descriptors their selectors name (up to granularity, which 64-bit mode ignores); the
  guest starts at the entry point with the address of the boot information as its argument and a
  stack inside the mapped gigabyte.
\<close>

theorem mac_boot_state_consistent:
  assumes "mem_wf m" and "0x13000 \<le> unat (mem_size m)" and "init_guest_mem oc m = Inr m'"
    and "framework_laws x" and "arch_numbers x" and "mac_init x v entry = Inr v'"
  shows "\<exists>cr0 cr3 cr4 efer base lim cs ds car dar code data sp.
    read_register x v' CR0 = Inr cr0 \<and> bit cr0 0 \<and> bit cr0 31 \<and> read_register x v' CR4 = Inr cr4 \<and> bit cr4 5 \<and>
    read_vmcs x v' VMCS_GUEST_IA32_EFER = Inr efer \<and> bit efer 8 \<and> bit efer 10 \<and>
    read_register x v' CR3 = Inr cr3 \<and> (\<forall>va < 2 ^ 30. mmu_walk m' va 3 cr3 = Some va) \<and>
    read_vmcs x v' VMCS_GUEST_GDTR_BASE = Inr base \<and> read_vmcs x v' VMCS_GUEST_GDTR_LIMIT = Inr lim \<and> unat lim + 1 = 3 * 8 \<and>
    read_register x v' CS = Inr cs \<and> read_vmcs x v' VMCS_GUEST_CS_AR = Inr car \<and>
    load m' (mem_base m + base + cs) = Inr code \<and> car = drop_bit 40 code AND 0x70FF \<and>
    read_register x v' DS = Inr ds \<and> read_vmcs x v' VMCS_GUEST_DS_AR = Inr dar \<and>
    load m' (mem_base m + base + ds) = Inr data \<and> dar = drop_bit 40 data AND 0x70FF \<and>
    read_register x v' SS = Inr ds \<and> read_vmcs x v' VMCS_GUEST_SS_AR = Inr dar \<and>
    read_register x v' RIP = Inr entry \<and> read_register x v' RDI = Inr BOOT_INFO_ADDR \<and> read_register x v' RSP = Inr sp \<and> sp < 2 ^ 30"
proof -
  note st = mac_init_state [OF assms(4,5,6)]
  have boot: "boot_memory m m'" using init_guest_mem_boot_memory [of m oc] assms(1-3) by auto
  then have gdt: "load m' (mem_base m + BOOT_GDT + 8) = Inr (create_gdt_entry 0xA09B 0 0xFFFFF)"
    "load m' (mem_base m + BOOT_GDT + 16) = Inr (create_gdt_entry 0xC093 0 0xFFFFF)"
    by (simp_all add: boot_memory_def)
  have ar: "0x209B = drop_bit 40 (create_gdt_entry 0xA09B 0 0xFFFFF) AND 0x70FF" "0x4093 = drop_bit 40 (create_gdt_entry 0xC093 0 0xFFFFF) AND 0x70FF"
    by (simp_all add: create_gdt_entry_def)
  have bits: "bit (push_bit 0 1 OR push_bit 4 1 OR push_bit 5 1 OR push_bit 31 1 :: u64) 0"
    "bit (push_bit 0 1 OR push_bit 4 1 OR push_bit 5 1 OR push_bit 31 1 :: u64) 31"
    "bit (EFER_LME OR EFER_LMA) 8" "bit (EFER_LME OR EFER_LMA) 10"
    by (simp_all add: EFER_LME_def EFER_LMA_def)
  have cr4: "bit (push_bit 5 1 OR VIRTUAL_MACHINE_EXTENSIONS (vmx x)) 5" by (simp add: bit_or_iff)
  have "\<forall>va < 2 ^ 30. mmu_walk m' va 3 BOOT_PML4 = Some va" using boot_walk [OF boot assms(2)] by simp
  moreover have "unat (23 :: u64) + 1 = 3 * 8" "(0x1ff000 :: u64) < 2 ^ 30" by simp_all
  ultimately show ?thesis
    using st(5,7,10,6,13,14,8,11) gdt ar bits cr4 st(9) [of DS] st(9) [of SS] st(12) [of VMCS_GUEST_DS_AR] st(12) [of VMCS_GUEST_SS_AR] st(1,2,4)
    by blast
qed

theorem mac_boot_state_consistent_witness:
  "\<exists>m' v'. init_guest_mem True (\<lparr>mem_base = 0x100000, mem_size = 0x13000, mem_bytes = (\<lambda>_. 0)\<rparr>) = Inr m' \<and>
     mac_init sample_hv (\<lambda>_. 0, \<lambda>_. 0) 0x200000 = Inr v' \<and> read_register sample_hv v' RIP = Inr 0x200000 \<and>
     mmu_walk m' 0x9000 3 BOOT_PML4 = Some 0x9000"
proof -
  let ?m = "\<lparr>mem_base = 0x100000, mem_size = 0x13000, mem_bytes = (\<lambda>_. 0)\<rparr> :: hmem"
  have wf: "mem_wf ?m" "0x13000 \<le> unat (mem_size ?m)" by (simp_all add: mem_wf_def)
  obtain m' where m': "init_guest_mem True ?m = Inr m'" using init_guest_mem_boot_memory [OF wf, of True] by blast
  obtain v' where v': "mac_init sample_hv (\<lambda>_. 0, \<lambda>_. 0) 0x200000 = Inr v'" using sample_mac_init by blast
  obtain cr3 where cr3: "read_register sample_hv v' CR3 = Inr cr3" "\<forall>va < 2 ^ 30. mmu_walk m' va 3 cr3 = Some va" and ip: "read_register sample_hv v' RIP = Inr 0x200000"
    using mac_boot_state_consistent [OF wf m' sample_hv_laws(1,2) v'] by blast
  have "cr3 = BOOT_PML4" using cr3(1) mac_init_state(6) [OF sample_hv_laws(1,2) v'] by simp
  with m' v' cr3 ip show ?thesis by simp
qed

text \<open>An instance of the equivalence of the hypercalls: an exit request whose code is in guest memory.\<close>

theorem hypercalls_match_linux_witness:
  "\<exists>c. mc_mem c = sample_caller \<and>
     mac_io_out sample_hv True 0x100000 c [] 0x200000 2 UHYVE_PORT_EXIT = Some (Inr (Some (Exit 0), c, []))"
proof -
  let ?c = "\<lparr>mc_vcpu = ((\<lambda>_. 0)(RAX := 0x300), \<lambda>_. 0), mc_apic_base = 0, mc_mem = sample_caller, mc_ioapic = \<lparr>selector = 0, rtbl = []\<rparr>, mc_poisoned = False\<rparr> :: sample_vcpu MacCPU"
  have cpu: "mem_base (cpu_mem sample_cpu) = 0x100000" "cpu_mem sample_cpu = sample_caller"
    by (simp_all add: sample_cpu_def sample_caller_facts)
  have rax: "read_register sample_hv (mc_vcpu ?c) RAX = Inr 0x300" by (simp add: sample_hv_def)
  have mem: "mc_mem ?c = cpu_mem sample_cpu" by (simp add: cpu)
  have port: "UHYVE_PORT_EXIT \<in> set shared_ports" by (simp add: shared_ports_def)
  have linux: "io_out sample_env True 0x100000 sample_cpu [] UHYVE_PORT_EXIT (to_le 4 (0x300 :: u32)) [] = Some (Inr (Some (Exit 0), sample_cpu, []))"
    using exit_request [of sample_cpu "0x300" 0 sample_env True "[]" "[]"] by (simp add: handle_exit_def cpu sample_caller_facts sample_exit_code)
  have "mac_io_out sample_hv True 0x100000 ?c [] 0x200000 2 UHYVE_PORT_EXIT = Some (Inr (Some (Exit 0), ?c, []))"
    using hypercalls_match_linux [OF port rax mem sample_hv_laws(3), of True "0x100000" "[]" "0x200000" 2 "[]"] linux by simp
  then show ?thesis by (intro exI [of _ ?c]) simp
qed

subsection \<open>Model-specific registers\<close>

lemma wr_reg_eq_Inr: "wr_reg x c r a = Inr c' \<longleftrightarrow> (\<exists>v. write_register x (mc_vcpu c) r a = Inr v \<and> c' = c\<lparr>mc_vcpu := v\<rparr>)"
  by (auto simp: wr_reg_def map_ok_eq_Inr try_call_eq_Inr)

lemma wr_vmcs_eq_Inr: "wr_vmcs x c f a = Inr c' \<longleftrightarrow> (\<exists>v. write_vmcs x (mc_vcpu c) f a = Inr v \<and> c' = c\<lparr>mc_vcpu := v\<rparr>)"
  by (auto simp: wr_vmcs_def map_ok_eq_Inr try_call_eq_Inr)

lemma rd_eq_Inr:
  "rd_reg x c r = Inr a \<longleftrightarrow> read_register x (mc_vcpu c) r = Inr a" "rd_vmcs x c f = Inr a \<longleftrightarrow> read_vmcs x (mc_vcpu c) f = Inr a"
  by (simp_all add: rd_reg_def rd_vmcs_def try_call_eq_Inr)

lemma advance_eq_Inr:
  "advance x oc c ip len = Inr c' \<longleftrightarrow>
     (\<exists>v. add_oc oc ip len = Inr (ip + len) \<and> write_register x (mc_vcpu c) RIP (ip + len) = Inr v \<and> c' = c\<lparr>mc_vcpu := v\<rparr>)"
  by (auto simp: advance_def and_then_eq_Inr panics_eq_Inr wr_reg_eq_Inr add_oc_def split: if_splits)

lemmas mac_iffs = and_then_eq_Inr map_ok_eq_Inr panics_eq_Inr wr_reg_eq_Inr wr_vmcs_eq_Inr rd_eq_Inr advance_eq_Inr try_call_eq_Inr

lemma pair_halves:
  "low32 (push_bit 32 (low32 d) OR low32 a) = low32 a"
  "drop_bit 32 (push_bit 32 (low32 d)) = low32 d"
  "drop_bit 32 (low32 a) = 0"
  "low32 (low32 d) = low32 d"
  by (rule bit_word_eqI; auto simp: low32_take_bit bit_simps)+

lemma pair_value_eq:
  assumes "read_register x (mc_vcpu c) RAX = Inr a" and "read_register x (mc_vcpu c) RDX = Inr d"
  shows "pair_value x c = Inr (push_bit 32 (low32 d) OR low32 a)"
  using assms by (simp add: pair_value_def rd_reg_def)

text \<open>Storing a register and reading it again: the value the emulation finds for the same register.\<close>

lemma set_msr_value:
  assumes "framework_laws x" and "arch_numbers x" and "n = IA32_EFER (msr x) \<or> n = IA32_APIC_BASE (msr x)"
    and "read_register x (mc_vcpu c) RAX = Inr a" and "read_register x (mc_vcpu c) RDX = Inr d" and "set_msr x c n = Inr c'"
  shows "msr_value x c' n = Inr (low32 a, low32 d)" and "read_register x (mc_vcpu c') r = read_register x (mc_vcpu c) r"
proof -
  have num: "IA32_EFER (msr x) = 0xC0000080" "IA32_MISC_ENABLE (msr x) = 0x1A0" "IA32_APIC_BASE (msr x) = 0x1B"
    using assms(2) by (simp_all add: arch_numbers_def)
  show "msr_value x c' n = Inr (low32 a, low32 d)" "read_register x (mc_vcpu c') r = read_register x (mc_vcpu c) r"
    using assms(3,6) framework_lawsD(3,4) [OF assms(1)] framework_lawsD(6) [OF assms(1)] pair_value_eq [OF assms(4,5)]
    by (auto simp: set_msr_def msr_value_def num mac_iffs rd_vmcs_def same_state_def pair_halves)
qed

lemma msr_value_vcpu:
  assumes "mc_apic_base c' = mc_apic_base c" and "\<And>f. read_vmcs x (mc_vcpu c') f = read_vmcs x (mc_vcpu c) f"
  shows "msr_value x c' n = msr_value x c n"
  using assms by (simp add: msr_value_def rd_vmcs_def)


definition sample_wrmsr :: "sample_vcpu MacCPU" where
  "sample_wrmsr = \<lparr>mc_vcpu = ((\<lambda>_. 0)(RCX := 0xC0000080, RAX := 0x900, RDX := 7), (\<lambda>_. 0)(VMCS_RO_VMEXIT_INSTR_LEN := 2)),
     mc_apic_base = 0, mc_mem = sample_caller, mc_ioapic = \<lparr>selector = 0, rtbl = []\<rparr>, mc_poisoned = False\<rparr>"


subsection \<open>Processor identification\<close>

lemma emulate_cpuid_state:
  assumes "framework_laws x" and "read_register x (mc_vcpu c) RAX = Inr a" and "read_register x (mc_vcpu c) RCX = Inr n"
    and "read_vmcs x (mc_vcpu c) VMCS_RO_VMEXIT_INSTR_LEN = Inr len" and "emulate_cpuid x oc c ip = Inr c'"
  shows "\<exists>eax ebx ecx edx. cpuid_values x a n = Inr (eax, ebx, ecx, edx) \<and> read_register x (mc_vcpu c') RAX = Inr eax \<and>
    read_register x (mc_vcpu c') RBX = Inr ebx \<and> read_register x (mc_vcpu c') RCX = Inr ecx \<and> read_register x (mc_vcpu c') RDX = Inr edx \<and>
    read_register x (mc_vcpu c') RIP = Inr (ip + len)"
  using assms(2-5) framework_lawsD(1) [OF assms(1)]
  by (auto simp: emulate_cpuid_def mac_iffs split: prod.splits)

lemma id_words_bytes:
  assumes "length s \<le> 16"
  shows "\<exists>a b c d. id_words s = Inr (a, b, c, d) \<and>
    to_le 4 (ucast a :: u32) @ to_le 4 (ucast b :: u32) @ to_le 4 (ucast c :: u32) @ to_le 4 (ucast d :: u32) = s @ replicate (16 - length s) 0"
proof -
  define buf where "buf = s @ replicate (16 - length s) (0 :: u8)"
  have len: "length buf = 16" using assms by (simp add: buf_def)
  have words: "to_le 4 (ucast (ucast (from_le bs :: u32) :: u64) :: u32) = bs" if "length bs = 4" for bs
  proof -
    have "(ucast (ucast (from_le bs :: u32) :: u64) :: u32) = from_le bs" by (rule bit_word_eqI) (auto simp: bit_simps)
    then show ?thesis using to_le_from_le [of bs, where 'a = 32] that by simp
  qed
  have "id_words s = Inr (ucast (from_le (take 4 buf) :: u32), ucast (from_le (take 4 (drop 4 buf)) :: u32),
      ucast (from_le (take 4 (drop 8 buf)) :: u32), ucast (from_le (take 4 (drop 12 buf)) :: u32))"
    using assms by (simp add: id_words_def copy_id_def buf_def)
  moreover have "take 4 buf @ take 4 (drop 4 buf) @ take 4 (drop 8 buf) @ take 4 (drop 12 buf) = buf"
    using len by (intro nth_equalityI) (auto simp: nth_append)
  ultimately show ?thesis using len by (simp add: words buf_def [symmetric])
qed

text \<open>
  The guest identifies the processor as on Linux: the two leaves with the brand string give the
  bytes of the hypervisor's string in the four registers, the feature leaf announces a hypervisor, the
  extended feature leaf hides the enclave extension, and the guest goes on behind the instruction.
\<close>

theorem mac_cpuid_brand:
  assumes "framework_laws x" and "read_register x (mc_vcpu c) RAX = Inr a" and "read_register x (mc_vcpu c) RCX = Inr n"
    and "read_vmcs x (mc_vcpu c) VMCS_RO_VMEXIT_INSTR_LEN = Inr len" and "emulate_cpuid x oc c ip = Inr c'"
  shows "\<exists>eax ebx ecx edx. read_register x (mc_vcpu c') RAX = Inr eax \<and> read_register x (mc_vcpu c') RBX = Inr ebx \<and>
    read_register x (mc_vcpu c') RCX = Inr ecx \<and> read_register x (mc_vcpu c') RDX = Inr edx \<and>
    (let regs = to_le 4 (ucast eax :: u32) @ to_le 4 (ucast ebx :: u32) @ to_le 4 (ucast ecx :: u32) @ to_le 4 (ucast edx :: u32) in
      (a = 0x80000002 \<longrightarrow> regs = ascii ''uhyve - unikerne'') \<and> (a = 0x80000003 \<longrightarrow> regs = ascii ''l hypervisor'' @ [0, 0, 0, 0])) \<and>
    (a = 1 \<longrightarrow> bit ecx 31) \<and> (a = 7 \<and> n = 0 \<longrightarrow> \<not> bit ebx 2) \<and> read_register x (mc_vcpu c') RIP = Inr (ip + len)"
proof -
  obtain eax ebx ecx edx where r: "cpuid_values x a n = Inr (eax, ebx, ecx, edx)" "read_register x (mc_vcpu c') RAX = Inr eax"
    "read_register x (mc_vcpu c') RBX = Inr ebx" "read_register x (mc_vcpu c') RCX = Inr ecx" "read_register x (mc_vcpu c') RDX = Inr edx"
    "read_register x (mc_vcpu c') RIP = Inr (ip + len)"
    using emulate_cpuid_state [OF assms] by blast
  have 2: "to_le 4 (ucast eax :: u32) @ to_le 4 (ucast ebx :: u32) @ to_le 4 (ucast ecx :: u32) @ to_le 4 (ucast edx :: u32) = ascii ''uhyve - unikerne''"
    if "a = 0x80000002"
    using r(1) that id_words_bytes [of id_first] by (auto simp: cpuid_values_def id_first_def ascii_def)
  have 3: "to_le 4 (ucast eax :: u32) @ to_le 4 (ucast ebx :: u32) @ to_le 4 (ucast ecx :: u32) @ to_le 4 (ucast edx :: u32) = ascii ''l hypervisor'' @ [0, 0, 0, 0]"
    if "a = 0x80000003"
    using r(1) that id_words_bytes [of id_second] by (auto simp: cpuid_values_def id_second_def ascii_def eval_nat_numeral)
  have 1: "bit ecx 31" if "a = 1" using r(1) that by (auto simp: cpuid_values_def Let_def bit_or_iff split: prod.splits)
  have 7: "\<not> bit ebx 2" if "a = 7" "n = 0" using r(1) that by (auto simp: cpuid_values_def Let_def bit_simps split: prod.splits)
  show ?thesis using r 1 2 3 7 by (auto simp: Let_def)
qed

theorem mac_cpuid_brand_witness:
  "\<exists>c' eax. emulate_cpuid sample_hv False (sample_wrmsr\<lparr>mc_vcpu := ((\<lambda>_. 0)(RAX := 0x80000002), (\<lambda>_. 0)(VMCS_RO_VMEXIT_INSTR_LEN := 2))\<rparr>) 0x200000 = Inr c' \<and>
     read_register sample_hv (mc_vcpu c') RAX = Inr eax \<and> take 4 (to_le 4 (ucast eax :: u32)) = ascii ''uhyv''"
proof -
  let ?c = "sample_wrmsr\<lparr>mc_vcpu := ((\<lambda>_. 0)(RAX := 0x80000002), (\<lambda>_. 0)(VMCS_RO_VMEXIT_INSTR_LEN := 2))\<rparr>"
  have pre: "read_register sample_hv (mc_vcpu ?c) RAX = Inr 0x80000002" "read_register sample_hv (mc_vcpu ?c) RCX = Inr 0"
    "read_vmcs sample_hv (mc_vcpu ?c) VMCS_RO_VMEXIT_INSTR_LEN = Inr 2"
    by (simp_all add: sample_hv_def)
  obtain c' where c': "emulate_cpuid sample_hv False ?c 0x200000 = Inr c'"
    by (simp add: emulate_cpuid_def rd_vmcs_def rd_reg_def sample_hv_def cpuid_values_def id_words_def copy_id_def id_first_def ascii_def
        advance_def wr_reg_def)
  from mac_cpuid_brand [OF sample_hv_laws(1) pre c'] obtain eax ebx ecx edx :: u64 where "read_register sample_hv (mc_vcpu c') RAX = Inr eax"
    "to_le 4 (ucast eax :: u32) @ to_le 4 (ucast ebx :: u32) @ to_le 4 (ucast ecx :: u32) @ to_le 4 (ucast edx :: u32) = ascii ''uhyve - unikerne''"
    by (auto simp: Let_def)
  moreover from this(2) have "take 4 (to_le 4 (ucast eax :: u32)) = take 4 (ascii ''uhyve - unikerne'')"
    by (metis append_eq_conv_conj length_to_le take_all_iff order_refl)
  ultimately show ?thesis using c' by (auto simp: ascii_def)
qed

subsection \<open>The exit loop keeps the machine in shape\<close>

definition mac_inv :: "u64 \<times> u64 \<Rightarrow> 'v MacCPU \<Rightarrow> bool" where
  "mac_inv sp c \<longleftrightarrow> span (mc_mem c) = sp \<and> ioapic_wf (mc_ioapic c)"

lemma mac_inv_vcpu [simp]: "mac_inv sp (c\<lparr>mc_vcpu := v\<rparr>) = mac_inv sp c" "mac_inv sp (c\<lparr>mc_apic_base := b\<rparr>) = mac_inv sp c"
  by (simp_all add: mac_inv_def)

lemma emulate_inv:
  assumes "mac_inv sp c"
  shows "advance x oc c ip len = Inr c' \<Longrightarrow> mac_inv sp c'"
    and "emulate_cpuid x oc c ip = Inr c' \<Longrightarrow> mac_inv sp c'"
    and "emulate_rdmsr x oc c ip = Inr c' \<Longrightarrow> mac_inv sp c'"
    and "emulate_wrmsr x oc c ip = Inr c' \<Longrightarrow> mac_inv sp c'"
    and "emulate_xsetbv x oc c ip = Inr c' \<Longrightarrow> mac_inv sp c'"
  using assms
  by (auto simp: emulate_cpuid_def emulate_rdmsr_def emulate_wrmsr_def emulate_xsetbv_def set_msr_def mac_iffs split: prod.splits if_splits)

lemma ioapic_access_inv:
  assumes "mac_inv sp c"
  shows "ioapic_store x oc instr c a = Inr c' \<Longrightarrow> mac_inv sp c'" and "ioapic_load x oc instr c a = Inr c' \<Longrightarrow> mac_inv sp c'"
  using assms ioapic_write_wf
  by (auto simp: ioapic_store_def ioapic_load_def mac_iffs lock_ioapic_def mac_inv_def index_eq_Inr case_prod_unfold split: if_splits option.splits)

lemma emulate_ioapic_inv:
  assumes "mac_inv sp c" and "emulate_ioapic x oc vs c ip a = Inr c'"
  shows "mac_inv sp c'"
proof -
  obtain len and q :: u64 and code c1 where c1: "(case disassemble_64 x code ip of
          None \<Rightarrow> Inr c
        | Some instr \<Rightarrow>
            if operation instr = MOV then
              and_then (if q AND push_bit 1 1 \<noteq> 0 then ioapic_store x oc instr c a else Inr c) (\<lambda>c.
              if q AND push_bit 0 1 \<noteq> 0 then ioapic_load x oc instr c a else Inr c)
            else Inl (Panic ExplicitPanic)) = Inr c1" "advance x oc c1 ip len = Inr c'"
    using assms(2) unfolding emulate_ioapic_def Let_def and_then_eq_Inr by (elim exE conjE) (rule that)
  have "mac_inv sp c1"
    using c1(1) assms(1)
    by (cases "disassemble_64 x code ip") (auto simp: and_then_eq_Inr split: if_splits intro: ioapic_access_inv)
  from emulate_inv(1) [OF this c1(2)] show ?thesis .
qed

lemma ept_violation_inv: "mac_inv sp c \<Longrightarrow> ept_violation x oc vs c ip = Inr c' \<Longrightarrow> mac_inv sp c'"
  by (auto simp: ept_violation_def and_then_eq_Inr split: if_splits intro: emulate_ioapic_inv)

lemma mac_call_inv:
  assumes "mac_call x oc c ip len r = Some (Inr (s, c', w'))" and "mac_inv sp c" and "\<And>m w. r = Inr (m, w) \<Longrightarrow> span m = span (mc_mem c)"
  shows "mac_inv sp c'"
proof -
  obtain m w where r: "r = Inr (m, w)" and adv: "advance x oc (c\<lparr>mc_mem := m\<rparr>) ip len = Inr c'"
    using assms(1) by (auto simp: mac_call_def mac_iffs)
  have "mac_inv sp (c\<lparr>mc_mem := m\<rparr>)" using assms(2) assms(3) [OF r] by (simp add: mac_inv_def)
  from emulate_inv(1) [OF this adv] show ?thesis .
qed

lemma mac_io_out_inv:
  assumes "mac_io_out x oc vs c w ip len port = Some (Inr (s, c', w'))" and "mac_inv sp c"
  shows "mac_inv sp c'"
proof -
  note call = mac_call_inv [where sp = sp and x = x and oc = oc and c = c and ip = ip and len = len and s = s and c' = c' and w' = w', OF _ assms(2)]
  show ?thesis
    using assms unfolding mac_io_out_def Let_def
    by (simp only: split: if_splits sum.splits)
      (auto simp: mac_iffs bind_eq_Some_conv elim!: call dest!: keeps_span)
qed

lemma mac_handle_exit_inv:
  assumes "mac_handle_exit x oc vs c w = Some (Inr (s, c', w'))" and "mac_inv sp c"
  shows "mac_inv sp c'"
  using assms unfolding mac_handle_exit_def mac_io_def go_on_def debug_exit_def Let_def
  by (auto simp: mac_iffs split: sum.splits if_splits prod.splits intro: emulate_inv ept_violation_inv mac_io_out_inv)

text \<open>The framework runs the guest in the memory it was given.\<close>

definition hv_keeps_place :: "('e, 'v, 'w) framework \<Rightarrow> bool" where
  "hv_keeps_place x \<longleftrightarrow> (\<forall>v m w. span (fst (snd (hv_run x v m w))) = span m)"

lemma mac_run_guest_inv:
  assumes "mac_run_guest x c w = Inr (c', w')" and "hv_keeps_place x" and "mac_inv sp c"
  shows "mac_inv sp c'"
proof -
  obtain r m where run: "hv_run x (mc_vcpu c) (mc_mem c) w = (r, m, w')" and c': "\<exists>v. c' = c\<lparr>mc_vcpu := v, mc_mem := m\<rparr>"
    using assms(1) by (auto simp: mac_run_guest_def mac_iffs split: prod.splits)
  have "span m = span (mc_mem c)" using assms(2) run unfolding hv_keeps_place_def by (metis fst_conv snd_conv)
  with c' assms(3) show ?thesis by (auto simp: mac_inv_def)
qed

lemma mac_continue_inv:
  fixes x :: "('a, 'b, 'c) framework"
  assumes "mac_continue x oc vs c w = Some (Inr (reason, c', w'))" and "hv_keeps_place x" and "mac_inv sp c"
  shows "mac_inv sp c'"
proof -
  let ?P = "\<lambda>(x :: ('a, 'b, 'c) framework) (oc :: bool) (vs :: usize) (c :: 'b MacCPU) (w :: 'c)
      (y :: 'a failure + unit VcpuStopReason \<times> 'b MacCPU \<times> 'c). hv_keeps_place x \<longrightarrow> mac_inv sp c \<longrightarrow> y = Inr (reason, c', w') \<longrightarrow> mac_inv sp c'"
  have "?P x oc vs c w (Inr (reason, c', w'))"
  proof (rule mac_continue.raw_induct [where P = ?P, OF _ assms(1)], goal_cases)
    case (1 cont x oc vs c w y)
    show ?case
    proof (intro impI)
      assume place: "hv_keeps_place x" and c: "mac_inv sp c" and y: "y = Inr (reason, c', w')"
      obtain c1 w1 where run: "mac_run_guest x c w = Inr (c1, w1)" using 1(2) y by (cases "mac_run_guest x c w") auto
      have c1: "mac_inv sp c1" by (rule mac_run_guest_inv [OF run place c])
      obtain res where res: "mac_handle_exit x oc vs c1 w1 = Some res" using 1(2) run by (auto simp: bind_eq_Some_conv)
      obtain s c2 w2 where s: "res = Inr (s, c2, w2)" using 1(2) run y res by (cases res) auto
      have c2: "mac_inv sp c2" using mac_handle_exit_inv [OF res [unfolded s] c1] .
      show "mac_inv sp c'"
      proof (cases s)
        case None
        then have "cont x oc vs c2 w2 = Some y" using 1(2) run res s by simp
        from 1(1) [OF this] place c2 y show ?thesis by blast
      next
        case (Some a)
        then show ?thesis using 1(2) run res s c2 y by simp
      qed
    qed
  qed
  then show ?thesis using assms by blast
qed



end
