(* ===== verification/Run_Macos.thy ===== *)
theory Run_Macos
  imports Uhyve_Linux Macos_Properties Transitions
begin

text \<open>
  The virtual machine on macOS (\<^verbatim>\<open>src/macos/uhyve.rs\<close>) and running it (\<^verbatim>\<open>src/macos/mod.rs\<close>): mapping guest
  memory, creating processors that share an interrupt controller, and the threads of the processors,
  which send their exit codes over a channel to the main thread.
\<close>

subsection \<open>The machine\<close>

text \<open>What the machine asks of the host: a fresh zeroed mapping, a virtual machine, and its memory.\<close>

record 'e mac_host =
  mac_mmap :: "usize \<Rightarrow> usize option"
  mac_create_vm :: "'e + unit"
  map_mem :: "usize \<Rightarrow> usize \<Rightarrow> u64 \<Rightarrow> 'e + unit"

record MacUhyve = Vm +
  mu_path :: "u8 list"
  mu_ioapic :: IoApic

definition MacUhyve_new :: "'e mac_host \<Rightarrow> bool \<Rightarrow> u8 list \<Rightarrow> Parameter \<Rightarrow> 'e failure + MacUhyve" where
  "MacUhyve_new mh oc kpath specs =
     (case mac_mmap mh (p_mem_size specs) of
        None \<Rightarrow> Inl (Panic AssertFailed)
      | Some mem \<Rightarrow>
          and_then (try_call (mac_create_vm mh)) (\<lambda>_.
          and_then (try_call (map_mem mh mem (p_mem_size specs) 0)) (\<lambda>_.
          and_then (panics (rust_assert (p_gdbport specs = None))) (\<lambda>_.
          and_then (panics IoApic_new) (\<lambda>ioapic.
          and_then (panics (init_guest_mem oc \<lparr>mem_base = mem, mem_size = p_mem_size specs, mem_bytes = (\<lambda>_. 0)\<rparr>)) (\<lambda>m.
          Inr \<lparr>vm_mem = m, vm_num_cpus = p_num_cpus specs, vm_offset = 0, vm_entry_point = 0, vm_boot_info = None,
            vm_ip = None, vm_gateway = None, vm_mask = None, vm_verbose = p_verbose specs,
            mu_path = kpath, mu_ioapic = ioapic\<rparr>))))))"

definition mac_cpu_online :: "MacUhyve \<Rightarrow> u32 res" where
  "mac_cpu_online vm =
     (case vm_boot_info vm of
        None \<Rightarrow> Inr 0
      | Some p \<Rightarrow> load (vm_mem vm) (p + of_nat off_cpu_online))"

definition mac_create_cpu :: "('e, 'v, 'w) framework \<Rightarrow> MacUhyve \<Rightarrow> (usize \<times> 'v MacCPU) res" where
  "mac_create_cpu x vm = map_ok (\<lambda>c. (mem_base (vm_mem vm), c)) (MacCPU_new x (vm_mem vm) (mu_ioapic vm))"

subsection \<open>Running\<close>

definition mac_load :: "'g goblin \<Rightarrow> bool \<Rightarrow> Host \<Rightarrow> MacUhyve \<Rightarrow> MacUhyve res" where
  "mac_load gob oc host vm =
     (case load_kernel gob oc False host vm of
        Inl (Panic f) \<Rightarrow> Inl f
      | Inl (Err _) \<Rightarrow> Inl UnwrapFailed
      | Inr vm \<Rightarrow> Inr vm)"

definition mac_cpu_affinity :: "'c list option \<Rightarrow> u32 \<Rightarrow> 'c option" where
  "mac_cpu_affinity cpu_affinity cpu_id =
     (case cpu_affinity of
        Some vec \<Rightarrow> if unat cpu_id < length vec then Some (vec ! unat cpu_id) else None
      | None \<Rightarrow> None)"

definition mac_start_cpu :: "('e, 'v, 'w) framework \<Rightarrow> MacUhyve \<Rightarrow> (usize \<times> 'v MacCPU) res" where
  "mac_start_cpu x vm =
     and_then (mac_create_cpu x vm) (\<lambda>(vm_start, c).
     case mac_init x (mc_vcpu c) (get_entry_point vm) of
       Inl (Panic f) \<Rightarrow> Inl f
     | Inl (Err _) \<Rightarrow> Inl UnwrapFailed
     | Inr v \<Rightarrow> Inr (vm_start, c\<lparr>mc_vcpu := v\<rparr>))"

text \<open>
  The thread of a processor: before its processor is ready, in the loop that waits for its
  predecessor, in the guest's startup code, in the guest afterwards, at its end, or panicked. The main
  thread spawns the others, waits for a message, and returns it.
\<close>

datatype mac_pc = MacStarting | MacSpinning | MacBooting | MacUp | MacEnded | MacPanicked

datatype mac_main = MacSpawn nat | MacReceiving | MacReturned i32

record mac_state =
  ms_main :: mac_main
  ms_cpus :: "mac_pc list"
  ms_channel :: "i32 list"
  ms_online :: u32

definition mac_main_step :: "nat \<Rightarrow> mac_state \<Rightarrow> mac_state option" where
  "mac_main_step n s =
     (case ms_main s of
        MacSpawn k \<Rightarrow> Some (if k < n then s\<lparr>ms_main := MacSpawn (k + 1), ms_cpus := ms_cpus s @ [MacStarting]\<rparr>
                            else s\<lparr>ms_main := MacReceiving\<rparr>)
      | MacReceiving \<Rightarrow> (case ms_channel s of [] \<Rightarrow> None | c # cs \<Rightarrow> Some (s\<lparr>ms_main := MacReturned c, ms_channel := cs\<rparr>))
      | MacReturned _ \<Rightarrow> None)"

text \<open>The end of a thread: a code goes to the channel as long as the receiver exists.\<close>

fun mac_after_run :: "nat \<Rightarrow> 'e failure + i32 option \<Rightarrow> mac_state \<Rightarrow> mac_state" where
  "mac_after_run i (Inr (Some code)) s =
     (case ms_main s of
        MacReturned _ \<Rightarrow> s\<lparr>ms_cpus := (ms_cpus s)[i := MacPanicked]\<rparr>
      | _ \<Rightarrow> s\<lparr>ms_cpus := (ms_cpus s)[i := MacEnded], ms_channel := ms_channel s @ [code]\<rparr>)"
| "mac_after_run i (Inr None) s = s\<lparr>ms_cpus := (ms_cpus s)[i := MacEnded]\<rparr>"
| "mac_after_run i (Inl (Err _)) s = s\<lparr>ms_cpus := (ms_cpus s)[i := MacEnded]\<rparr>"
| "mac_after_run i (Inl (Panic _)) s = s\<lparr>ms_cpus := (ms_cpus s)[i := MacPanicked]\<rparr>"

definition mac_vcpu_step :: "nat \<Rightarrow> bool \<Rightarrow> ('e failure + i32 option) option \<Rightarrow> mac_state \<Rightarrow> mac_state option" where
  "mac_vcpu_step i ready result s =
     (let goto = (\<lambda>pc. s\<lparr>ms_cpus := (ms_cpus s)[i := pc]\<rparr>) in
      case ms_cpus s ! i of
        MacStarting \<Rightarrow> Some (goto (if ready then MacSpinning else MacPanicked))
      | MacSpinning \<Rightarrow> if of_nat i \<noteq> ms_online s then None else Some (goto MacBooting)
      | MacBooting \<Rightarrow> Some (case result of Some r \<Rightarrow> mac_after_run i r s | None \<Rightarrow> (goto MacUp)\<lparr>ms_online := ms_online s + 1\<rparr>)
      | MacUp \<Rightarrow> map_option (\<lambda>r. mac_after_run i r s) result
      | MacEnded \<Rightarrow> None
      | MacPanicked \<Rightarrow> None)"

inductive mac_step :: "nat \<Rightarrow> (nat \<Rightarrow> bool) \<Rightarrow> (nat \<Rightarrow> 'e failure + i32 option \<Rightarrow> bool) \<Rightarrow> mac_state \<Rightarrow> mac_state \<Rightarrow> bool"
  for n ready outcome where
  mac_main: "mac_main_step n s = Some s' \<Longrightarrow> mac_step n ready outcome s s'"
| mac_vcpu: "i < length (ms_cpus s) \<Longrightarrow> pred_option (outcome i) result \<Longrightarrow> mac_vcpu_step i (ready i) result s = Some s' \<Longrightarrow>
    mac_step n ready outcome s s'"

inductive_cases mac_stepE: "mac_step n ready outcome s s'"

definition mac_start :: "mac_state \<Rightarrow> bool" where
  "mac_start s \<longleftrightarrow> s = \<lparr>ms_main = MacSpawn 0, ms_cpus = [], ms_channel = [], ms_online = 0\<rparr>"

subsection \<open>A new machine\<close>

text \<open>
  A machine that was created on macOS is ready: its memory has the size asked for and holds the
  boot structures, so that a processor created for it translates each address below 1 GiB to
  itself, and its interrupt controller has its registers; it has no debugger and no network.
\<close>

theorem mac_new_machine_ready:
  assumes "\<forall>n a. mac_mmap mh n = Some a \<longrightarrow> unat a + unat n < 2 ^ 64" and "0x13000 \<le> unat (p_mem_size specs)"
    and "MacUhyve_new mh oc kpath specs = Inr vm" and "mac_create_cpu x vm = Inr (vm_start, c)"
    and "a < 2 ^ 30" and "unat vm_start + 2 ^ 52 \<le> 2 ^ 64"
  shows "mem_size (vm_mem vm) = p_mem_size specs \<and> mac_virt_to_phys oc vm_start (mc_mem c) a = Inr a \<and>
    ioapic_wf (mc_ioapic c) \<and> mac_cpu_online vm = Inr 0 \<and> p_gdbport specs = None \<and> vm_ip vm = None"
proof -
  obtain mem io where mem: "mac_mmap mh (p_mem_size specs) = Some mem" and io: "IoApic_new = Inr io" "mu_ioapic vm = io"
    and m: "init_guest_mem oc \<lparr>mem_base = mem, mem_size = p_mem_size specs, mem_bytes = (\<lambda>_. 0)\<rparr> = Inr (vm_mem vm)"
    and g: "p_gdbport specs = None" "vm_boot_info vm = None" "vm_ip vm = None"
    using assms(3) by (auto simp: MacUhyve_new_def and_then_eq_Inr panics_eq_Inr rust_assert_def split: option.splits if_splits)
  let ?m = "\<lparr>mem_base = mem, mem_size = p_mem_size specs, mem_bytes = (\<lambda>_. 0)\<rparr> :: hmem"
  have wf: "mem_wf ?m" "0x13000 \<le> unat (mem_size ?m)" using assms(1,2) mem by (simp_all add: mem_wf_def)
  have boot: "boot_memory ?m (vm_mem vm)" using init_guest_mem_boot_memory [OF wf, of oc] m by auto
  have c: "vm_start = mem_base (vm_mem vm)" "mc_mem c = vm_mem vm" "mc_ioapic c = io"
    using assms(4) io by (auto simp: mac_create_cpu_def MacCPU_new_def map_ok_eq_Inr)
  have "virt_to_phys oc (mem_base (vm_mem vm)) (vm_mem vm) a = Inr a"
    by (rule virt_to_phys_mmu) (use assms(6) c(1) boot_walk [OF boot wf(2) assms(5)] in simp_all)
  then show ?thesis
    using c g io ioapic_new_wf boot_memoryD(2) [OF boot] by (simp add: mac_virt_to_phys_eq mac_cpu_online_def)
qed

definition sample_mac_host :: "unit mac_host" where
  "sample_mac_host = \<lparr>mac_mmap = (\<lambda>n. if n < 0x10000000 then Some 0x7f0000000000 else None), mac_create_vm = Inr (), map_mem = (\<lambda>p n a. Inr ())\<rparr>"

theorem mac_new_machine_ready_witness:
  "\<exists>vm c. MacUhyve_new sample_mac_host True [47] (sample_specs\<lparr>p_ip := None\<rparr>) = Inr vm \<and>
     mac_create_cpu sample_hv vm = Inr (0x7f0000000000, c) \<and> mac_virt_to_phys True 0x7f0000000000 (mc_mem c) 0x200000 = Inr 0x200000"
proof -
  let ?m = "\<lparr>mem_base = 0x7f0000000000, mem_size = 0x1000000, mem_bytes = (\<lambda>_. 0)\<rparr> :: hmem"
  obtain m' where m': "init_guest_mem True ?m = Inr m'" "boot_memory ?m m'"
    using init_guest_mem_boot_memory [of ?m True] by (auto simp: mem_wf_def)
  obtain io where io: "IoApic_new = Inr io" by (simp add: ioapic_new_eq)
  obtain vm where vm: "MacUhyve_new sample_mac_host True [47] (sample_specs\<lparr>p_ip := None\<rparr>) = Inr vm" "vm_mem vm = m'"
    by (simp add: m'(1) io MacUhyve_new_def sample_mac_host_def sample_specs_def rust_assert_def)
  obtain c where c: "mac_create_cpu sample_hv vm = Inr (0x7f0000000000, c)"
    using boot_memoryD(1) [OF m'(2)] by (simp add: mac_create_cpu_def MacCPU_new_def vm(2)) (simp add: sample_hv_def)
  have fits: "\<forall>n a. mac_mmap sample_mac_host n = Some a \<longrightarrow> unat a + unat n < 2 ^ 64"
    by (auto simp: sample_mac_host_def word_less_nat_alt split: if_splits)
  from mac_new_machine_ready [OF fits _ vm(1) c, of "0x200000"] vm(1) c show ?thesis by (simp add: sample_specs_def)
qed

subsection \<open>Runs\<close>

definition exits_with :: "nat \<Rightarrow> (nat \<Rightarrow> 'e failure + i32 option \<Rightarrow> bool) \<Rightarrow> i32 \<Rightarrow> bool" where
  "exits_with n outcome c \<longleftrightarrow> (\<exists>i<n. outcome i (Inr (Some c)))"

definition mac_pc_ok :: "nat \<Rightarrow> nat \<Rightarrow> mac_pc \<Rightarrow> bool" where
  "mac_pc_ok k i pc =
     (case pc of MacStarting \<Rightarrow> k \<le> i | MacSpinning \<Rightarrow> k \<le> i | MacBooting \<Rightarrow> k = i | MacUp \<Rightarrow> i < k | _ \<Rightarrow> True)"

definition mac_main_ok :: "nat \<Rightarrow> (nat \<Rightarrow> 'e failure + i32 option \<Rightarrow> bool) \<Rightarrow> mac_main \<Rightarrow> nat \<Rightarrow> bool" where
  "mac_main_ok n outcome pc len =
     (case pc of MacSpawn k \<Rightarrow> len = k \<and> k \<le> n | MacReceiving \<Rightarrow> len = n | MacReturned c \<Rightarrow> len = n \<and> exits_with n outcome c)"

definition mac_run_inv :: "nat \<Rightarrow> (nat \<Rightarrow> 'e failure + i32 option \<Rightarrow> bool) \<Rightarrow> mac_state \<Rightarrow> bool" where
  "mac_run_inv n outcome s \<longleftrightarrow>
     mac_main_ok n outcome (ms_main s) (length (ms_cpus s)) \<and> unat (ms_online s) \<le> length (ms_cpus s) \<and>
     (\<forall>i<length (ms_cpus s). mac_pc_ok (unat (ms_online s)) i (ms_cpus s ! i)) \<and> (\<forall>c\<in>set (ms_channel s). exits_with n outcome c)"

lemma mac_main_ok_length: "mac_main_ok n outcome pc len \<Longrightarrow> len \<le> n"
  by (auto simp: mac_main_ok_def split: mac_main.splits)

lemma mac_inv_goto:
  assumes "mac_run_inv n outcome s" and "i < length (ms_cpus s)" and "mac_pc_ok (unat (ms_online s)) i pc"
  shows "mac_run_inv n outcome (s\<lparr>ms_cpus := (ms_cpus s)[i := pc]\<rparr>)"
  using assms by (auto simp: mac_run_inv_def nth_list_update)

lemma mac_after_run_inv:
  assumes "mac_run_inv n outcome s" and "outcome i r" and "i < length (ms_cpus s)"
  shows "mac_run_inv n outcome (mac_after_run i r s)"
proof -
  have i: "i < n" using assms(1,3) mac_main_ok_length by (fastforce simp: mac_run_inv_def)
  have ended: "mac_run_inv n outcome (s\<lparr>ms_cpus := (ms_cpus s)[i := pc]\<rparr>)" if "pc = MacEnded \<or> pc = MacPanicked" for pc
    using that by (intro mac_inv_goto [OF assms(1,3)]) (auto simp: mac_pc_ok_def)
  have send: "mac_run_inv n outcome (s\<lparr>ms_cpus := (ms_cpus s)[i := MacEnded], ms_channel := ms_channel s @ [code]\<rparr>)" if "r = Inr (Some code)" for code
    using ended [of MacEnded] that assms(2) i by (auto simp: mac_run_inv_def exits_with_def)
  show ?thesis
  proof (cases r)
    case (Inl e)
    then show ?thesis using ended by (cases e) simp_all
  next
    case (Inr y)
    then show ?thesis using ended send by (cases y) (simp_all split: mac_main.splits)
  qed
qed

lemma mac_main_inv:
  assumes "mac_run_inv n outcome s" and "mac_main_step n s = Some s'"
  shows "mac_run_inv n outcome s'"
proof -
  have starting: "mac_pc_ok k i MacStarting \<longleftrightarrow> k \<le> i" for k i by (simp add: mac_pc_ok_def)
  show ?thesis
    using assms
    by (auto simp: mac_main_step_def mac_run_inv_def mac_main_ok_def starting nth_append less_Suc_eq split: mac_main.splits if_splits list.splits)
qed

lemma mac_vcpu_inv:
  assumes "mac_run_inv n outcome s" and "i < length (ms_cpus s)" and "pred_option (outcome i) result" and "n < 2 ^ 32"
    and "mac_vcpu_step i r result s = Some s'"
  shows "mac_run_inv n outcome s'"
proof -
  have len: "length (ms_cpus s) \<le> n" using assms(1) mac_main_ok_length by (auto simp: mac_run_inv_def)
  have i: "unat (of_nat i :: u32) = i" using assms(2,4) len by (intro unat_of_nat_less) simp
  have ok: "mac_pc_ok (unat (ms_online s)) i (ms_cpus s ! i)" using assms(1,2) by (simp add: mac_run_inv_def)
  note goto = mac_inv_goto [OF assms(1,2)] and after = mac_after_run_inv [OF assms(1) _ assms(2)]
  show ?thesis
  proof (cases "ms_cpus s ! i")
    case MacBooting
    show ?thesis
    proof (cases result)
      case None
      have k: "unat (ms_online s) = i" using ok MacBooting by (simp add: mac_pc_ok_def)
      then have k1: "unat (ms_online s + 1) = Suc i" using assms(2,4) len by (subst unat_add_no_overflow) simp_all
      have "mac_pc_ok (Suc i) j ((ms_cpus s)[i := MacUp] ! j)" if "j < length (ms_cpus s)" for j
      proof -
        have "mac_pc_ok i j (ms_cpus s ! j)" using assms(1) that k by (simp add: mac_run_inv_def)
        then show ?thesis using that assms(2) MacBooting by (cases "j = i") (auto simp: mac_pc_ok_def nth_list_update split: mac_pc.splits)
      qed
      then show ?thesis using assms(1,2,5) MacBooting None k1 by (auto simp: mac_vcpu_step_def Let_def mac_run_inv_def)
    next
      case (Some y)
      then show ?thesis using after [of y] assms(3,5) MacBooting by (auto simp: mac_vcpu_step_def Let_def)
    qed
  next
    case MacSpinning
    then have "unat (ms_online s) = i" using assms(5) i by (auto simp: mac_vcpu_step_def Let_def split: if_splits)
    then show ?thesis using goto [of MacBooting] assms(5) MacSpinning by (auto simp: mac_vcpu_step_def Let_def mac_pc_ok_def split: if_splits)
  next
    case MacStarting
    then show ?thesis using goto [of MacSpinning] goto [of MacPanicked] ok assms(5) by (auto simp: mac_vcpu_step_def Let_def mac_pc_ok_def split: if_splits)
  next
    case MacUp
    then show ?thesis using after assms(3,5) by (auto simp: mac_vcpu_step_def Let_def)
  qed (use assms(5) in \<open>simp_all add: mac_vcpu_step_def\<close>)
qed

lemma mac_reach_inv:
  assumes "reach mac_start (mac_step n ready outcome) s" and "n < 2 ^ 32"
  shows "mac_run_inv n outcome s"
  using assms(1)
proof (induction rule: reach_invariant)
  case (start s)
  then show ?case by (simp add: mac_start_def mac_run_inv_def mac_main_ok_def)
next
  case (step s s')
  from step(2,3) show ?case
    by (elim mac_stepE) (blast intro: mac_main_inv mac_vcpu_inv [OF _ _ _ assms(2)])+
qed


text \<open>A run of a machine with one processor, up to the message.\<close>

lemma mac_single_run:
  assumes "ready 0" and "outcome 0 (Inr (Some c))"
  shows "reach mac_start (mac_step 1 ready outcome) \<lparr>ms_main = MacReceiving, ms_cpus = [MacEnded], ms_channel = [c], ms_online = 0\<rparr>"
proof -
  let ?S = "\<lambda>m cpus ch. \<lparr>ms_main = m, ms_cpus = cpus, ms_channel = ch, ms_online = 0\<rparr>"
  let ?R = "reach mac_start (mac_step 1 ready outcome)"
  have main: "?R s \<Longrightarrow> mac_main_step 1 s = Some s' \<Longrightarrow> ?R s'" for s s'
    by (erule reach.next_step) (erule mac_step.mac_main)
  have vcpu: "?R s \<Longrightarrow> 0 < length (ms_cpus s) \<Longrightarrow> mac_vcpu_step 0 True (Some (Inr (Some c) :: 'a failure + _)) s = Some s' \<Longrightarrow> ?R s'" for s s'
    by (erule reach.next_step, rule mac_step.mac_vcpu [where i = 0 and result = "Some (Inr (Some c))"]) (simp_all add: assms)
  have "?R (?S (MacSpawn 0) [] [])" by (rule reach.start) (simp add: mac_start_def)
  then have "?R (?S (MacSpawn 1) [MacStarting] [])" by (rule main) (simp add: mac_main_step_def)
  then have "?R (?S MacReceiving [MacStarting] [])" by (rule main) (simp add: mac_main_step_def)
  then have "?R (?S MacReceiving [MacSpinning] [])" by (rule vcpu) (simp_all add: mac_vcpu_step_def)
  then have "?R (?S MacReceiving [MacBooting] [])" by (rule vcpu) (simp_all add: mac_vcpu_step_def)
  then show ?thesis by (rule vcpu) (simp_all add: mac_vcpu_step_def)
qed


text \<open>
  A processor that fails sends nothing, and the main thread keeps a sender of its own, so a run of
  a machine with one processor that fails never ends: it reaches a state in which the main thread
  waits for a message and no thread can take a step.
\<close>

theorem mac_crashed_processor_hangs:
  assumes "ready 0" and "outcome 0 (Inl (Err e))"
  shows "\<exists>s. reach mac_start (mac_step 1 ready outcome) s \<and> ms_main s = MacReceiving \<and> ms_cpus s = [MacEnded] \<and>
    (\<forall>s'. \<not> mac_step 1 ready outcome s s')"
proof -
  let ?S = "\<lambda>m cpus. \<lparr>ms_main = m, ms_cpus = cpus, ms_channel = [], ms_online = 0\<rparr>"
  let ?R = "reach mac_start (mac_step 1 ready outcome)"
  have main: "?R s \<Longrightarrow> mac_main_step 1 s = Some s' \<Longrightarrow> ?R s'" for s s'
    by (erule reach.next_step) (erule mac_step.mac_main)
  have vcpu: "?R s \<Longrightarrow> 0 < length (ms_cpus s) \<Longrightarrow> mac_vcpu_step 0 True (Some (Inl (Err e))) s = Some s' \<Longrightarrow> ?R s'" for s s'
    by (erule reach.next_step, rule mac_step.mac_vcpu [where i = 0 and result = "Some (Inl (Err e))"]) (simp_all add: assms)
  have "?R (?S (MacSpawn 0) [])" by (rule reach.start) (simp add: mac_start_def)
  then have "?R (?S (MacSpawn 1) [MacStarting])" by (rule main) (simp add: mac_main_step_def)
  then have "?R (?S MacReceiving [MacStarting])" by (rule main) (simp add: mac_main_step_def)
  then have "?R (?S MacReceiving [MacSpinning])" by (rule vcpu) (simp_all add: mac_vcpu_step_def)
  then have "?R (?S MacReceiving [MacBooting])" by (rule vcpu) (simp_all add: mac_vcpu_step_def)
  then have r: "?R (?S MacReceiving [MacEnded])" by (rule vcpu) (simp_all add: mac_vcpu_step_def)
  have "\<not> mac_step 1 ready outcome (?S MacReceiving [MacEnded]) s'" for s'
    by (auto elim!: mac_stepE simp: mac_main_step_def mac_vcpu_step_def)
  with r show ?thesis by (intro exI [of _ "?S MacReceiving [MacEnded]"]) simp
qed

theorem mac_crashed_processor_hangs_witness:
  "\<exists>s. reach mac_start (mac_step 1 (\<lambda>_. True) (\<lambda>_ r. r = Inl (Err ()))) s \<and> ms_main s = MacReceiving \<and> ms_cpus s = [MacEnded] \<and>
    (\<forall>s'. \<not> mac_step 1 (\<lambda>_. True) (\<lambda>_ r. r = Inl (Err ())) s s')"
  by (rule mac_crashed_processor_hangs [where e = "()"]) simp_all

end
