(* ===== verification/Cli.thy ===== *)
theory Cli
  imports Run_Linux
begin

text \<open>
  The command line (\<^verbatim>\<open>src/bin/uhyve.rs\<close> and \<^verbatim>\<open>src/utils.rs\<close>): numbers and ranges of processors, the
  support of huge pages, and the parameters of the machine. The parser of the options, the parser of
  sizes and the list of host cores are arguments of the model; parsing integers and the operations
  on strings are those of the standard library.
\<close>

subsection \<open>Strings and numbers\<close>

datatype ParseIntError = EmptyInt | InvalidDigit | PosOverflow

definition to_digit :: "char \<Rightarrow> nat option" where
  "to_digit c = (let n = of_char c :: nat in if 48 \<le> n \<and> n \<le> 57 then Some (n - 48) else None)"

fun parse_digits :: "nat \<Rightarrow> nat \<Rightarrow> string \<Rightarrow> ParseIntError + nat" where
  "parse_digits bound acc [] = Inr acc"
| "parse_digits bound acc (c # rest) =
     (case to_digit c of
        None \<Rightarrow> Inl InvalidDigit
      | Some d \<Rightarrow> if acc * 10 + d < bound then parse_digits bound (acc * 10 + d) rest else Inl PosOverflow)"

text \<open>Parsing an unsigned integer below a bound, with an optional plus sign.\<close>

definition parse_uint :: "nat \<Rightarrow> string \<Rightarrow> ParseIntError + nat" where
  "parse_uint bound s =
     (case s of
        [] \<Rightarrow> Inl EmptyInt
      | c # rest \<Rightarrow>
          if rest = [] \<and> (c = CHR ''+'' \<or> c = CHR ''-'') then Inl InvalidDigit
          else if c = CHR ''+'' then parse_digits bound 0 rest
          else parse_digits bound 0 (c # rest))"

fun split_once :: "char \<Rightarrow> string \<Rightarrow> (string \<times> string) option" where
  "split_once d [] = None"
| "split_once d (c # rest) = (if c = d then Some ([], rest) else map_option (\<lambda>(a, b). (c # a, b)) (split_once d rest))"

text \<open>Removing the blanks of the ASCII character set at both ends.\<close>

definition is_blank :: "char \<Rightarrow> bool" where
  "is_blank c \<longleftrightarrow> (of_char c :: nat) \<in> {9, 10, 11, 12, 13, 32}"

definition trim :: "string \<Rightarrow> string" where
  "trim s = rev (dropWhile is_blank (rev (dropWhile is_blank s)))"

subsection \<open>Utilities\<close>

text \<open>A range is a pair of its ends, both included.\<close>

definition parse_range :: "string \<Rightarrow> ParseIntError + nat \<times> nat" where
  "parse_range item =
     (case split_once CHR ''-'' item of
        Some (start, finish) \<Rightarrow>
          and_then (parse_uint (2 ^ 64) start) (\<lambda>a. and_then (parse_uint (2 ^ 64) finish) (\<lambda>b. Inr (a, b)))
      | None \<Rightarrow> and_then (parse_uint (2 ^ 64) item) (\<lambda>idx. Inr (idx, idx)))"

definition parse_ranges :: "string list \<Rightarrow> (ParseIntError + nat) list" where
  "parse_ranges ranges =
     concat (map (\<lambda>range. case parse_range range of Inr (a, b) \<Rightarrow> map Inr [a..<Suc b] | Inl err \<Rightarrow> [Inl err]) ranges)"

text \<open>
  Whether huge pages are available: the host's system, whether the kernel's file exists, and what
  reading it gives.
\<close>

datatype target_os = Linux | Macos | OtherOs

definition transparent_hugepages_available :: "target_os \<Rightarrow> bool \<Rightarrow> io_error + string \<Rightarrow> io_error failure + bool" where
  "transparent_hugepages_available os is_file contents =
     (if os = Linux then
        if \<not> is_file then Inr False
        else
          (case contents of
             Inr s \<Rightarrow>
               if trim s = ''[always] madvise never'' then Inr True
               else if trim s = ''always [madvise] never'' then Inr True
               else if trim s = ''always madvise [never]'' then Inr False
               else Inl (Err InvalidData)
           | Inl err \<Rightarrow> Inl (Err err))
      else if os = Macos then Inr True
      else Inl (Panic ExplicitPanic))"

subsection \<open>The parameters of the machine\<close>

definition MINIMAL_GUEST_SIZE :: nat where "MINIMAL_GUEST_SIZE = 16 * 1024 * 1024"
definition DEFAULT_GUEST_SIZE :: nat where "DEFAULT_GUEST_SIZE = 64 * 1024 * 1024"

text \<open>What the parser of the options and the environment give.\<close>

record matches =
  KERNEL :: "string option"
  MEM :: "string option"
  CPUS :: "string option"
  CPU_AFFINITY :: "string list option"
  GDB_PORT :: "string option"
  VERBOSE :: bool
  DISABLE_HUGEPAGE :: bool
  MERGEABLE :: bool

record surrounding =
  byte_from_str :: "string \<Rightarrow> nat option"
  get_core_ids :: "nat list option"
  envmnt_is_or :: "string \<Rightarrow> bool \<Rightarrow> bool"
  env_var :: "string \<Rightarrow> string option"
  hugepages :: "io_error failure + bool"

definition cli_mem_size :: "surrounding \<Rightarrow> matches \<Rightarrow> usize res" where
  "cli_mem_size sr ma =
     (case MEM ma of
        Some s \<Rightarrow>
          and_then (unwrap (byte_from_str sr s)) (\<lambda>bytes.
          and_then (if bytes < 2 ^ 64 then Inr bytes else Inl UnwrapFailed) (\<lambda>mem.
          Inr (of_nat (if mem < MINIMAL_GUEST_SIZE then MINIMAL_GUEST_SIZE else mem))))
      | None \<Rightarrow> Inr (of_nat DEFAULT_GUEST_SIZE))"

definition cli_num_cpus :: "matches \<Rightarrow> u32" where
  "cli_num_cpus ma =
     (case CPUS ma of
        Some cpus \<Rightarrow> (case parse_uint (2 ^ 32) cpus of Inr n \<Rightarrow> of_nat n | Inl _ \<Rightarrow> 1)
      | None \<Rightarrow> 1)"

text \<open>Collecting into a set of numbers or the first error.\<close>

definition collect_ok :: "('e + 'a) list \<Rightarrow> 'e + 'a set" where
  "collect_ok rs = for_each (\<lambda>acc r. map_ok (\<lambda>y. insert y acc) r) {} rs"

definition cli_affinity :: "surrounding \<Rightarrow> matches \<Rightarrow> u32 \<Rightarrow> nat list option res" where
  "cli_affinity sr ma n =
     (case CPU_AFFINITY ma of
        Some affinity \<Rightarrow>
          (case collect_ok (parse_ranges affinity) of
             Inl _ \<Rightarrow> Inl UnwrapFailed
           | Inr parsed_affinity \<Rightarrow>
               and_then (unwrap (get_core_ids sr)) (\<lambda>ids.
               let core_ids = filter (\<lambda>core_id. core_id \<in> parsed_affinity) ids in
               and_then (rust_assert (length core_ids = unat n)) (\<lambda>_.
               Inr (Some core_ids))))
      | None \<Rightarrow> Inr None)"

fun expect_port :: "ParseIntError + nat \<Rightarrow> u16 res" where
  "expect_port (Inl _) = Inl UnwrapFailed"
| "expect_port (Inr n) = Inr (of_nat n)"

definition cli_gdbport :: "surrounding \<Rightarrow> matches \<Rightarrow> u16 option res" where
  "cli_gdbport sr ma =
     (case GDB_PORT ma of
        Some p \<Rightarrow> map_ok Some (expect_port (parse_uint (2 ^ 16) p))
      | None \<Rightarrow>
          (case env_var sr ''HERMIT_GDB_PORT'' of
             Some p \<Rightarrow> map_ok Some (expect_port (parse_uint (2 ^ 16) p))
           | None \<Rightarrow> Inr None))"

fun unwrap_or_true :: "io_error failure + bool \<Rightarrow> bool res" where
  "unwrap_or_true (Inr b) = Inr b"
| "unwrap_or_true (Inl (Err _)) = Inr True"
| "unwrap_or_true (Inl (Panic f)) = Inl f"

text \<open>\<^verbatim>\<open>main\<close> up to the creation of the machine: the kernel's path, its parameters and the host cores.\<close>

definition cli_main :: "surrounding \<Rightarrow> matches \<Rightarrow> (string \<times> Parameter \<times> nat list option) res" where
  "cli_main sr ma =
     and_then (unwrap (KERNEL ma)) (\<lambda>path.
     and_then (cli_mem_size sr ma) (\<lambda>mem_size.
     let num_cpus = cli_num_cpus ma in
     and_then (cli_affinity sr ma num_cpus) (\<lambda>cpu_affinity.
     let mergeable = envmnt_is_or sr ''HERMIT_MERGEABLE'' False \<or> MERGEABLE ma in
     and_then (unwrap_or_true (hugepages sr)) (\<lambda>hugepage_default.
     let hugepage = envmnt_is_or sr ''HERMIT_HUGEPAGE'' hugepage_default \<and> \<not> DISABLE_HUGEPAGE ma;
         verbose = envmnt_is_or sr ''HERMIT_VERBOSE'' False \<or> VERBOSE ma in
     and_then (cli_gdbport sr ma) (\<lambda>gdbport.
     Inr (path, \<lparr>p_mem_size = mem_size, p_num_cpus = num_cpus, p_verbose = verbose, p_hugepage = hugepage, p_mergeable = mergeable,
       p_ip = None, p_gateway = None, p_mask = None, p_nic = None, p_gdbport = gdbport\<rparr>, cpu_affinity))))))"

subsection \<open>Parsing what was printed\<close>

definition digit :: "nat \<Rightarrow> char" where
  "digit d = char_of (48 + d)"

fun dec :: "nat \<Rightarrow> string" where
  "dec n = (if n < 10 then [digit n] else dec (n div 10) @ [digit (n mod 10)])"

declare dec.simps [simp del]

lemma of_char_digit: "d < 10 \<Longrightarrow> of_char (digit d) = (48 + d :: nat)"
  by (simp add: digit_def)

lemma to_digit_digit: "d < 10 \<Longrightarrow> to_digit (digit d) = Some d"
  by (simp add: to_digit_def of_char_digit Let_def)

lemma digit_no_sign: "d < 10 \<Longrightarrow> digit d \<noteq> CHR ''+''" "d < 10 \<Longrightarrow> digit d \<noteq> CHR ''-''"
proof -
  assume d: "d < 10"
  show "digit d \<noteq> CHR ''+''" "digit d \<noteq> CHR ''-''" using of_char_digit [OF d] by (auto dest: arg_cong [where f = "of_char :: char \<Rightarrow> nat"])
qed

lemma dec_digits: "c \<in> set (dec n) \<Longrightarrow> \<exists>d<10. c = digit d"
proof (induction n rule: dec.induct)
  case (1 n)
  have "\<exists>d<10. digit (n mod 10) = digit d" by (rule exI [of _ "n mod 10"]) simp
  with 1 show ?case by (cases "n < 10") (auto simp: dec.simps [of n])
qed

lemma dec_not_Nil: "dec n \<noteq> []"
  by (cases "n < 10") (simp_all add: dec.simps [of n])

lemma parse_digits_append:
  "parse_digits bound acc (xs @ ys) = and_then (parse_digits bound acc xs) (\<lambda>a. parse_digits bound a ys)"
  by (induction xs arbitrary: acc) (auto split: option.splits)

lemma parse_digits_dec: "n < bound \<Longrightarrow> parse_digits bound 0 (dec n) = Inr n"
proof (induction n rule: dec.induct)
  case (1 n)
  show ?case
  proof (cases "n < 10")
    case True
    then show ?thesis using 1(2) by (simp add: dec.simps [of n] to_digit_digit)
  next
    case False
    then have "parse_digits bound 0 (dec (n div 10)) = Inr (n div 10)" using 1 by auto
    then show ?thesis using False 1(2) by (simp add: dec.simps [of n] parse_digits_append to_digit_digit)
  qed
qed

lemma parse_uint_dec:
  assumes "n < bound"
  shows "parse_uint bound (dec n) = Inr n"
proof -
  obtain c rest where c: "dec n = c # rest" using dec_not_Nil by (cases "dec n") auto
  then obtain d where "d < 10" "c = digit d" using dec_digits [of c n] by auto
  then have "c \<noteq> CHR ''+''" "c \<noteq> CHR ''-''" using digit_no_sign by auto
  then show ?thesis using parse_digits_dec [OF assms] c by (simp add: parse_uint_def)
qed

lemma split_once_none: "d \<notin> set s \<Longrightarrow> split_once d s = None"
  by (induction s) auto

lemma split_once_append: "d \<notin> set s \<Longrightarrow> split_once d (s @ d # t) = Some (s, t)"
  by (induction s) auto

lemma dec_no_minus: "CHR ''-'' \<notin> set (dec n)"
  using dec_digits digit_no_sign(2) by metis

text \<open>A single processor or a range of processors, as a user writes it.\<close>

datatype cpus = One nat | Between nat nat

fun print_cpus :: "cpus \<Rightarrow> string" where
  "print_cpus (One n) = dec n"
| "print_cpus (Between a b) = dec a @ CHR ''-'' # dec b"

fun members :: "cpus \<Rightarrow> nat list" where
  "members (One n) = [n]"
| "members (Between a b) = [a..<Suc b]"

fun cpus_ok :: "cpus \<Rightarrow> bool" where
  "cpus_ok (One n) \<longleftrightarrow> n < 2 ^ 64"
| "cpus_ok (Between a b) \<longleftrightarrow> a < 2 ^ 64 \<and> b < 2 ^ 64"

lemma parse_range_print:
  "cpus_ok r \<Longrightarrow> (case parse_range (print_cpus r) of Inr (a, b) \<Rightarrow> map Inr [a..<Suc b] | Inl err \<Rightarrow> [Inl err]) = map Inr (members r)"
proof (cases r)
  case (One n)
  assume "cpus_ok r"
  then show ?thesis using One parse_uint_dec [of n "2 ^ 64"] by (simp add: parse_range_def split_once_none dec_no_minus)
next
  case (Between a b)
  assume "cpus_ok r"
  then show ?thesis using Between parse_uint_dec [of a "2 ^ 64"] parse_uint_dec [of b "2 ^ 64"]
    by (simp add: parse_range_def split_once_append dec_no_minus)
qed

text \<open>
  C36. The list of host cores is read as it is meant: of any list of numbers and ranges written in
  decimal, every number of every range is produced, in the order of the list, with repetitions, and
  a range whose end is below its start is empty.
\<close>

theorem parse_ranges_print:
  assumes "\<forall>r\<in>set rs. cpus_ok r"
  shows "parse_ranges (map print_cpus rs) = map Inr (concat (map members rs))"
  using assms by (induction rs) (simp_all add: parse_ranges_def parse_range_print)

theorem parse_ranges_print_witness:
  "parse_ranges [''8-10'', ''5'', ''3'', ''7-9''] = map Inr [8, 9, 10, 5, 3, 7, 8, 9]"
proof -
  have "map print_cpus [Between 8 10, One 5, One 3, Between 7 9] = [''8-10'', ''5'', ''3'', ''7-9'']"
    by (simp add: dec.simps digit_def char_of_def bit_0)
  with parse_ranges_print [of "[Between 8 10, One 5, One 3, Between 7 9]"] show ?thesis by (simp add: upt_rec)
qed

text \<open>The rest of the unit test of the source: a negative number is an error.\<close>

lemma parse_ranges_negative: "parse_ranges [''-1-2'', ''-5''] = [Inl EmptyInt, Inl EmptyInt]"
  by (simp add: parse_ranges_def parse_range_def parse_uint_def)

subsection \<open>The parameters\<close>

lemma cli_mem_size_bounds:
  assumes "cli_mem_size sr ma = Inr m"
  shows "MINIMAL_GUEST_SIZE \<le> unat m"
proof -
  have "unat (of_nat k :: u64) = k" if "k < 2 ^ 64" for k using that by (intro unat_of_nat_less) simp
  then show ?thesis
    using assms
    by (auto simp: cli_mem_size_def and_then_eq_Inr unwrap_eq_Inr MINIMAL_GUEST_SIZE_def DEFAULT_GUEST_SIZE_def split: option.splits if_splits)
qed

lemma collect_ok_set:
  "for_each (\<lambda>acc r. map_ok (\<lambda>y. insert y acc) r) A rs = Inr B \<Longrightarrow> B = A \<union> {y. Inr y \<in> set rs}"
  by (induction rs arbitrary: A) (auto simp: and_then_eq_Inr map_ok_eq_Inr)

lemma cli_affinity_cores:
  assumes "cli_affinity sr ma n = Inr (Some cores)"
  shows "\<exists>affinity ids. CPU_AFFINITY ma = Some affinity \<and> get_core_ids sr = Some ids \<and>
    cores = filter (\<lambda>i. Inr i \<in> set (parse_ranges affinity)) ids \<and> length cores = unat n"
proof -
  obtain affinity parsed ids where *: "CPU_AFFINITY ma = Some affinity" "collect_ok (parse_ranges affinity) = Inr parsed" "get_core_ids sr = Some ids"
    "cores = filter (\<lambda>i. i \<in> parsed) ids" "length cores = unat n"
    using assms by (auto simp: cli_affinity_def and_then_eq_Inr unwrap_eq_Inr rust_assert_eq_Inr Let_def split: option.splits sum.splits)
  have "parsed = {y. Inr y \<in> set (parse_ranges affinity)}" using collect_ok_set [OF *(2) [unfolded collect_ok_def]] by simp
  with * show ?thesis by auto
qed

text \<open>
  C35. What the command line hands to the machine: at least 16 MiB of memory, so that the boot
  structures fit; with a list of cores, one core for every processor, each of them a core of the
  host the list names, and each processor is bound to its own if the host lists no core twice; and
  never a network interface or an address.
\<close>

theorem cli_parameters:
  assumes "cli_main sr ma = Inr (kpath, specs, affinity)"
  shows "16 * 1024 * 1024 \<le> unat (p_mem_size specs) \<and> KERNEL ma = Some kpath \<and> p_nic specs = None \<and> p_ip specs = None \<and>
    (\<forall>cores. affinity = Some cores \<longrightarrow>
       length cores = unat (p_num_cpus specs) \<and>
       (\<exists>cpulist ids. CPU_AFFINITY ma = Some cpulist \<and> get_core_ids sr = Some ids \<and> (\<forall>i<p_num_cpus specs.
          \<exists>core. local_cpu_affinity affinity i = Some core \<and> core \<in> set ids \<and> Inr core \<in> set (parse_ranges cpulist)) \<and>
          (distinct ids \<longrightarrow> distinct cores)))"
proof -
  obtain m where m: "cli_mem_size sr ma = Inr m" "p_mem_size specs = m" and path: "KERNEL ma = Some kpath" "p_nic specs = None" "p_ip specs = None"
    and aff: "cli_affinity sr ma (p_num_cpus specs) = Inr affinity"
    using assms by (auto simp: cli_main_def and_then_eq_Inr unwrap_eq_Inr Let_def)
  have cores: "length cores = unat (p_num_cpus specs) \<and>
       (\<exists>cpulist ids. CPU_AFFINITY ma = Some cpulist \<and> get_core_ids sr = Some ids \<and> (\<forall>i<p_num_cpus specs.
          \<exists>core. local_cpu_affinity affinity i = Some core \<and> core \<in> set ids \<and> Inr core \<in> set (parse_ranges cpulist)) \<and>
          (distinct ids \<longrightarrow> distinct cores))" if "affinity = Some cores" for cores
  proof -
    have "cli_affinity sr ma (p_num_cpus specs) = Inr (Some cores)" using aff that by simp
    then obtain cpulist ids where c: "CPU_AFFINITY ma = Some cpulist" "get_core_ids sr = Some ids"
      "cores = filter (\<lambda>i. Inr i \<in> set (parse_ranges cpulist)) ids" "length cores = unat (p_num_cpus specs)"
      using cli_affinity_cores by blast
    have "\<exists>core. local_cpu_affinity affinity i = Some core \<and> core \<in> set ids \<and> Inr core \<in> set (parse_ranges cpulist)" if "i < p_num_cpus specs" for i
    proof -
      have "unat i < length cores" using that c(4) by (simp add: word_less_nat_alt)
      then have "cores ! unat i \<in> set cores" "local_cpu_affinity affinity i = Some (cores ! unat i)"
        using \<open>affinity = Some cores\<close> by (simp_all add: local_cpu_affinity_def)
      then show ?thesis using c(3) by auto
    qed
    then show ?thesis using c by auto
  qed
  show ?thesis using cli_mem_size_bounds [OF m(1)] m(2) path cores by (simp add: MINIMAL_GUEST_SIZE_def)
qed

definition sample_surrounding :: surrounding where
  "sample_surrounding = \<lparr>byte_from_str = (\<lambda>_. Some 1024), get_core_ids = Some [0, 1, 2, 3], envmnt_is_or = (\<lambda>_ b. b), env_var = (\<lambda>_. None),
     hugepages = Inr True\<rparr>"

definition sample_matches :: matches where
  "sample_matches = \<lparr>KERNEL = Some ''k'', MEM = Some ''1KiB'', CPUS = Some ''2'', CPU_AFFINITY = Some [''2-3''], GDB_PORT = None, VERBOSE = False,
     DISABLE_HUGEPAGE = True, MERGEABLE = False\<rparr>"

theorem cli_parameters_witness:
  "\<exists>specs. cli_main sample_surrounding sample_matches = Inr (''k'', specs, Some [2, 3]) \<and> p_num_cpus specs = 2 \<and>
     16 * 1024 * 1024 \<le> unat (p_mem_size specs)"
proof -
  have "parse_ranges [''2-3''] = [Inr 2, Inr 3]"
    by (simp add: parse_ranges_def parse_range_def parse_uint_def to_digit_def upt_rec)
  then have aff: "cli_affinity sample_surrounding sample_matches 2 = Inr (Some [2, 3])"
    by (simp add: cli_affinity_def sample_surrounding_def sample_matches_def collect_ok_def rust_assert_def)
  have n: "cli_num_cpus sample_matches = 2" by (simp add: cli_num_cpus_def sample_matches_def parse_uint_def to_digit_def)
  obtain m where m: "cli_mem_size sample_surrounding sample_matches = Inr m"
    by (simp add: cli_mem_size_def sample_surrounding_def sample_matches_def)
  have g: "cli_gdbport sample_surrounding sample_matches = Inr None" by (simp add: cli_gdbport_def sample_surrounding_def sample_matches_def)
  obtain specs where specs: "cli_main sample_surrounding sample_matches = Inr (''k'', specs, Some [2, 3])" "p_num_cpus specs = 2"
    by (simp add: cli_main_def n aff m g Let_def) (simp add: sample_surrounding_def sample_matches_def)
  from cli_parameters [OF specs(1)] specs show ?thesis by auto
qed

end
