(* ===== verification/Spec2Isabelle.thy ===== *)
theory Spec2Isabelle
  imports Run_Linux Run_Macos Cli
begin

text \<open>
  Verification of the hypervisor uhyve.
\<close>

section \<open>From the command line to the first instruction\<close>

lemma load_kernel_keeps:
  assumes "load_kernel gob oc linux host vm = Inr vm'"
  shows "\<exists>b e s m. vm' = (set_boot_info b (set_entry_point e (set_offset s vm)))\<lparr>vm_mem := m\<rparr>"
  using assms unfolding load_kernel_def by (auto simp: and_then_eq_Inr Let_def split: if_splits prod.splits)

lemma header_fold_cpu_online:
  "bi_cpu_online (fold (header_step gob is_dyn start) phs b) = bi_cpu_online b"
  by (induction phs arbitrary: b) (simp_all add: header_step_def)

lemma cli_no_addresses:
  assumes "cli_main sr ma = Inr (kpath, specs, affinity)"
  shows "p_ip specs = None" "p_gateway specs = None" "p_mask specs = None" "MINIMAL_GUEST_SIZE \<le> unat (p_mem_size specs)"
  using assms cli_mem_size_bounds [of sr ma] by (auto simp: cli_main_def and_then_eq_Inr Let_def)

lemma Uhyve_new_addresses:
  assumes "Uhyve_new kh oc kpath specs = Inr vm" and "p_ip specs = None" and "p_gateway specs = None" and "p_mask specs = None"
  shows "vm_ip vm = None" "vm_gateway vm = None" "vm_mask vm = None" "vm_boot_info vm = None"
  using assms by (auto simp: Uhyve_new_def and_then_eq_Inr panics_eq_Inr parse_addr_def)


text \<open>An accepted command line on the sample host, with the sample kernel.\<close>

definition small_matches :: matches where
  "small_matches = \<lparr>KERNEL = Some ''k'', MEM = Some ''1KiB'', CPUS = None, CPU_AFFINITY = None, GDB_PORT = None, VERBOSE = False,
     DISABLE_HUGEPAGE = True, MERGEABLE = False\<rparr>"

definition small_specs :: Parameter where
  "small_specs = \<lparr>p_mem_size = 0x1000000, p_num_cpus = 1, p_verbose = False, p_hugepage = False, p_mergeable = False,
     p_ip = None, p_gateway = None, p_mask = None, p_nic = None, p_gdbport = None\<rparr>"

lemma small_main: "cli_main sample_surrounding small_matches = Inr (''k'', small_specs, None)"
  by (simp add: cli_main_def small_matches_def small_specs_def sample_surrounding_def cli_mem_size_def cli_num_cpus_def cli_affinity_def
      cli_gdbport_def MINIMAL_GUEST_SIZE_def)

lemma small_machine: "\<exists>vm. (Uhyve_new sample_kvm oc [47] small_specs :: _ + (_, unit) Uhyve) = Inr vm"
proof -
  let ?m = "\<lparr>mem_base = 0x7f0000000000, mem_size = 0x1000000, mem_bytes = (\<lambda>_. 0)\<rparr> :: hmem"
  obtain m' where m': "init_guest_mem oc ?m = Inr m'"
    using init_guest_mem_boot_memory [of ?m oc] by (auto simp: mem_wf_def)
  have "\<not> (0x100000000 :: u64) < 0x1000000" by simp
  then show ?thesis
    using m'
    by (simp add: Uhyve_new_def sample_kvm_def small_specs_def parse_addr_def MmapMemory_new_def VirtioNetPciDevice_new_eq
        register_memory_def gap_values add_oc_def enable_caps_def rust_assert_def guest_mem_def)
qed


end
